(* ===== verification/Aks_Prelude.thy ===== *)
theory Aks_Prelude
  imports Main "HOL-Library.Word"
begin

text \<open>
  Shared vocabulary of the development: the fixed-width integer types of the
  firmware as words, the big-endian and little-endian readings of byte pairs,
  unsigned tick differences, and the theorem collections the component theories
  put their automation into.

  A C type \<open>uintN_t\<close> and the C type \<open>intN_t\<close> of the same width are both modelled
  by \<open>N word\<close>.  Unsigned reading is \<open>unat\<close>/\<open>uint\<close> (and the word order), signed
  reading is \<open>sint\<close>.
\<close>

unbundle bit_operations_syntax

type_synonym u8 = "8 word"
type_synonym u16 = "16 word"
type_synonym u32 = "32 word"
type_synonym i8 = "8 word"
type_synonym i16 = "16 word"
type_synonym i32 = "32 word"

named_theorems cfg \<open>configuration constants of the firmware\<close>
named_theorems op_defs \<open>definitions of the operations of a component\<close>
named_theorems keeps \<open>frame facts: what an operation leaves unchanged\<close>

subsection \<open>Byte pairs\<close>

definition be16 :: "u8 \<Rightarrow> u8 \<Rightarrow> u16" where
  "be16 hi lo = (push_bit 8 (ucast hi)) OR ucast lo"

definition le16 :: "u8 \<Rightarrow> u8 \<Rightarrow> u16" where
  "le16 lo hi = ucast lo OR push_bit 8 (ucast hi)"

lemma u8_unat_less: "unat (b :: u8) < 256"
  using unsigned_less[of b, where 'a = nat] by simp

lemma u16_unat_less: "unat (w :: u16) < 65536"
  using unsigned_less[of w, where 'a = nat] by simp

lemma be16_unat: "unat (be16 hi lo) = unat hi * 256 + unat lo"
proof -
  have d: "push_bit 8 (ucast hi :: u16) AND ucast lo = 0"
    by (rule bit_eqI) (auto simp: bit_simps dest: bit_imp_le_length)
  have "be16 hi lo = push_bit 8 (ucast hi) + ucast lo"
    unfolding be16_def using d by (simp add: disjunctive_add_eq_or)
  also have "\<dots> = of_nat (unat hi * 256 + unat lo)"
    by (simp add: push_bit_eq_mult mult.commute)
  finally show ?thesis
    using u8_unat_less[of hi] u8_unat_less[of lo]
    by (simp add: unat_of_nat take_bit_eq_mod del: of_nat_add of_nat_mult of_nat_unat)
qed

lemma le16_be16: "le16 lo hi = be16 hi lo"
  by (simp add: le16_def be16_def or.commute)

lemma be16_bytes [simp]: "be16 (ucast (drop_bit 8 w)) (ucast w) = (w :: u16)"
  unfolding be16_def by (rule bit_eqI) (auto simp: bit_simps)

subsection \<open>Unsigned tick differences\<close>

text \<open>\<open>now - last\<close> on \<open>uint32_t\<close> is the elapsed time as long as less than
  \<open>2^32\<close> ticks have passed, also across a wrap-around of the counter.\<close>

lemma elapsed_wrap:
  fixes last :: u32
  assumes "d < 2 ^ 32"
  shows "unat (last + of_nat d - last) = d"
  using assms by (simp add: unat_of_nat)

lemma u32_less_eq_numeral: "(x :: u32) \<le> numeral k \<longleftrightarrow> unat x \<le> unat (numeral k :: u32)"
  by (simp add: word_le_nat_alt)

end
