(* ===== verification/Vehicle_Data.thy ===== *)
theory Vehicle_Data
  imports Aks_Prelude
begin

text \<open>
  The data contract \<open>TelemetryData\<close> (lib/VehicleData/VehicleData.h) and the
  constants of include/SystemConfig.h and lib/BmsAlgo/BmsAlgo.h that the control
  logic, the CAN layer and the relay driver share.  Array fields are lists; the
  well-formedness predicate \<open>tel_wf\<close> fixes their length.
\<close>

record TelemetryData =
  TEL_motorRpm :: i16
  TEL_motorVoltageDeciV :: u16
  TEL_motorErrorFlags :: u8
  TEL_motorDataValid :: bool
  TEL_motorTimeoutActive :: bool
  TEL_bmsCellVoltages :: "u16 list"
  TEL_bmsCellVoltageMaxDeciMv :: u16
  TEL_bmsCellVoltageMinDeciMv :: u16
  TEL_bmsCellVoltageAvgDeciMv :: u16
  TEL_bmsSystemState :: u8
  TEL_cellVoltageDataValid :: bool
  TEL_cellVoltageTimeoutActive :: bool
  TEL_bmsPackVoltageDeciV :: u16
  TEL_bmsCurrentCentiA :: i32
  TEL_bmsSocHundredths :: u16
  TEL_bmsSoc2Hundredths :: u16
  TEL_bmsTempHighestC :: i8
  TEL_bmsTempLowestC :: i8
  TEL_bmsDataValid :: bool
  TEL_bmsTimeoutActive :: bool
  TEL_timestampMs :: u32
  TEL_speedKmhX10 :: u16

text \<open>Value initialisation \<open>TelemetryData{}\<close>: every field zero or false.\<close>

definition TelemetryData_zero :: TelemetryData where
  "TelemetryData_zero = \<lparr>
     TEL_motorRpm = 0, TEL_motorVoltageDeciV = 0, TEL_motorErrorFlags = 0,
     TEL_motorDataValid = False, TEL_motorTimeoutActive = False,
     TEL_bmsCellVoltages = replicate 24 0,
     TEL_bmsCellVoltageMaxDeciMv = 0, TEL_bmsCellVoltageMinDeciMv = 0,
     TEL_bmsCellVoltageAvgDeciMv = 0, TEL_bmsSystemState = 0,
     TEL_cellVoltageDataValid = False, TEL_cellVoltageTimeoutActive = False,
     TEL_bmsPackVoltageDeciV = 0, TEL_bmsCurrentCentiA = 0,
     TEL_bmsSocHundredths = 0, TEL_bmsSoc2Hundredths = 0,
     TEL_bmsTempHighestC = 0, TEL_bmsTempLowestC = 0,
     TEL_bmsDataValid = False, TEL_bmsTimeoutActive = False,
     TEL_timestampMs = 0, TEL_speedKmhX10 = 0 \<rparr>"

definition tel_wf :: "TelemetryData \<Rightarrow> bool" where
  "tel_wf d \<longleftrightarrow> length (TEL_bmsCellVoltages d) = 24"

lemma tel_wf_zero [simp]: "tel_wf TelemetryData_zero"
  by (simp add: tel_wf_def TelemetryData_zero_def)

subsection \<open>Constants of the control logic\<close>

definition TASK_PERIOD_MS :: u32 where [cfg, simp]: "TASK_PERIOD_MS = 20"
definition VCU_CONTACTOR_OPEN_DELAY_MS :: u32 where [cfg, simp]: "VCU_CONTACTOR_OPEN_DELAY_MS = 20"

text \<open>The compile-time switch keeps its name in every lemma: what is proved
  without unfolding it holds for both settings.\<close>

definition MOTOR_DRIVER_PRESENT :: bool where [cfg]: "MOTOR_DRIVER_PRESENT = False"

definition BMS_WARN_MIN_PACK_VOLTAGE_DECI_V :: u16 where
  [cfg, simp]: "BMS_WARN_MIN_PACK_VOLTAGE_DECI_V = 720"
definition BMS_CRITICAL_MIN_PACK_VOLTAGE_DECI_V :: u16 where
  [cfg, simp]: "BMS_CRITICAL_MIN_PACK_VOLTAGE_DECI_V = 600"
definition BMS_WARN_MAX_PACK_VOLTAGE_DECI_V :: u16 where
  [cfg, simp]: "BMS_WARN_MAX_PACK_VOLTAGE_DECI_V = 852"
definition BMS_CRITICAL_MAX_PACK_VOLTAGE_DECI_V :: u16 where
  [cfg, simp]: "BMS_CRITICAL_MAX_PACK_VOLTAGE_DECI_V = 876"
definition BMS_WARN_MAX_TEMP_C :: int where [cfg, simp]: "BMS_WARN_MAX_TEMP_C = 55"
definition BMS_CRITICAL_MAX_TEMP_C :: int where [cfg, simp]: "BMS_CRITICAL_MAX_TEMP_C = 70"
definition BMS_WARN_MAX_CHARGE_CURRENT_CENTI_A :: int where
  [cfg, simp]: "BMS_WARN_MAX_CHARGE_CURRENT_CENTI_A = 1100"
definition BMS_CRITICAL_MAX_CHARGE_CURRENT_CENTI_A :: int where
  [cfg, simp]: "BMS_CRITICAL_MAX_CHARGE_CURRENT_CENTI_A = 1300"
definition BMS_WARN_MAX_DISCHARGE_CURRENT_CENTI_A :: int where
  [cfg, simp]: "BMS_WARN_MAX_DISCHARGE_CURRENT_CENTI_A = 900"
definition BMS_CRITICAL_MAX_DISCHARGE_CURRENT_CENTI_A :: int where
  [cfg, simp]: "BMS_CRITICAL_MAX_DISCHARGE_CURRENT_CENTI_A = 1500"

definition BMS_CELL_UNDERVOLT_CRIT_MV :: u16 where [cfg, simp]: "BMS_CELL_UNDERVOLT_CRIT_MV = 2500"
definition BMS_CELL_OVERVOLT_CRIT_MV :: u16 where [cfg, simp]: "BMS_CELL_OVERVOLT_CRIT_MV = 3650"
definition BMS_CELL_UNDERVOLT_WARN_MV :: u16 where [cfg, simp]: "BMS_CELL_UNDERVOLT_WARN_MV = 2800"
definition BMS_CELL_OVERVOLT_WARN_MV :: u16 where [cfg, simp]: "BMS_CELL_OVERVOLT_WARN_MV = 3550"

definition RELAY_TOTAL_CHANNELS :: u8 where [cfg, simp]: "RELAY_TOTAL_CHANNELS = 10"
definition RELAY_VERIFY_PERIOD_MS :: u32 where [cfg, simp]: "RELAY_VERIFY_PERIOD_MS = 100"

end
