(* ===== verification/Vcu_Safety.thy ===== *)
theory Vcu_Safety
  imports Vehicle_Data
begin

text \<open>
  The states and events of the vehicle control unit and its pure safety
  predicates (lib/VcuLogic/VcuLogic.h).  The predicates only look at their
  arguments; early returns are nested conditionals in source order.
\<close>

datatype VcuState = INIT | IDLE | READY | DRIVE | EMERGENCY_STOP | FAULT

datatype VcuEvent = Ev_NONE | Ev_START_REQUEST | Ev_DRIVE_ENABLE
  | Ev_EMERGENCY_STOP | Ev_FAULT_DETECTED | Ev_RESET

definition isCurrentCritical :: "i32 \<Rightarrow> bool" where
  "isCurrentCritical c \<longleftrightarrow>
     sint c \<ge> BMS_CRITICAL_MAX_CHARGE_CURRENT_CENTI_A \<or>
     sint c \<le> - BMS_CRITICAL_MAX_DISCHARGE_CURRENT_CENTI_A"

definition isCurrentWarning :: "i32 \<Rightarrow> bool" where
  "isCurrentWarning c \<longleftrightarrow>
     sint c \<ge> BMS_WARN_MAX_CHARGE_CURRENT_CENTI_A \<or>
     sint c \<le> - BMS_WARN_MAX_DISCHARGE_CURRENT_CENTI_A"

definition isTempCritical :: "i8 \<Rightarrow> bool" where
  "isTempCritical t \<longleftrightarrow> sint t \<ge> BMS_CRITICAL_MAX_TEMP_C"

definition isTempWarning :: "i8 \<Rightarrow> bool" where
  "isTempWarning t \<longleftrightarrow> sint t \<ge> BMS_WARN_MAX_TEMP_C"

definition hasWarningCondition :: "TelemetryData \<Rightarrow> bool" where
  "hasWarningCondition d =
    (if \<not> TEL_bmsDataValid d then False
     else if TEL_cellVoltageDataValid d \<and>
             TEL_bmsCellVoltageMinDeciMv d < BMS_CELL_UNDERVOLT_WARN_MV then True
     else if TEL_cellVoltageDataValid d \<and>
             TEL_bmsCellVoltageMaxDeciMv d > BMS_CELL_OVERVOLT_WARN_MV then True
     else TEL_bmsPackVoltageDeciV d \<le> BMS_WARN_MIN_PACK_VOLTAGE_DECI_V \<or>
          TEL_bmsPackVoltageDeciV d \<ge> BMS_WARN_MAX_PACK_VOLTAGE_DECI_V \<or>
          isTempWarning (TEL_bmsTempHighestC d) \<or>
          isCurrentWarning (TEL_bmsCurrentCentiA d))"

definition hasCriticalCondition :: "TelemetryData \<Rightarrow> VcuState \<Rightarrow> bool" where
  "hasCriticalCondition d currentState =
    (if TEL_motorErrorFlags d \<noteq> 0 \<or> (TEL_bmsDataValid d \<and> TEL_bmsSystemState d = 4) then True
     else if TEL_motorTimeoutActive d \<and> currentState \<noteq> IDLE then True
     else if TEL_bmsTimeoutActive d \<and> currentState \<noteq> IDLE then True
     else if \<not> TEL_bmsDataValid d then False
     else if TEL_cellVoltageDataValid d \<and>
             TEL_bmsCellVoltageMinDeciMv d < BMS_CELL_UNDERVOLT_CRIT_MV then True
     else if TEL_cellVoltageDataValid d \<and>
             TEL_bmsCellVoltageMaxDeciMv d > BMS_CELL_OVERVOLT_CRIT_MV then True
     else TEL_bmsPackVoltageDeciV d \<le> BMS_CRITICAL_MIN_PACK_VOLTAGE_DECI_V \<or>
          TEL_bmsPackVoltageDeciV d \<ge> BMS_CRITICAL_MAX_PACK_VOLTAGE_DECI_V \<or>
          isTempCritical (TEL_bmsTempHighestC d) \<or>
          isCurrentCritical (TEL_bmsCurrentCentiA d))"

definition isResetInterlockSatisfied :: "TelemetryData \<Rightarrow> VcuState \<Rightarrow> bool" where
  "isResetInterlockSatisfied d currentState =
    (if TEL_motorErrorFlags d \<noteq> 0 \<or> (TEL_bmsDataValid d \<and> TEL_bmsSystemState d = 4) then False
     else if hasCriticalCondition d currentState then False
     else True)"

definition isReadyEntryPermitted :: "TelemetryData \<Rightarrow> bool" where
  "isReadyEntryPermitted d =
    (if \<not> TEL_bmsDataValid d then False
     else if hasCriticalCondition d IDLE then False
     else if hasWarningCondition d then False
     else if MOTOR_DRIVER_PRESENT \<and> \<not> TEL_motorDataValid d then False
     else True)"

subsection \<open>Relations between the predicates\<close>

lemma isCurrentCritical_iff:
  "isCurrentCritical c \<longleftrightarrow> sint c \<ge> 1300 \<or> sint c \<le> - 1500"
  by (simp add: isCurrentCritical_def)

lemma isCurrentWarning_iff:
  "isCurrentWarning c \<longleftrightarrow> sint c \<ge> 1100 \<or> sint c \<le> - 900"
  by (simp add: isCurrentWarning_def)

lemma current_critical_warns: "isCurrentCritical c \<Longrightarrow> isCurrentWarning c"
  by (auto simp: isCurrentCritical_def isCurrentWarning_def)

lemma temp_critical_warns: "isTempCritical t \<Longrightarrow> isTempWarning t"
  by (auto simp: isTempCritical_def isTempWarning_def)

text \<open>Every signal band is nested: what the battery makes critical in IDLE,
  with no motor error and no BMS system fault, is at least a warning.\<close>

lemma critical_idle_warns:
  assumes "hasCriticalCondition d IDLE" "TEL_motorErrorFlags d = 0"
    and "TEL_bmsSystemState d \<noteq> 4"
  shows "hasWarningCondition d"
  using assms current_critical_warns temp_critical_warns
  by (auto simp: hasCriticalCondition_def hasWarningCondition_def word_le_nat_alt word_less_nat_alt
           split: if_splits)

lemma critical_mono:
  "hasCriticalCondition d IDLE \<Longrightarrow> hasCriticalCondition d st"
  by (auto simp: hasCriticalCondition_def)

lemma reset_interlock_iff:
  "isResetInterlockSatisfied d st \<longleftrightarrow> \<not> hasCriticalCondition d st"
  by (auto simp: isResetInterlockSatisfied_def hasCriticalCondition_def)

lemma critical_motor:
  "TEL_motorErrorFlags d \<noteq> 0 \<or> (TEL_bmsDataValid d \<and> TEL_bmsSystemState d = 4) \<Longrightarrow> hasCriticalCondition d st"
  by (simp add: hasCriticalCondition_def)

text \<open>The two predicates in closed form: the conditions of READY and those of a live stop.\<close>

lemma isReadyEntryPermitted_iff:
  "isReadyEntryPermitted d \<longleftrightarrow>
    TEL_bmsDataValid d \<and> TEL_motorErrorFlags d = 0 \<and> TEL_bmsSystemState d \<noteq> 4 \<and>
    (\<not> TEL_cellVoltageDataValid d \<or>
       2800 \<le> TEL_bmsCellVoltageMinDeciMv d \<and> TEL_bmsCellVoltageMaxDeciMv d \<le> 3550) \<and>
    720 < TEL_bmsPackVoltageDeciV d \<and> TEL_bmsPackVoltageDeciV d < 852 \<and>
    sint (TEL_bmsTempHighestC d) < 55 \<and>
    - 900 < sint (TEL_bmsCurrentCentiA d) \<and> sint (TEL_bmsCurrentCentiA d) < 1100 \<and>
    (\<not> MOTOR_DRIVER_PRESENT \<or> TEL_motorDataValid d)"
proof -
  have "isReadyEntryPermitted d \<longleftrightarrow> TEL_bmsDataValid d \<and> TEL_motorErrorFlags d = 0 \<and>
      TEL_bmsSystemState d \<noteq> 4 \<and> \<not> hasWarningCondition d \<and> (\<not> MOTOR_DRIVER_PRESENT \<or> TEL_motorDataValid d)"
    using critical_idle_warns[of d] critical_motor[of d] by (auto simp: isReadyEntryPermitted_def)
  moreover have "TEL_bmsDataValid d \<Longrightarrow> hasWarningCondition d \<longleftrightarrow>
      TEL_cellVoltageDataValid d \<and>
        (TEL_bmsCellVoltageMinDeciMv d < 2800 \<or> 3550 < TEL_bmsCellVoltageMaxDeciMv d) \<or>
      TEL_bmsPackVoltageDeciV d \<le> 720 \<or> 852 \<le> TEL_bmsPackVoltageDeciV d \<or>
      55 \<le> sint (TEL_bmsTempHighestC d) \<or>
      1100 \<le> sint (TEL_bmsCurrentCentiA d) \<or> sint (TEL_bmsCurrentCentiA d) \<le> - 900"
    by (simp add: hasWarningCondition_def isTempWarning_def isCurrentWarning_iff) blast
  ultimately show ?thesis by (metis not_le)
qed

lemma critical_live_iff:
  "st = READY \<or> st = DRIVE \<Longrightarrow> hasCriticalCondition d st \<longleftrightarrow>
    TEL_motorErrorFlags d \<noteq> 0 \<or> TEL_motorTimeoutActive d \<or> TEL_bmsTimeoutActive d \<or>
    TEL_bmsDataValid d \<and>
      (TEL_bmsSystemState d = 4 \<or>
       TEL_cellVoltageDataValid d \<and>
         (TEL_bmsCellVoltageMinDeciMv d < 2500 \<or> 3650 < TEL_bmsCellVoltageMaxDeciMv d) \<or>
       TEL_bmsPackVoltageDeciV d \<le> 600 \<or> 876 \<le> TEL_bmsPackVoltageDeciV d \<or>
       70 \<le> sint (TEL_bmsTempHighestC d) \<or>
       1300 \<le> sint (TEL_bmsCurrentCentiA d) \<or> sint (TEL_bmsCurrentCentiA d) \<le> - 1500)"
  by (auto simp: hasCriticalCondition_def isTempCritical_def isCurrentCritical_def)

lemma permitted_not_critical: "isReadyEntryPermitted d \<Longrightarrow> \<not> hasCriticalCondition d IDLE"
  by (simp add: isReadyEntryPermitted_def split: if_splits)

end
