(* ===== verification/Relay_Manager.thy ===== *)
theory Relay_Manager
  imports Vehicle_Data
begin

text \<open>
  The relay driver lib/RelayManager/RelayManager.cpp: a shadow word of ten
  contactor commands, written to an MCP23S17 port expander over SPI and read
  back after every write (G3).

  The ESP-IDF SPI driver and the chip behind it are outside the repository.
  They enter as a parameter: a record of the three driver calls over a hardware
  state \<open>'h\<close>.  \<open>spi_device_transmit\<close> takes the transmit buffer and gives the
  receive buffer, or \<open>None\<close> when it returns an error.  The locale \<open>mcp23s17\<close> states
  the documented behaviour of a working chip (a write opcode stores a byte in a
  register, a read opcode returns it); the repository's own register model
  test/test_native_relay/fake_spi.cpp is shown to satisfy it.
\<close>

record 'h SpiDriver =
  spi_bus_initialize :: "'h \<Rightarrow> bool \<times> 'h"
  spi_bus_add_device :: "'h \<Rightarrow> bool \<times> 'h"
  spi_device_transmit :: "u8 list \<Rightarrow> 'h \<Rightarrow> u8 list option \<times> 'h"

record 'h RelayManager =
  s_relayState :: u16
  s_spiDev :: bool
  s_initialized :: bool
  s_actuatorFault :: bool
  s_lastVerifyMs :: u32
  s_verifyStarted :: bool
  chip :: 'h

definition MCP23S17_IODIRA :: u8 where [cfg]: "MCP23S17_IODIRA = 0x00"
definition MCP23S17_IODIRB :: u8 where [cfg]: "MCP23S17_IODIRB = 0x01"
definition MCP23S17_OLATA :: u8 where [cfg]: "MCP23S17_OLATA = 0x14"
definition MCP23S17_OLATB :: u8 where [cfg]: "MCP23S17_OLATB = 0x15"
definition MCP23S17_ADDR :: u8 where [cfg]: "MCP23S17_ADDR = 0x40"
definition MCP23S17_ADDR_READ :: u8 where [cfg]: "MCP23S17_ADDR_READ = 0x41"

text \<open>The object as constructed: in-class member initialisers.\<close>

definition RelayManager_new :: "'h \<Rightarrow> 'h RelayManager" where
  "RelayManager_new h = \<lparr> s_relayState = 0, s_spiDev = False, s_initialized = False,
     s_actuatorFault = False, s_lastVerifyMs = 0, s_verifyStarted = False, chip = h \<rparr>"

definition writeRegister :: "'h SpiDriver \<Rightarrow> u8 \<Rightarrow> u8 \<Rightarrow> 'h RelayManager \<Rightarrow> 'h RelayManager" where
  "writeRegister d reg value r =
    (if \<not> s_spiDev r then r
     else r\<lparr> chip := snd (spi_device_transmit d [MCP23S17_ADDR, reg, value] (chip r)) \<rparr>)"

text \<open>\<open>None\<close> is the result \<open>false\<close>; \<open>Some v\<close> is \<open>true\<close> with \<open>out = v\<close>.\<close>

definition readRegister :: "'h SpiDriver \<Rightarrow> u8 \<Rightarrow> 'h RelayManager \<Rightarrow> u8 option \<times> 'h RelayManager" where
  "readRegister d reg r =
    (if \<not> s_spiDev r then (None, r)
     else let (rx, h') = spi_device_transmit d [MCP23S17_ADDR_READ, reg, 0x00] (chip r)
          in (map_option (\<lambda>b. b ! 2) rx, r\<lparr> chip := h' \<rparr>))"

definition hwLow :: "u16 \<Rightarrow> u8" where "hwLow w = ucast (w AND 0xFF)"
definition hwHigh :: "u16 \<Rightarrow> u8" where "hwHigh w = ucast (drop_bit 8 w AND 0xFF)"

definition writeOutputs :: "'h SpiDriver \<Rightarrow> u16 \<Rightarrow> 'h RelayManager \<Rightarrow> 'h RelayManager" where
  "writeOutputs d w r =
     writeRegister d MCP23S17_OLATB (hwHigh w) (writeRegister d MCP23S17_OLATA (hwLow w) r)"

definition safeInitWrites :: "'h SpiDriver \<Rightarrow> 'h RelayManager \<Rightarrow> 'h RelayManager" where
  "safeInitWrites d r =
    (let r = writeRegister d MCP23S17_OLATA 0xFF r;
         r = writeRegister d MCP23S17_OLATB 0xFF r;
         r = writeRegister d MCP23S17_IODIRA 0x00 r
     in writeRegister d MCP23S17_IODIRB 0x00 r)"

definition reinitAndReassert :: "'h SpiDriver \<Rightarrow> 'h RelayManager \<Rightarrow> 'h RelayManager" where
  "reinitAndReassert d r = writeOutputs d (NOT (s_relayState r)) (safeInitWrites d r)"

text \<open>The short-circuit chain of four reads: reading stops at the first failure.
  The result is the list of the registers read, complete (length 4) iff \<open>readOk\<close>.\<close>

fun readChain :: "'h SpiDriver \<Rightarrow> u8 list \<Rightarrow> 'h RelayManager \<Rightarrow> u8 list option \<times> 'h RelayManager" where
  "readChain d [] r = (Some [], r)"
| "readChain d (reg # regs) r =
    (case readRegister d reg r of
       (None, r') \<Rightarrow> (None, r')
     | (Some v, r') \<Rightarrow>
         (case readChain d regs r' of (vs, r'') \<Rightarrow> (map_option (Cons v) vs, r'')))"

definition verifyRegs :: "u8 list" where
  "verifyRegs = [MCP23S17_OLATA, MCP23S17_OLATB, MCP23S17_IODIRA, MCP23S17_IODIRB]"

definition expectedRegs :: "u16 \<Rightarrow> u8 list" where
  "expectedRegs shadow = [hwLow (NOT shadow), hwHigh (NOT shadow), 0x00, 0x00]"

definition verifyOutputs :: "'h SpiDriver \<Rightarrow> 'h RelayManager \<Rightarrow> bool \<times> 'h RelayManager" where
  "verifyOutputs d r =
    (if \<not> s_initialized r \<or> \<not> s_spiDev r then (True, r)
     else let expected = expectedRegs (s_relayState r);
              (vs, r) = readChain d verifyRegs r
          in if vs = Some expected then (True, r)
             else let r = reinitAndReassert d r;
                      r = r\<lparr> s_actuatorFault := True \<rparr>;
                      (_, r) = readChain d verifyRegs r
                  in (False, r))"

definition RelayManager_begin :: "'h SpiDriver \<Rightarrow> 'h RelayManager \<Rightarrow> bool \<times> 'h RelayManager" where
  "RelayManager_begin d r =
    (let (ok, h) = spi_bus_initialize d (chip r); r = r\<lparr> chip := h \<rparr>
     in if \<not> ok then (False, r)
        else let (ok, h) = spi_bus_add_device d (chip r); r = r\<lparr> chip := h \<rparr>
             in if \<not> ok then (False, r)
                else let r = r\<lparr> s_spiDev := True \<rparr>;
                         r = safeInitWrites d r;
                         r = r\<lparr> s_relayState := 0, s_initialized := True \<rparr>
                     in (True, snd (verifyOutputs d r)))"

definition setRelay :: "'h SpiDriver \<Rightarrow> u8 \<Rightarrow> bool \<Rightarrow> 'h RelayManager \<Rightarrow> 'h RelayManager" where
  "setRelay d channel state r =
    (if \<not> s_initialized r \<or> channel \<ge> RELAY_TOTAL_CHANNELS then r
     else let cur = (if state then s_relayState r OR push_bit (unat channel) 1
                     else s_relayState r AND NOT (push_bit (unat channel) 1));
              r = r\<lparr> s_relayState := cur \<rparr>;
              r = writeOutputs d (NOT cur) r
          in snd (verifyOutputs d r))"

definition allOn :: "'h SpiDriver \<Rightarrow> 'h RelayManager \<Rightarrow> 'h RelayManager" where
  "allOn d r =
    (if \<not> s_initialized r then r
     else let cur = push_bit (unat RELAY_TOTAL_CHANNELS) 1 - 1;
              r = r\<lparr> s_relayState := cur \<rparr>;
              r = writeOutputs d (NOT cur) r
          in snd (verifyOutputs d r))"

definition allOff :: "'h SpiDriver \<Rightarrow> bool \<Rightarrow> 'h RelayManager \<Rightarrow> 'h RelayManager" where
  "allOff d silent r =
    (let r = r\<lparr> s_relayState := 0 \<rparr>;
         r = writeRegister d MCP23S17_OLATA 0xFF r;
         r = writeRegister d MCP23S17_OLATB 0xFF r
     in snd (verifyOutputs d r))"

definition getRelayState :: "u8 \<Rightarrow> 'h RelayManager \<Rightarrow> bool" where
  "getRelayState channel r =
    (if channel \<ge> RELAY_TOTAL_CHANNELS then False
     else (drop_bit (unat channel) (s_relayState r) AND 0x01) \<noteq> 0)"

definition verifyIfDue :: "'h SpiDriver \<Rightarrow> u32 \<Rightarrow> 'h RelayManager \<Rightarrow> 'h RelayManager" where
  "verifyIfDue d nowMs r =
    (if \<not> s_initialized r then r
     else if \<not> s_verifyStarted r then r\<lparr> s_verifyStarted := True, s_lastVerifyMs := nowMs \<rparr>
     else if nowMs - s_lastVerifyMs r < RELAY_VERIFY_PERIOD_MS then r
     else snd (verifyOutputs d (r\<lparr> s_lastVerifyMs := nowMs \<rparr>)))"

definition hasActuatorFault :: "'h RelayManager \<Rightarrow> bool" where
  "hasActuatorFault r = s_actuatorFault r"

definition clearActuatorFault :: "'h RelayManager \<Rightarrow> 'h RelayManager" where
  "clearActuatorFault r = r\<lparr> s_actuatorFault := False \<rparr>"

definition RelayManager_resetForTest :: "'h RelayManager \<Rightarrow> 'h RelayManager" where
  "RelayManager_resetForTest r = r\<lparr> s_relayState := 0, s_initialized := False, s_spiDev := False,
     s_actuatorFault := False, s_lastVerifyMs := 0, s_verifyStarted := False \<rparr>"


subsection \<open>What every operation leaves alone\<close>

text \<open>Bus traffic touches nothing but the hardware: the control fields of the
  driver object are the same before and after.\<close>

definition ctl :: "'h RelayManager \<Rightarrow> u16 \<times> bool \<times> bool \<times> u32 \<times> bool" where
  "ctl r = (s_relayState r, s_spiDev r, s_initialized r, s_lastVerifyMs r, s_verifyStarted r)"

lemma writeRegister_keeps [keeps]:
  "ctl (writeRegister d reg v r) = ctl r"
  "s_actuatorFault (writeRegister d reg v r) = s_actuatorFault r"
  by (simp_all add: writeRegister_def ctl_def)

lemma writeOutputs_keeps [keeps]:
  "ctl (writeOutputs d w r) = ctl r"
  "s_actuatorFault (writeOutputs d w r) = s_actuatorFault r"
  by (simp_all add: writeOutputs_def keeps)

lemma safeInitWrites_keeps [keeps]:
  "ctl (safeInitWrites d r) = ctl r"
  "s_actuatorFault (safeInitWrites d r) = s_actuatorFault r"
  by (simp_all add: safeInitWrites_def Let_def keeps)

lemma reinitAndReassert_keeps [keeps]:
  "ctl (reinitAndReassert d r) = ctl r"
  "s_actuatorFault (reinitAndReassert d r) = s_actuatorFault r"
  by (simp_all add: reinitAndReassert_def keeps)

lemma readRegister_keeps [keeps]:
  "ctl (snd (readRegister d reg r)) = ctl r"
  "s_actuatorFault (snd (readRegister d reg r)) = s_actuatorFault r"
  by (simp_all add: readRegister_def ctl_def split: prod.splits)

lemma readChain_keeps [keeps]:
  "ctl (snd (readChain d regs r)) = ctl r"
  "s_actuatorFault (snd (readChain d regs r)) = s_actuatorFault r"
proof (induction d regs r rule: readChain.induct)
  case (2 d reg regs r)
  { case 1 show ?case using 2 readRegister_keeps[of d reg r]
      by (auto split: prod.splits option.splits) }
  { case 2 show ?case using "2.IH" readRegister_keeps[of d reg r]
      by (auto split: prod.splits option.splits) }
qed simp_all

lemma ctl_setFault [simp]: "ctl (r\<lparr> s_actuatorFault := b \<rparr>) = ctl r"
  by (simp add: ctl_def)

lemma verifyOutputs_ctl [keeps]: "ctl (snd (verifyOutputs d r)) = ctl r"
  by (simp add: verifyOutputs_def Let_def case_prod_beta keeps)

lemma verifyOutputs_fault:
  "s_actuatorFault (snd (verifyOutputs d r)) \<longleftrightarrow> s_actuatorFault r \<or> \<not> fst (verifyOutputs d r)"
  by (simp add: verifyOutputs_def Let_def case_prod_beta keeps)

lemmas readChain_fields [simp] = readChain_keeps(1)[unfolded ctl_def prod.inject]
lemmas writeRegister_fields [simp] = writeRegister_keeps(1)[unfolded ctl_def prod.inject]
lemmas writeOutputs_fields [simp] = writeOutputs_keeps(1)[unfolded ctl_def prod.inject]
lemmas safeInitWrites_fields [simp] = safeInitWrites_keeps(1)[unfolded ctl_def prod.inject]
lemmas verifyOutputs_fields [simp] = verifyOutputs_ctl[unfolded ctl_def prod.inject]

lemma verifyOutputs_uninit: "\<not> s_initialized r \<Longrightarrow> verifyOutputs d r = (True, r)"
  by (simp add: verifyOutputs_def)

lemma verifyOutputs_latches:
  "s_actuatorFault r \<Longrightarrow> s_actuatorFault (snd (verifyOutputs d r))"
  by (simp add: verifyOutputs_fault)

subsection \<open>The shadow word\<close>

definition ALL_CLOSED :: u16 where "ALL_CLOSED = 0x3FF"

lemma allOn_shadow [simp]:
  "s_relayState (allOn d r) = (if s_initialized r then ALL_CLOSED else s_relayState r)"
  by (simp add: allOn_def Let_def ALL_CLOSED_def push_bit_eq_mult)

lemma allOff_shadow [simp]: "s_relayState (allOff d silent r) = 0"
  by (simp add: allOff_def Let_def)

lemma verifyIfDue_shadow [simp]: "s_relayState (verifyIfDue d t r) = s_relayState r"
  by (simp add: verifyIfDue_def)

lemma clearActuatorFault_shadow [simp]: "s_relayState (clearActuatorFault r) = s_relayState r"
  by (simp add: clearActuatorFault_def)

lemma setRelay_shadow:
  "s_relayState (setRelay d ch b r) =
    (if s_initialized r \<and> ch < 10
     then (if b then s_relayState r OR push_bit (unat ch) 1
           else s_relayState r AND NOT (push_bit (unat ch) 1))
     else s_relayState r)"
  by (auto simp: setRelay_def Let_def)

lemma initialized_keeps [simp]:
  "s_initialized (allOn d r) = s_initialized r"
  "s_initialized (allOff d silent r) = s_initialized r"
  "s_initialized (setRelay d ch b r) = s_initialized r"
  "s_initialized (verifyIfDue d t r) = s_initialized r"
  "s_initialized (clearActuatorFault r) = s_initialized r"
  by (simp_all add: allOn_def allOff_def setRelay_def verifyIfDue_def clearActuatorFault_def Let_def)

lemma spiDev_keeps [simp]:
  "s_spiDev (allOn d r) = s_spiDev r"
  "s_spiDev (allOff d silent r) = s_spiDev r"
  "s_spiDev (setRelay d ch b r) = s_spiDev r"
  "s_spiDev (verifyIfDue d t r) = s_spiDev r"
  "s_spiDev (clearActuatorFault r) = s_spiDev r"
  by (simp_all add: allOn_def allOff_def setRelay_def verifyIfDue_def clearActuatorFault_def Let_def)

lemma getRelayState_bit:
  "getRelayState ch r \<longleftrightarrow> ch < 10 \<and> bit (s_relayState r) (unat ch)"
  by (auto simp: getRelayState_def and_one_eq bit_iff_odd_drop_bit odd_iff_mod_2_eq_one)

lemma getRelayState_setRelay:
  assumes "s_initialized r"
  shows "getRelayState c (setRelay d ch b r) =
    (if c = ch \<and> ch < 10 then b else getRelayState c r)"
proof -
  have lt: "x < 10 \<Longrightarrow> unat x < 16" for x :: u8
    by (simp add: word_less_nat_alt)
  show ?thesis using assms lt[of c] lt[of ch] word_unat_eq_iff[of c ch]
    by (cases "c = ch") (auto simp: getRelayState_bit setRelay_shadow bit_simps)
qed

text \<open>The shadow never has a bit above the ten channels.\<close>

definition shadow_ok :: "'h RelayManager \<Rightarrow> bool" where
  "shadow_ok r \<longleftrightarrow> s_relayState r AND NOT ALL_CLOSED = 0"

lemma ALL_CLOSED_bit: "bit ALL_CLOSED n \<longleftrightarrow> n < 10"
proof -
  have m: "(0x3FF :: u16) = mask 10" by (simp add: mask_eq_exp_minus_1)
  show ?thesis unfolding ALL_CLOSED_def by (simp only: m bit_mask_iff) auto
qed

lemma shadow_ok_bit: "shadow_ok r \<longleftrightarrow> (\<forall>n. bit (s_relayState r) n \<longrightarrow> n < 10)"
  using bit_imp_le_length[of "s_relayState r"]
  by (fastforce simp: shadow_ok_def bit_eq_iff bit_simps ALL_CLOSED_bit)

lemma shadow_ok_setRelay: "shadow_ok r \<Longrightarrow> shadow_ok (setRelay d ch b r)"
  by (auto simp: shadow_ok_bit setRelay_shadow bit_simps word_less_nat_alt)

lemma shadow_ok_ops:
  "shadow_ok (allOff d silent r)"
  "shadow_ok r \<Longrightarrow> shadow_ok (allOn d r)"
  "shadow_ok r \<Longrightarrow> shadow_ok (verifyIfDue d t r)"
  "shadow_ok r \<Longrightarrow> shadow_ok (clearActuatorFault r)"
  "shadow_ok r \<Longrightarrow> shadow_ok (snd (verifyOutputs d r))"
  by (simp_all add: shadow_ok_def)

subsection \<open>A working chip\<close>

text \<open>Documented behaviour of the MCP23S17 for the four registers the driver uses,
  and of a transmit that succeeds: \<open>ok\<close> holds of the hardware while bus and chip
  work, \<open>reg\<close> is the register file.\<close>

locale mcp23s17 =
  fixes d :: "'h SpiDriver"
    and reg :: "'h \<Rightarrow> u8 \<Rightarrow> u8"
    and ok :: "'h \<Rightarrow> bool"
  assumes write_ok:
      "\<lbrakk> ok h; a \<in> set verifyRegs \<rbrakk> \<Longrightarrow> ok (snd (spi_device_transmit d [MCP23S17_ADDR, a, v] h))"
    and write_reg:
      "\<lbrakk> ok h; a \<in> set verifyRegs \<rbrakk> \<Longrightarrow>
         reg (snd (spi_device_transmit d [MCP23S17_ADDR, a, v] h)) = (reg h)(a := v)"
    and read_ok:
      "\<lbrakk> ok h; a \<in> set verifyRegs \<rbrakk> \<Longrightarrow> ok (snd (spi_device_transmit d [MCP23S17_ADDR_READ, a, 0] h))"
    and read_reg:
      "\<lbrakk> ok h; a \<in> set verifyRegs \<rbrakk> \<Longrightarrow>
         reg (snd (spi_device_transmit d [MCP23S17_ADDR_READ, a, 0] h)) = reg h"
    and read_val:
      "\<lbrakk> ok h; a \<in> set verifyRegs \<rbrakk> \<Longrightarrow>
         \<exists>x y. fst (spi_device_transmit d [MCP23S17_ADDR_READ, a, 0] h) = Some [x, y, reg h a]"

text \<open>The outputs of a register file agree with a shadow word, and the contactor
  a channel drives is energised when its pin is an output at low level.\<close>

definition regs_match :: "(u8 \<Rightarrow> u8) \<Rightarrow> u16 \<Rightarrow> bool" where
  "regs_match f shadow \<longleftrightarrow> map f verifyRegs = expectedRegs shadow"

definition pinLow :: "(u8 \<Rightarrow> u8) \<Rightarrow> nat \<Rightarrow> bool" where
  "pinLow f n =
    (if n < 8 then \<not> bit (f MCP23S17_IODIRA) n \<and> \<not> bit (f MCP23S17_OLATA) n
     else \<not> bit (f MCP23S17_IODIRB) (n - 8) \<and> \<not> bit (f MCP23S17_OLATB) (n - 8))"

lemma hw_bits:
  "bit (hwLow w) n \<longleftrightarrow> n < 8 \<and> bit w n"
  "bit (hwHigh w) n \<longleftrightarrow> n < 8 \<and> bit w (n + 8)"
proof -
  have "(0xFF :: u16) = mask 8" by (simp add: mask_eq_exp_minus_1)
  then have "bit (0xFF :: u16) k \<longleftrightarrow> k < 8" for k by (simp only: bit_mask_iff) auto
  then show "bit (hwLow w) n \<longleftrightarrow> n < 8 \<and> bit w n"
    "bit (hwHigh w) n \<longleftrightarrow> n < 8 \<and> bit w (n + 8)"
    by (auto simp: hwLow_def hwHigh_def bit_simps add.commute[of n 8])
qed

lemma regs_match_pin:
  assumes "regs_match f shadow" "n < 16"
  shows "pinLow f n \<longleftrightarrow> bit shadow n"
proof -
  have "f MCP23S17_OLATA = hwLow (NOT shadow)" "f MCP23S17_OLATB = hwHigh (NOT shadow)"
    "f MCP23S17_IODIRA = 0" "f MCP23S17_IODIRB = 0"
    using assms(1) by (simp_all add: regs_match_def verifyRegs_def expectedRegs_def)
  then show ?thesis using assms(2)
    by (auto simp: pinLow_def hw_bits bit_simps)
qed

lemma hw_bytes_open: "hwLow (NOT 0) = 0xFF" "hwHigh (NOT 0) = 0xFF"
proof -
  have "(0xFF :: u8) = NOT 0" by simp
  then show "hwLow (NOT 0) = 0xFF" "hwHigh (NOT 0) = 0xFF"
    by (simp_all only:) (auto intro!: bit_eqI simp: hw_bits bit_simps)
qed

context mcp23s17
begin

definition working :: "'h RelayManager \<Rightarrow> bool" where
  "working r \<longleftrightarrow> s_spiDev r \<and> ok (chip r)"

definition matches :: "'h RelayManager \<Rightarrow> bool" where
  "matches r \<longleftrightarrow> regs_match (reg (chip r)) (s_relayState r)"

lemma writeRegister_working [simp]:
  "a \<in> set verifyRegs \<Longrightarrow> working r \<Longrightarrow> working (writeRegister d a v r)"
  by (simp add: working_def writeRegister_def write_ok)

lemma writeRegister_reg [simp]:
  "a \<in> set verifyRegs \<Longrightarrow> working r \<Longrightarrow>
   reg (chip (writeRegister d a v r)) = (reg (chip r))(a := v)"
  by (simp add: working_def writeRegister_def write_reg)

lemma verifyRegs_mem [simp]:
  "MCP23S17_OLATA \<in> set verifyRegs" "MCP23S17_OLATB \<in> set verifyRegs"
  "MCP23S17_IODIRA \<in> set verifyRegs" "MCP23S17_IODIRB \<in> set verifyRegs"
  by (simp_all add: verifyRegs_def)

lemma readRegister_working:
  assumes "a \<in> set verifyRegs" "working r"
  shows "\<exists>h. readRegister d a r = (Some (reg (chip r) a), r\<lparr> chip := h \<rparr>)
           \<and> working (r\<lparr> chip := h \<rparr>) \<and> reg h = reg (chip r)"
proof -
  obtain x y where v: "fst (spi_device_transmit d [MCP23S17_ADDR_READ, a, 0] (chip r)) =
      Some [x, y, reg (chip r) a]"
    using assms read_val[of "chip r" a] unfolding working_def by blast
  show ?thesis using assms v read_ok read_reg
    by (auto simp: readRegister_def working_def case_prod_beta Let_def)
qed

lemma readChain_working:
  assumes "set as \<subseteq> set verifyRegs" "working r"
  shows "\<exists>h. readChain d as r = (Some (map (reg (chip r)) as), r\<lparr> chip := h \<rparr>)
           \<and> working (r\<lparr> chip := h \<rparr>) \<and> reg h = reg (chip r)"
  using assms
proof (induction as arbitrary: r)
  case Nil
  then show ?case by (auto intro: exI[of _ "chip r"])
next
  case (Cons a as)
  obtain h where h: "readRegister d a r = (Some (reg (chip r) a), r\<lparr> chip := h \<rparr>)"
      "working (r\<lparr> chip := h \<rparr>)" "reg h = reg (chip r)"
    using readRegister_working[of a r] Cons.prems by auto
  obtain h' where "readChain d as (r\<lparr> chip := h \<rparr>) =
      (Some (map (reg h) as), r\<lparr> chip := h' \<rparr>)"
      "working (r\<lparr> chip := h' \<rparr>)" "reg h' = reg h"
    using Cons.IH[of "r\<lparr> chip := h \<rparr>"] Cons.prems h by auto
  then show ?case using h by auto
qed

lemma safeInitWrites_working:
  "working r \<Longrightarrow> working (safeInitWrites d r)"
  by (simp add: safeInitWrites_def)

lemma reinitAndReassert_working:
  assumes "working r"
  shows "working (reinitAndReassert d r) \<and> matches (reinitAndReassert d r)"
  using assms
  by (simp add: reinitAndReassert_def safeInitWrites_def writeOutputs_def matches_def
        regs_match_def expectedRegs_def verifyRegs_def Let_def)
     (simp add: cfg)

lemma verifyOutputs_working:
  assumes "working r" "s_initialized r"
  shows "fst (verifyOutputs d r) \<longleftrightarrow> matches r"
    and "working (snd (verifyOutputs d r))"
    and "matches (snd (verifyOutputs d r))"
proof -
  obtain h where h: "readChain d verifyRegs r = (Some (map (reg (chip r)) verifyRegs), r\<lparr> chip := h \<rparr>)"
      "working (r\<lparr> chip := h \<rparr>)" "reg h = reg (chip r)"
    using readChain_working[OF order_refl assms(1)] by blast
  let ?q = "(reinitAndReassert d (r\<lparr> chip := h \<rparr>))\<lparr> s_actuatorFault := True \<rparr>"
  have q: "working ?q" "matches ?q"
    using reinitAndReassert_working[OF h(2)] by (simp_all add: working_def matches_def)
  obtain h' where h': "readChain d verifyRegs ?q = (Some (map (reg (chip ?q)) verifyRegs), ?q\<lparr> chip := h' \<rparr>)"
      "working (?q\<lparr> chip := h' \<rparr>)" "reg h' = reg (chip ?q)"
    using readChain_working[OF order_refl q(1)] by blast
  have v: "verifyOutputs d r = (if matches r then (True, r\<lparr> chip := h \<rparr>) else (False, ?q\<lparr> chip := h' \<rparr>))"
    using assms h(1) h'(1) by (simp add: verifyOutputs_def working_def matches_def regs_match_def Let_def)
  show "fst (verifyOutputs d r) \<longleftrightarrow> matches r" by (simp add: v)
  show "working (snd (verifyOutputs d r))" using h(2) h'(2) by (simp add: v)
  show "matches (snd (verifyOutputs d r))" using h(3) h'(3) q(2) by (simp add: v matches_def)
qed

lemma writeOutputs_working:
  assumes "working r"
  shows "working (writeOutputs d w r)"
    and "map (reg (chip (writeOutputs d w r))) verifyRegs =
         [hwLow w, hwHigh w, reg (chip r) MCP23S17_IODIRA, reg (chip r) MCP23S17_IODIRB]"
  using assms by (simp_all add: writeOutputs_def verifyRegs_def) (simp_all add: cfg)

lemma setShadow_working [simp]: "working (r\<lparr> s_relayState := w \<rparr>) = working r"
  by (simp add: working_def)

text \<open>After every command the outputs of a working chip carry the commanded
  shadow, whatever they were before: a read-back mismatch is repaired.\<close>

lemma allOn_working:
  assumes "working r" "s_initialized r"
  shows "working (allOn d r)" "matches (allOn d r)"
  using assms by (simp_all add: allOn_def Let_def verifyOutputs_working writeOutputs_working(1))

lemma allOff_working:
  assumes "working r"
  shows "working (allOff d silent r)"
    and "s_initialized r \<Longrightarrow> matches (allOff d silent r)"
proof -
  let ?q = "writeRegister d MCP23S17_OLATB 0xFF (writeRegister d MCP23S17_OLATA 0xFF (r\<lparr> s_relayState := 0 \<rparr>))"
  have q: "working ?q" using assms by simp
  show "working (allOff d silent r)"
    using verifyOutputs_working(2)[OF q] q verifyOutputs_uninit[of ?q d]
    by (cases "s_initialized r") (simp_all add: allOff_def)
  show "s_initialized r \<Longrightarrow> matches (allOff d silent r)"
    using verifyOutputs_working(3)[OF q] by (simp add: allOff_def)
qed

lemma setRelay_working:
  assumes "working r" "s_initialized r" "ch < 10"
  shows "working (setRelay d ch b r)" "matches (setRelay d ch b r)"
  using assms
  by (auto simp: setRelay_def Let_def verifyOutputs_working writeOutputs_working(1))

text \<open>No command raises the latch on a chip whose pins are outputs.\<close>

lemma command_no_fault:
  assumes "working r" "s_initialized r" "matches r"
  shows "s_actuatorFault (allOn d r) = s_actuatorFault r"
    and "s_actuatorFault (allOff d silent r) = s_actuatorFault r"
proof -
  have io: "reg (chip r) MCP23S17_IODIRA = 0" "reg (chip r) MCP23S17_IODIRB = 0"
    using assms(3) by (simp_all add: matches_def regs_match_def verifyRegs_def expectedRegs_def)
  let ?w = "push_bit (unat RELAY_TOTAL_CHANNELS) 1 - 1 :: u16"
  let ?q = "writeOutputs d (NOT ?w) (r\<lparr> s_relayState := ?w \<rparr>)"
  have "working ?q" using assms(1) writeOutputs_working(1) by simp
  moreover have "matches ?q"
    using writeOutputs_working(2)[of "r\<lparr> s_relayState := ?w \<rparr>" "NOT ?w"] assms(1) io
    by (simp add: matches_def regs_match_def expectedRegs_def)
  ultimately show "s_actuatorFault (allOn d r) = s_actuatorFault r"
    using assms(2) verifyOutputs_working(1)[of ?q]
    by (simp add: allOn_def Let_def verifyOutputs_fault writeOutputs_keeps)
  let ?p = "writeOutputs d (NOT 0) (r\<lparr> s_relayState := 0 \<rparr>)"
  have "working ?p" using assms(1) writeOutputs_working(1) by simp
  moreover have "matches ?p"
    using writeOutputs_working(2)[of "r\<lparr> s_relayState := 0 \<rparr>" "NOT 0"] assms(1) io
    by (simp add: matches_def regs_match_def expectedRegs_def)
  moreover have "allOff d silent r = snd (verifyOutputs d ?p)"
    by (simp add: allOff_def writeOutputs_def hw_bytes_open[simplified] Let_def)
  ultimately show "s_actuatorFault (allOff d silent r) = s_actuatorFault r"
    using assms(2) verifyOutputs_working(1)[of ?p]
    by (simp add: verifyOutputs_fault writeOutputs_keeps)
qed

lemma pin_command:
  assumes "matches r" "ch < 10"
  shows "pinLow (reg (chip r)) (unat ch) \<longleftrightarrow> getRelayState ch r"
  using assms regs_match_pin[of "reg (chip r)" "s_relayState r" "unat ch"]
  by (simp add: matches_def getRelayState_bit word_less_nat_alt)

end

subsection \<open>The register model of the native tests\<close>

record FakeSpi =
  s_regs :: "u8 \<Rightarrow> u8"
  s_writes :: "(u8 \<times> u8) list"

definition fake_transmit :: "u8 list \<Rightarrow> FakeSpi \<Rightarrow> u8 list option \<times> FakeSpi" where
  "fake_transmit p h =
    (let opcode = p ! 0; reg = p ! 1
     in if opcode AND 0x01 \<noteq> 0 then (Some [0, 0, s_regs h reg], h)
        else (Some [0, 0, 0], h\<lparr> s_regs := (s_regs h)(reg := p ! 2), s_writes := s_writes h @ [(reg, p ! 2)] \<rparr>))"

definition fakeSpi :: "FakeSpi SpiDriver" where
  "fakeSpi = \<lparr> spi_bus_initialize = (\<lambda>h. (True, h)), spi_bus_add_device = (\<lambda>h. (True, h)),
               spi_device_transmit = fake_transmit \<rparr>"

lemma fake_rw:
  "fake_transmit [MCP23S17_ADDR, a, v] h =
     (Some [0, 0, 0], h\<lparr> s_regs := (s_regs h)(a := v), s_writes := s_writes h @ [(a, v)] \<rparr>)"
  "fake_transmit [MCP23S17_ADDR_READ, a, v] h = (Some [0, 0, s_regs h a], h)"
  by (simp_all add: fake_transmit_def cfg)

interpretation fake: mcp23s17 fakeSpi s_regs "\<lambda>_. True"
  by unfold_locales (auto simp: fakeSpi_def fake_rw)

subsection \<open>Sequences of driver calls\<close>

datatype RelayOp = OpSetRelay u8 bool | OpAllOn | OpAllOff bool | OpVerifyOutputs | OpVerifyIfDue u32

fun relay_op :: "'h SpiDriver \<Rightarrow> RelayOp \<Rightarrow> 'h RelayManager \<Rightarrow> 'h RelayManager" where
  "relay_op d (OpSetRelay ch b) r = setRelay d ch b r"
| "relay_op d OpAllOn r = allOn d r"
| "relay_op d (OpAllOff silent) r = allOff d silent r"
| "relay_op d OpVerifyOutputs r = snd (verifyOutputs d r)"
| "relay_op d (OpVerifyIfDue t) r = verifyIfDue d t r"

definition relay_run :: "'h SpiDriver \<Rightarrow> RelayOp list \<Rightarrow> 'h RelayManager \<Rightarrow> 'h RelayManager" where
  "relay_run d ops r = fold (relay_op d) ops r"

lemma relay_op_latch: "s_actuatorFault r \<Longrightarrow> s_actuatorFault (relay_op d op r)"
  by (cases op)
     (auto simp: setRelay_def allOn_def allOff_def verifyIfDue_def Let_def verifyOutputs_fault keeps)

lemma relay_op_shadow_ok: "shadow_ok r \<Longrightarrow> shadow_ok (relay_op d op r)"
  by (cases op) (simp_all add: shadow_ok_ops shadow_ok_setRelay)

text \<open>The actuator-fault flag is a latch, for any SPI hardware: once a read-back
  mismatch has set it, no sequence of relay commands and verifications clears it
  (only \<open>clearActuatorFault\<close> does), and the shadow word keeps to the ten channels.\<close>

lemma actuator_fault_latched:
  assumes "hasActuatorFault r" "shadow_ok r"
  shows "hasActuatorFault (relay_run d ops r) \<and> shadow_ok (relay_run d ops r)"
  using assms
proof (induction ops arbitrary: r)
  case (Cons op ops)
  then show ?case
    using relay_op_latch[of r d op] relay_op_shadow_ok[of r d op]
    by (simp add: relay_run_def hasActuatorFault_def)
qed (simp add: relay_run_def)

text \<open>C14. On a working chip every command reaches the pins, whatever the registers
  held before (a brown-out included): after \<open>allOff\<close> no contactor channel is
  driven, after \<open>allOn\<close> each of the ten is, after \<open>setRelay\<close> the channel has the
  commanded level and every other channel the level of its last command.\<close>

theorem commands_reach_pins:
  assumes "mcp23s17 d reg ok" "s_spiDev r" "s_initialized r" "ok (chip r)"
    and "ch < 10" "c < 10"
  shows "\<not> pinLow (reg (chip (allOff d silent r))) (unat ch) \<and>
         pinLow (reg (chip (allOn d r))) (unat ch) \<and>
         (pinLow (reg (chip (setRelay d ch b r))) (unat c) \<longleftrightarrow> (if c = ch then b else getRelayState c r))"
proof (intro conjI)
  have w: "mcp23s17.working ok r"
    using assms by (simp add: mcp23s17.working_def)
  note m = mcp23s17.pin_command[OF assms(1)]
  show "\<not> pinLow (reg (chip (allOff d silent r))) (unat ch)"
    using m[OF mcp23s17.allOff_working(2)[OF assms(1) w assms(3)] assms(5)]
    by (simp add: getRelayState_bit)
  show "pinLow (reg (chip (allOn d r))) (unat ch)"
    using m[OF mcp23s17.allOn_working(2)[OF assms(1) w assms(3)] assms(5)] assms(3,5)
    by (simp add: getRelayState_bit ALL_CLOSED_bit word_less_nat_alt)
  show "pinLow (reg (chip (setRelay d ch b r))) (unat c) \<longleftrightarrow> (if c = ch then b else getRelayState c r)"
    using m[OF mcp23s17.setRelay_working(2)[OF assms(1) w assms(3,5)] assms(6)] assms
    by (simp add: getRelayState_setRelay)
qed

definition fakeBooted :: "FakeSpi RelayManager" where
  "fakeBooted = snd (RelayManager_begin fakeSpi (RelayManager_new \<lparr> s_regs = (\<lambda>_. 0xFF), s_writes = [] \<rparr>))"

lemma fakeBooted_fields:
  "s_spiDev fakeBooted" "s_initialized fakeBooted"
  by (simp_all add: fakeBooted_def RelayManager_begin_def fakeSpi_def Let_def)

theorem commands_reach_pins_witness:
  "\<not> pinLow (s_regs (chip (allOff fakeSpi True fakeBooted))) (unat (3 :: u8)) \<and>
   pinLow (s_regs (chip (allOn fakeSpi fakeBooted))) (unat (3 :: u8))"
  using commands_reach_pins[OF fake.mcp23s17_axioms fakeBooted_fields TrueI, of 3 3 True]
  by simp

text \<open>C15. Periodic verification finds a silent chip reset: once the period has been
  started, a call at least \<open>RELAY_VERIFY_PERIOD_MS\<close> after the last verification
  latches the fault exactly when the registers of a working chip disagree with
  the shadow, and leaves the outputs repaired.\<close>

theorem silent_reset_detected:
  assumes "mcp23s17 d reg ok" "s_spiDev r" "s_initialized r" "ok (chip r)"
    and "s_verifyStarted r" "nowMs - s_lastVerifyMs r \<ge> RELAY_VERIFY_PERIOD_MS"
    and "\<not> hasActuatorFault r"
  shows "(hasActuatorFault (verifyIfDue d nowMs r) \<longleftrightarrow> \<not> regs_match (reg (chip r)) (s_relayState r)) \<and>
         regs_match (reg (chip (verifyIfDue d nowMs r))) (s_relayState r)"
proof -
  let ?q = "r\<lparr> s_lastVerifyMs := nowMs \<rparr>"
  have q: "mcp23s17.working ok ?q" "s_initialized ?q"
    using assms by (simp_all add: mcp23s17.working_def)
  have "verifyIfDue d nowMs r = snd (verifyOutputs d ?q)"
    using assms by (simp add: verifyIfDue_def not_less[symmetric])
  then show ?thesis
    using mcp23s17.verifyOutputs_working(1,3)[OF assms(1) q] assms(7)
    by (simp add: hasActuatorFault_def verifyOutputs_fault mcp23s17.matches_def[OF assms(1)])
qed

theorem silent_reset_detected_witness:
  "hasActuatorFault (verifyIfDue fakeSpi 100
     (fakeBooted\<lparr> s_verifyStarted := True, s_lastVerifyMs := 0, s_actuatorFault := False,
        chip := \<lparr> s_regs = (\<lambda>_. 0xFF), s_writes = [] \<rparr> \<rparr>))"
  using silent_reset_detected[OF fake.mcp23s17_axioms, of "fakeBooted\<lparr> s_verifyStarted := True,
      s_lastVerifyMs := 0, s_actuatorFault := False, chip := \<lparr> s_regs = (\<lambda>_. 0xFF), s_writes = [] \<rparr> \<rparr>" 100]
  by (simp add: fakeBooted_fields hasActuatorFault_def regs_match_def verifyRegs_def expectedRegs_def)

text \<open>Register writes replayed one at a time, to look at the pins between them.\<close>

definition apply_writes :: "(u8 \<Rightarrow> u8) \<Rightarrow> (u8 \<times> u8) list \<Rightarrow> u8 \<Rightarrow> u8" where
  "apply_writes f ws = foldl (\<lambda>f (a, v). f(a := v)) f ws"

lemma fakeSpi_sel [simp]:
  "spi_bus_initialize fakeSpi h = (True, h)" "spi_bus_add_device fakeSpi h = (True, h)"
  "spi_device_transmit fakeSpi = fake_transmit"
  by (simp_all add: fakeSpi_def)

lemma readChain_fake:
  "s_spiDev r \<Longrightarrow> readChain fakeSpi as r = (Some (map (s_regs (chip r)) as), r)"
  by (induction as) (simp_all add: readRegister_def fake_rw)

lemma verifyOutputs_fake:
  "s_spiDev r \<Longrightarrow> regs_match (s_regs (chip r)) (s_relayState r) \<Longrightarrow> verifyOutputs fakeSpi r = (True, r)"
  by (simp add: verifyOutputs_def readChain_fake regs_match_def)

lemma begin_fake:
  "RelayManager_begin fakeSpi (RelayManager_new h) =
    (True, \<lparr> s_relayState = 0, s_spiDev = True, s_initialized = True, s_actuatorFault = False,
       s_lastVerifyMs = 0, s_verifyStarted = False,
       chip = \<lparr> s_regs = (s_regs h)(0x14 := 0xFF, 0x15 := 0xFF, 0 := 0, 1 := 0),
                s_writes = s_writes h @ [(0x14, 0xFF), (0x15, 0xFF), (0, 0), (1, 0)] \<rparr> \<rparr>)"
  by (cases h)
     (simp add: RelayManager_begin_def RelayManager_new_def Let_def safeInitWrites_def
       writeRegister_def fake_rw[unfolded cfg] verifyOutputs_fake regs_match_def verifyRegs_def expectedRegs_def
       hw_bytes_open[simplified] cfg)

lemma bit_u8_FF: "n < 8 \<Longrightarrow> bit (0xFF :: u8) n"
proof -
  have "(0xFF :: u8) = mask 8" by (simp add: mask_eq_exp_minus_1)
  then show "n < 8 \<Longrightarrow> bit (0xFF :: u8) n" by (simp only: bit_mask_iff) simp
qed

text \<open>C16. Power-on safety of \<open>begin\<close>: starting from a chip whose pins are inputs (the
  reset value 0xFF of IODIR), no contactor is energised after any number of the
  register writes that \<open>begin\<close> makes, and \<open>begin\<close> ends with ten open contactors,
  no fault and every pin an output.\<close>

theorem begin_never_energises:
  assumes "s_regs h MCP23S17_IODIRA = 0xFF" "s_regs h MCP23S17_IODIRB = 0xFF" "n < 10"
    and "RelayManager_begin fakeSpi (RelayManager_new h) = (ok, r)"
    and "s_writes (chip r) = s_writes h @ ws"
  shows "ok \<and> \<not> pinLow (apply_writes (s_regs h) (take k ws)) n \<and> s_relayState r = 0 \<and>
         \<not> hasActuatorFault r \<and> s_regs (chip r) MCP23S17_IODIRA = 0 \<and> s_regs (chip r) MCP23S17_IODIRB = 0"
proof -
  have r: "ok" "s_relayState r = 0" "\<not> hasActuatorFault r"
    "s_regs (chip r) = (s_regs h)(0x14 := 0xFF, 0x15 := 0xFF, 0 := 0, 1 := 0)"
    "ws = [(0x14, 0xFF), (0x15, 0xFF), (0, 0), (1, 0)]"
    using assms(4,5) by (auto simp: begin_fake hasActuatorFault_def)
  have "k = 0 \<or> k = 1 \<or> k = 2 \<or> k = 3 \<or> k \<ge> 4" by arith
  then have "\<not> pinLow (apply_writes (s_regs h) (take k ws)) n"
    using assms(1-3) bit_u8_FF[of n] bit_u8_FF[of "n - 8"]
    by (elim disjE) (auto simp: r(5) apply_writes_def pinLow_def cfg)
  then show ?thesis using r by (simp add: cfg)
qed

theorem begin_never_energises_witness:
  "\<not> pinLow (apply_writes (\<lambda>_. 0xFF) (take 3 [(0x14, 0xFF), (0x15, 0xFF), (0, 0), (1, 0)])) 9"
  using begin_never_energises[of "\<lparr> s_regs = (\<lambda>_. 0xFF), s_writes = [] \<rparr>" 9 True fakeBooted
      "[(0x14, 0xFF), (0x15, 0xFF), (0, 0), (1, 0)]" 3]
  by (simp add: fakeBooted_def begin_fake)

text \<open>Single channels: after \<open>setRelay\<close> on an initialised driver, reading a
  channel back gives the new state for that channel and the old one for every
  other; a channel number beyond the ten is rejected without effect.\<close>

lemma setRelay_getRelayState:
  assumes "s_initialized r"
  shows "getRelayState c (setRelay d ch b r) = (if c = ch \<and> ch < 10 then b else getRelayState c r) \<and>
         (ch \<ge> 10 \<longrightarrow> setRelay d ch b r = r)"
  using getRelayState_setRelay[OF assms] by (simp add: setRelay_def)

end
