(* ===== verification/Relay_Actuator.thy ===== *)
theory Relay_Actuator
  imports Relay_Manager
begin

text \<open>
  The actuator interface \<open>IRelayActuator\<close> (lib/VcuLogic/IRelayActuator.h): the
  abstract class is a record of its virtual methods over an object state \<open>'r\<close>.
  The locale \<open>relay_actuator\<close> is the contract the control logic relies on; the
  adapter of src/main.cpp, which forwards every call to the relay driver, is
  shown to meet it for any SPI hardware.
\<close>

record 'r IRelayActuator =
  act_allOn :: "'r \<Rightarrow> 'r"
  act_allOff :: "bool \<Rightarrow> 'r \<Rightarrow> 'r"
  act_setRelay :: "u8 \<Rightarrow> bool \<Rightarrow> 'r \<Rightarrow> 'r"
  act_verifyIfDue :: "u32 \<Rightarrow> 'r \<Rightarrow> 'r"
  act_verifyOutputs :: "'r \<Rightarrow> bool \<times> 'r"
  act_hasActuatorFault :: "'r \<Rightarrow> bool"
  act_clearActuatorFault :: "'r \<Rightarrow> 'r"

definition relayActuatorAdapter :: "'h SpiDriver \<Rightarrow> 'h RelayManager IRelayActuator" where
  "relayActuatorAdapter d = \<lparr>
     act_allOn = allOn d,
     act_allOff = allOff d,
     act_setRelay = setRelay d,
     act_verifyIfDue = verifyIfDue d,
     act_verifyOutputs = verifyOutputs d,
     act_hasActuatorFault = hasActuatorFault,
     act_clearActuatorFault = clearActuatorFault \<rparr>"

text \<open>The contract.  \<open>bankOpen\<close> and \<open>bankClosed\<close> say what the contactor bank was last
  commanded to, \<open>usable\<close> that the driver accepts commands, and \<open>disturb\<close> is what the
  environment may do to the object between two calls (the hardware behind it may
  change, the commanded state, the latch and usability may not).\<close>

locale relay_actuator =
  fixes A :: "'r IRelayActuator"
    and bankOpen :: "'r \<Rightarrow> bool"
    and bankClosed :: "'r \<Rightarrow> bool"
    and usable :: "'r \<Rightarrow> bool"
    and disturb :: "'r \<Rightarrow> 'r \<Rightarrow> bool"
  assumes allOff_opens: "bankOpen (act_allOff A silent r)"
    and allOn_closes: "usable r \<Longrightarrow> bankClosed (act_allOn A r)"
    and closed_not_open: "bankClosed r \<Longrightarrow> \<not> bankOpen r"
    and verify_bank: "bankOpen (act_verifyIfDue A t r) = bankOpen r"
      "bankClosed (act_verifyIfDue A t r) = bankClosed r"
    and clear_bank: "bankOpen (act_clearActuatorFault A r) = bankOpen r"
      "bankClosed (act_clearActuatorFault A r) = bankClosed r"
    and usable_keeps: "usable (act_allOn A r) = usable r" "usable (act_allOff A silent r) = usable r"
      "usable (act_verifyIfDue A t r) = usable r" "usable (act_clearActuatorFault A r) = usable r"
    and fault_latched:
      "act_hasActuatorFault A r \<Longrightarrow> act_hasActuatorFault A (act_allOn A r)"
      "act_hasActuatorFault A r \<Longrightarrow> act_hasActuatorFault A (act_allOff A silent r)"
      "act_hasActuatorFault A r \<Longrightarrow> act_hasActuatorFault A (act_verifyIfDue A t r)"
    and fault_cleared: "\<not> act_hasActuatorFault A (act_clearActuatorFault A r)"
    and disturb_keeps: "disturb r r' \<Longrightarrow> bankOpen r' = bankOpen r"
      "disturb r r' \<Longrightarrow> bankClosed r' = bankClosed r" "disturb r r' \<Longrightarrow> usable r' = usable r"
      "disturb r r' \<Longrightarrow> act_hasActuatorFault A r' = act_hasActuatorFault A r"

subsection \<open>The relay driver meets the contract\<close>

definition rmOpen :: "'h RelayManager \<Rightarrow> bool" where "rmOpen r \<longleftrightarrow> s_relayState r = 0"
definition rmClosed :: "'h RelayManager \<Rightarrow> bool" where "rmClosed r \<longleftrightarrow> s_relayState r = ALL_CLOSED"
definition rmDisturb :: "'h RelayManager \<Rightarrow> 'h RelayManager \<Rightarrow> bool" where
  "rmDisturb r r' \<longleftrightarrow> r' = r\<lparr> chip := chip r' \<rparr>"

lemma rmDisturb_fields:
  assumes "rmDisturb r r'"
  shows "s_relayState r' = s_relayState r" "s_initialized r' = s_initialized r"
    "s_actuatorFault r' = s_actuatorFault r" "s_spiDev r' = s_spiDev r"
proof -
  obtain h where "r' = r\<lparr> chip := h \<rparr>" using assms unfolding rmDisturb_def by blast
  then show "s_relayState r' = s_relayState r" "s_initialized r' = s_initialized r"
    "s_actuatorFault r' = s_actuatorFault r" "s_spiDev r' = s_spiDev r" by simp_all
qed

lemma adapter_latch:
  "s_actuatorFault r \<Longrightarrow> s_actuatorFault (allOn d r)"
  "s_actuatorFault r \<Longrightarrow> s_actuatorFault (allOff d silent r)"
  "s_actuatorFault r \<Longrightarrow> s_actuatorFault (verifyIfDue d t r)"
  using relay_op_latch[of r d OpAllOn] relay_op_latch[of r d "OpAllOff silent"]
    relay_op_latch[of r d "OpVerifyIfDue t"] by simp_all

interpretation rm: relay_actuator "relayActuatorAdapter d" rmOpen rmClosed s_initialized rmDisturb
  by unfold_locales
     (auto simp: relayActuatorAdapter_def rmOpen_def rmClosed_def ALL_CLOSED_def
        hasActuatorFault_def rmDisturb_fields adapter_latch clearActuatorFault_def)

end
