(* ===== verification/Vcu_Logic.thy ===== *)
theory Vcu_Logic
  imports Vcu_Safety Relay_Actuator
begin

text \<open>
  The vehicle control state machine lib/VcuLogic/VcuLogic.cpp.

  The file-scope variables of the module are the record \<open>Vcu\<close>; \<open>relayObj\<close> is the
  object behind the injected actuator reference (\<open>s_relays\<close> says whether the pointer
  is bound) and \<open>vcu_calls\<close> records, oldest first, the calls the module makes on the
  torque sink and on the contactor bank.  The event queue is \<open>None\<close> until it has been
  created and holds at most eight events.  One call of \<open>run\<close> is one 20 ms tick of the
  VCU task.  \<open>run\<close> returns \<open>None\<close> when it would dereference the unbound actuator
  pointer.
\<close>

datatype VcuCall = TorqueCall u16 | AllOnCall | AllOffCall bool

record 'r Vcu =
  s_state :: VcuState
  s_eventQueue :: "VcuEvent list option"
  s_stateTimer :: u32
  s_uptimeMs :: u32
  s_TEL_latestData :: TelemetryData
  s_VCU_warningLogged :: bool
  s_TEL_dataMutex :: bool
  s_eStopPending :: bool
  s_faultPending :: bool
  s_relays :: bool
  s_relaysOpenedInEstop :: bool
  s_relaysOpenedInFault :: bool
  s_lastEstopLogMs :: u32
  s_lastFaultLogMs :: u32
  s_lastReadyRejectReason :: "string option"
  s_lastReadyRejectLogMs :: u32
  s_torqueSink :: bool
  relayObj :: 'r
  vcu_calls :: "VcuCall list"

definition EVENT_QUEUE_LENGTH :: nat where [cfg, simp]: "EVENT_QUEUE_LENGTH = 8"

text \<open>Static initialisation of the module.\<close>

definition vcu_boot :: "'r \<Rightarrow> 'r Vcu" where
  "vcu_boot r = \<lparr> s_state = INIT, s_eventQueue = None, s_stateTimer = 0, s_uptimeMs = 0,
     s_TEL_latestData = TelemetryData_zero, s_VCU_warningLogged = False, s_TEL_dataMutex = False,
     s_eStopPending = False, s_faultPending = False, s_relays = False,
     s_relaysOpenedInEstop = False, s_relaysOpenedInFault = False,
     s_lastEstopLogMs = 0, s_lastFaultLogMs = 0,
     s_lastReadyRejectReason = None, s_lastReadyRejectLogMs = 0, s_torqueSink = False,
     relayObj = r, vcu_calls = [] \<rparr>"

subsection \<open>Calls on the injected interfaces\<close>

definition callAllOn :: "'r IRelayActuator \<Rightarrow> 'r Vcu \<Rightarrow> 'r Vcu" where
  "callAllOn A v = v\<lparr> relayObj := act_allOn A (relayObj v), vcu_calls := vcu_calls v @ [AllOnCall] \<rparr>"

definition callAllOff :: "'r IRelayActuator \<Rightarrow> bool \<Rightarrow> 'r Vcu \<Rightarrow> 'r Vcu" where
  "callAllOff A silent v =
     v\<lparr> relayObj := act_allOff A silent (relayObj v), vcu_calls := vcu_calls v @ [AllOffCall silent] \<rparr>"

definition requestZeroTorque :: "'r Vcu \<Rightarrow> 'r Vcu" where
  "requestZeroTorque v =
     (if s_torqueSink v then v\<lparr> vcu_calls := vcu_calls v @ [TorqueCall 0] \<rparr> else v)"

subsection \<open>Helpers\<close>

definition transitionTo :: "VcuState \<Rightarrow> 'r Vcu \<Rightarrow> 'r Vcu" where
  "transitionTo next v =
    (let v = v\<lparr> s_state := next, s_stateTimer := 0 \<rparr>
     in if next = EMERGENCY_STOP then v\<lparr> s_relaysOpenedInEstop := False, s_lastEstopLogMs := - 1000 \<rparr>
        else if next = FAULT then v\<lparr> s_relaysOpenedInFault := False, s_lastFaultLogMs := - 1000 \<rparr>
        else v)"

definition pollEvent :: "'r Vcu \<Rightarrow> VcuEvent option \<times> 'r Vcu" where
  "pollEvent v =
    (case s_eventQueue v of
       None \<Rightarrow> (None, v)
     | Some [] \<Rightarrow> (None, v)
     | Some (e # q) \<Rightarrow> (Some e, v\<lparr> s_eventQueue := Some q \<rparr>))"

definition getTelemetrySnapshot :: "'r Vcu \<Rightarrow> TelemetryData" where
  "getTelemetrySnapshot v = s_TEL_latestData v"

definition readyRejectReason :: "TelemetryData \<Rightarrow> string" where
  "readyRejectReason d =
    (if \<not> TEL_bmsDataValid d then ''bmsDataValid=0''
     else if hasCriticalCondition d IDLE then ''kritik kosul aktif''
     else if hasWarningCondition d then ''uyari kosulu aktif''
     else if MOTOR_DRIVER_PRESENT \<and> \<not> TEL_motorDataValid d then ''motorDataValid=0''
     else ''bilinmiyor'')"

subsection \<open>State handlers\<close>

definition handleIdle :: "'r Vcu \<Rightarrow> 'r Vcu" where "handleIdle v = v"

definition handleReady :: "'r IRelayActuator \<Rightarrow> 'r Vcu \<Rightarrow> 'r Vcu" where
  "handleReady A v = (if s_stateTimer v \<le> TASK_PERIOD_MS then callAllOn A v else v)"

definition handleDrive :: "'r Vcu \<Rightarrow> 'r Vcu" where "handleDrive v = v"

definition handleEmergencyStop :: "'r IRelayActuator \<Rightarrow> 'r Vcu \<Rightarrow> 'r Vcu" where
  "handleEmergencyStop A v =
    (let v = (if s_stateTimer v \<le> TASK_PERIOD_MS then requestZeroTorque v else v);
         v = (if s_stateTimer v \<ge> VCU_CONTACTOR_OPEN_DELAY_MS
              then (if \<not> s_relaysOpenedInEstop v
                    then (callAllOff A False v)\<lparr> s_relaysOpenedInEstop := True \<rparr>
                    else if s_stateTimer v - s_lastEstopLogMs v \<ge> 1000 then callAllOff A True v
                    else v)
              else v)
     in if s_stateTimer v - s_lastEstopLogMs v \<ge> 1000
        then v\<lparr> s_lastEstopLogMs := s_stateTimer v \<rparr> else v)"

definition handleFault :: "'r IRelayActuator \<Rightarrow> 'r Vcu \<Rightarrow> 'r Vcu" where
  "handleFault A v =
    (let v = (if s_stateTimer v \<le> TASK_PERIOD_MS then requestZeroTorque v else v);
         v = (if s_stateTimer v \<ge> VCU_CONTACTOR_OPEN_DELAY_MS
              then (if \<not> s_relaysOpenedInFault v
                    then (callAllOff A False v)\<lparr> s_relaysOpenedInFault := True \<rparr>
                    else if s_stateTimer v - s_lastFaultLogMs v \<ge> 1000 then callAllOff A True v
                    else v)
              else v)
     in if s_stateTimer v - s_lastFaultLogMs v \<ge> 1000
        then v\<lparr> s_lastFaultLogMs := s_stateTimer v \<rparr> else v)"

subsection \<open>The tick\<close>

definition runPeriodic :: "'r IRelayActuator \<Rightarrow> 'r Vcu \<Rightarrow> 'r Vcu" where
  "runPeriodic A v =
    (case s_state v of
       INIT \<Rightarrow> v
     | IDLE \<Rightarrow> handleIdle v
     | READY \<Rightarrow> handleReady A v
     | DRIVE \<Rightarrow> handleDrive v
     | EMERGENCY_STOP \<Rightarrow> handleEmergencyStop A v
     | FAULT \<Rightarrow> handleFault A v)"

definition startRequest :: "'r IRelayActuator \<Rightarrow> 'r Vcu \<Rightarrow> 'r Vcu" where
  "startRequest A v =
    (let snap = getTelemetrySnapshot v;
         actuatorFault = act_hasActuatorFault A (relayObj v)
     in if isReadyEntryPermitted snap \<and> \<not> actuatorFault then transitionTo READY v
        else let reason = (if actuatorFault then ''actuator fault'' else readyRejectReason snap)
             in if Some reason \<noteq> s_lastReadyRejectReason v \<or>
                   s_stateTimer v - s_lastReadyRejectLogMs v \<ge> 1000
                then v\<lparr> s_lastReadyRejectReason := Some reason,
                        s_lastReadyRejectLogMs := s_stateTimer v \<rparr>
                else v)"

definition handleStateEvent :: "'r IRelayActuator \<Rightarrow> VcuEvent \<Rightarrow> 'r Vcu \<Rightarrow> 'r Vcu" where
  "handleStateEvent A event v =
    (case s_state v of
       IDLE \<Rightarrow> if event = Ev_START_REQUEST then startRequest A v else v
     | READY \<Rightarrow> if event = Ev_DRIVE_ENABLE then transitionTo DRIVE v else v
     | _ \<Rightarrow> v)"

definition runEvents :: "'r IRelayActuator \<Rightarrow> 'r Vcu \<Rightarrow> 'r Vcu" where
  "runEvents A v =
    (case pollEvent v of
       (None, v) \<Rightarrow> runPeriodic A v
     | (Some event, v) \<Rightarrow>
         if event = Ev_EMERGENCY_STOP then transitionTo EMERGENCY_STOP v
         else if event = Ev_FAULT_DETECTED then
           (if s_state v \<noteq> FAULT then transitionTo FAULT v else v)
         else if event = Ev_RESET \<and> (s_state v = FAULT \<or> s_state v = EMERGENCY_STOP) then
           (if \<not> isResetInterlockSatisfied (getTelemetrySnapshot v) (s_state v) then v
            else transitionTo IDLE (v\<lparr> relayObj := act_clearActuatorFault A (relayObj v) \<rparr>))
         else runPeriodic A (handleStateEvent A event v))"

definition updateWarningLog :: "'r Vcu \<Rightarrow> 'r Vcu" where
  "updateWarningLog v =
    (if hasWarningCondition (getTelemetrySnapshot v)
     then (if \<not> s_VCU_warningLogged v then v\<lparr> s_VCU_warningLogged := True \<rparr> else v)
     else v\<lparr> s_VCU_warningLogged := False \<rparr>)"

definition runChecked :: "'r IRelayActuator \<Rightarrow> 'r Vcu \<Rightarrow> 'r Vcu" where
  "runChecked A v =
    (let v = v\<lparr> relayObj := act_verifyIfDue A (s_uptimeMs v) (relayObj v) \<rparr>
     in if (s_state v = READY \<or> s_state v = DRIVE) \<and> act_hasActuatorFault A (relayObj v)
        then transitionTo FAULT v
        else if (s_state v = IDLE \<or> s_state v = READY \<or> s_state v = DRIVE) \<and>
                hasCriticalCondition (getTelemetrySnapshot v) (s_state v)
        then transitionTo FAULT v
        else runEvents A (updateWarningLog v))"

definition run :: "'r IRelayActuator \<Rightarrow> 'r Vcu \<Rightarrow> 'r Vcu option" where
  "run A v =
    (let v = v\<lparr> s_stateTimer := s_stateTimer v + TASK_PERIOD_MS,
               s_uptimeMs := s_uptimeMs v + TASK_PERIOD_MS \<rparr>;
         eStop = s_eStopPending v;
         v = v\<lparr> s_eStopPending := False \<rparr>
     in if eStop \<and> s_state v \<noteq> EMERGENCY_STOP then Some (transitionTo EMERGENCY_STOP v)
        else let fault = s_faultPending v;
                 v = v\<lparr> s_faultPending := False \<rparr>
             in if fault \<and> s_state v \<noteq> FAULT then Some (transitionTo FAULT v)
                else if \<not> s_relays v then None
                else Some (runChecked A v))"

subsection \<open>Public operations\<close>

definition VcuLogic_init :: "'r IRelayActuator \<Rightarrow> bool \<Rightarrow> bool \<Rightarrow> 'r Vcu \<Rightarrow> 'r Vcu" where
  "VcuLogic_init A queueCreated mutexCreated v =
    (let v = v\<lparr> s_relays := True \<rparr>
     in if \<not> queueCreated then v\<lparr> s_eventQueue := None \<rparr>
        else let v = v\<lparr> s_eventQueue := Some [] \<rparr>
             in if \<not> mutexCreated then v\<lparr> s_TEL_dataMutex := False \<rparr>
                else let v = v\<lparr> s_TEL_dataMutex := True \<rparr>
                     in transitionTo IDLE (callAllOff A False v))"

definition postEvent :: "VcuEvent \<Rightarrow> 'r Vcu \<Rightarrow> 'r Vcu" where
  "postEvent event v =
    (case s_eventQueue v of
       None \<Rightarrow> v
     | Some q \<Rightarrow>
         if event = Ev_EMERGENCY_STOP then v\<lparr> s_eStopPending := True \<rparr>
         else if event = Ev_FAULT_DETECTED then v\<lparr> s_faultPending := True \<rparr>
         else if length q < EVENT_QUEUE_LENGTH then v\<lparr> s_eventQueue := Some (q @ [event]) \<rparr>
         else v)"

definition getState :: "'r Vcu \<Rightarrow> VcuState" where "getState v = s_state v"

definition setTelemetryData :: "TelemetryData \<Rightarrow> 'r Vcu \<Rightarrow> 'r Vcu" where
  "setTelemetryData d v = (if \<not> s_TEL_dataMutex v then v else v\<lparr> s_TEL_latestData := d \<rparr>)"

definition setTorqueSink :: "bool \<Rightarrow> 'r Vcu \<Rightarrow> 'r Vcu" where
  "setTorqueSink sink v = v\<lparr> s_torqueSink := sink \<rparr>"

text \<open>The drain loop empties the queue if there is one.\<close>

definition VcuLogic_resetForTest :: "'r Vcu \<Rightarrow> 'r Vcu" where
  "VcuLogic_resetForTest v = v\<lparr> s_state := INIT, s_stateTimer := 0, s_uptimeMs := 0,
     s_TEL_latestData := TelemetryData_zero, s_VCU_warningLogged := False,
     s_eStopPending := False, s_faultPending := False, s_relays := False,
     s_relaysOpenedInEstop := False, s_relaysOpenedInFault := False,
     s_lastEstopLogMs := 0, s_lastFaultLogMs := 0,
     s_lastReadyRejectReason := None, s_lastReadyRejectLogMs := 0, s_torqueSink := False,
     s_eventQueue := map_option (\<lambda>_. []) (s_eventQueue v) \<rparr>"


subsection \<open>What the handlers leave alone\<close>

definition vcu_ctl :: "'r Vcu \<Rightarrow> VcuState \<times> VcuEvent list option \<times> TelemetryData \<times> bool \<times> bool \<times> bool \<times> bool" where
  "vcu_ctl v = (s_state v, s_eventQueue v, s_TEL_latestData v, s_TEL_dataMutex v,
     s_eStopPending v, s_faultPending v, s_relays v)"

lemma calls_ctl [keeps]:
  "vcu_ctl (callAllOn A v) = vcu_ctl v" "vcu_ctl (callAllOff A silent v) = vcu_ctl v"
  "vcu_ctl (requestZeroTorque v) = vcu_ctl v" "vcu_ctl (updateWarningLog v) = vcu_ctl v"
  by (simp_all add: vcu_ctl_def callAllOn_def callAllOff_def requestZeroTorque_def updateWarningLog_def)

lemma handlers_ctl [keeps]:
  "vcu_ctl (handleIdle v) = vcu_ctl v" "vcu_ctl (handleReady A v) = vcu_ctl v"
  "vcu_ctl (handleDrive v) = vcu_ctl v" "vcu_ctl (handleEmergencyStop A v) = vcu_ctl v"
  "vcu_ctl (handleFault A v) = vcu_ctl v"
  by (simp_all add: handleIdle_def handleReady_def handleDrive_def handleEmergencyStop_def
        handleFault_def Let_def vcu_ctl_def callAllOn_def callAllOff_def requestZeroTorque_def)

lemma runPeriodic_ctl [keeps]: "vcu_ctl (runPeriodic A v) = vcu_ctl v"
  by (simp add: runPeriodic_def keeps split: VcuState.splits)

lemmas runPeriodic_fields [simp] = runPeriodic_ctl[unfolded vcu_ctl_def prod.inject]

lemma updateWarningLog_fields [simp]:
  "s_state (updateWarningLog v) = s_state v" "s_eventQueue (updateWarningLog v) = s_eventQueue v"
  "s_TEL_latestData (updateWarningLog v) = s_TEL_latestData v"
  "relayObj (updateWarningLog v) = relayObj v" "s_relays (updateWarningLog v) = s_relays v"
  "s_stateTimer (updateWarningLog v) = s_stateTimer v"
  "s_relaysOpenedInEstop (updateWarningLog v) = s_relaysOpenedInEstop v"
  "s_relaysOpenedInFault (updateWarningLog v) = s_relaysOpenedInFault v"
  "s_lastEstopLogMs (updateWarningLog v) = s_lastEstopLogMs v"
  "s_lastFaultLogMs (updateWarningLog v) = s_lastFaultLogMs v"
  "s_torqueSink (updateWarningLog v) = s_torqueSink v"
  "vcu_calls (updateWarningLog v) = vcu_calls v"
  "s_TEL_dataMutex (updateWarningLog v) = s_TEL_dataMutex v"
  "s_eStopPending (updateWarningLog v) = s_eStopPending v"
  "s_faultPending (updateWarningLog v) = s_faultPending v"
  by (simp_all add: updateWarningLog_def)

lemma transitionTo_fields [simp]:
  "s_state (transitionTo st v) = st" "s_eventQueue (transitionTo st v) = s_eventQueue v"
  "s_TEL_latestData (transitionTo st v) = s_TEL_latestData v"
  "relayObj (transitionTo st v) = relayObj v" "s_relays (transitionTo st v) = s_relays v"
  "s_stateTimer (transitionTo st v) = 0" "s_TEL_dataMutex (transitionTo st v) = s_TEL_dataMutex v"
  "s_eStopPending (transitionTo st v) = s_eStopPending v"
  "s_faultPending (transitionTo st v) = s_faultPending v"
  "s_torqueSink (transitionTo st v) = s_torqueSink v" "vcu_calls (transitionTo st v) = vcu_calls v"
  by (simp_all add: transitionTo_def Let_def)

lemma transitionTo_opened [simp]:
  "s_relaysOpenedInEstop (transitionTo EMERGENCY_STOP v) = False"
  "s_relaysOpenedInFault (transitionTo FAULT v) = False"
  by (simp_all add: transitionTo_def Let_def)

subsection \<open>The shape of a tick\<close>

text \<open>The state a tick works on: both timers advanced and both bypass flags consumed.\<close>

definition ticked :: "'r Vcu \<Rightarrow> 'r Vcu" where
  "ticked v = v\<lparr> s_stateTimer := s_stateTimer v + 20, s_uptimeMs := s_uptimeMs v + 20,
                s_eStopPending := False, s_faultPending := False \<rparr>"

definition verified :: "'r IRelayActuator \<Rightarrow> 'r Vcu \<Rightarrow> 'r Vcu" where
  "verified A v = (ticked v)\<lparr> relayObj := act_verifyIfDue A (s_uptimeMs v + 20) (relayObj v) \<rparr>"

lemma ticked_fields [simp]:
  "s_state (ticked v) = s_state v" "s_eventQueue (ticked v) = s_eventQueue v"
  "s_TEL_latestData (ticked v) = s_TEL_latestData v" "relayObj (ticked v) = relayObj v"
  "s_relays (ticked v) = s_relays v" "s_stateTimer (ticked v) = s_stateTimer v + 20"
  "s_uptimeMs (ticked v) = s_uptimeMs v + 20" "s_eStopPending (ticked v) = False"
  "s_faultPending (ticked v) = False" "s_TEL_dataMutex (ticked v) = s_TEL_dataMutex v"
  "s_torqueSink (ticked v) = s_torqueSink v" "vcu_calls (ticked v) = vcu_calls v"
  "s_relaysOpenedInEstop (ticked v) = s_relaysOpenedInEstop v"
  "s_relaysOpenedInFault (ticked v) = s_relaysOpenedInFault v"
  "s_lastEstopLogMs (ticked v) = s_lastEstopLogMs v"
  "s_lastFaultLogMs (ticked v) = s_lastFaultLogMs v"
  by (simp_all add: ticked_def)

lemma verified_fields [simp]:
  "s_state (verified A v) = s_state v" "s_eventQueue (verified A v) = s_eventQueue v"
  "s_TEL_latestData (verified A v) = s_TEL_latestData v"
  "relayObj (verified A v) = act_verifyIfDue A (s_uptimeMs v + 20) (relayObj v)"
  "s_relays (verified A v) = s_relays v" "s_stateTimer (verified A v) = s_stateTimer v + 20"
  "s_eStopPending (verified A v) = False" "s_faultPending (verified A v) = False"
  "s_TEL_dataMutex (verified A v) = s_TEL_dataMutex v"
  "s_torqueSink (verified A v) = s_torqueSink v" "vcu_calls (verified A v) = vcu_calls v"
  "s_relaysOpenedInEstop (verified A v) = s_relaysOpenedInEstop v"
  "s_relaysOpenedInFault (verified A v) = s_relaysOpenedInFault v"
  "s_lastEstopLogMs (verified A v) = s_lastEstopLogMs v"
  "s_lastFaultLogMs (verified A v) = s_lastFaultLogMs v"
  by (simp_all add: verified_def)

definition mustFault :: "'r IRelayActuator \<Rightarrow> 'r Vcu \<Rightarrow> bool" where
  "mustFault A v \<longleftrightarrow>
     (s_state v = READY \<or> s_state v = DRIVE) \<and>
       act_hasActuatorFault A (act_verifyIfDue A (s_uptimeMs v + 20) (relayObj v)) \<or>
     (s_state v = IDLE \<or> s_state v = READY \<or> s_state v = DRIVE) \<and>
       hasCriticalCondition (s_TEL_latestData v) (s_state v)"

lemma run_eq:
  "run A v =
    (if s_eStopPending v \<and> s_state v \<noteq> EMERGENCY_STOP
     then Some (transitionTo EMERGENCY_STOP ((ticked v)\<lparr> s_faultPending := s_faultPending v \<rparr>))
     else if s_faultPending v \<and> s_state v \<noteq> FAULT then Some (transitionTo FAULT (ticked v))
     else if \<not> s_relays v then None
     else if mustFault A v then Some (transitionTo FAULT (verified A v))
     else Some (runEvents A (updateWarningLog (verified A v))))"
  by (auto simp: run_def Let_def ticked_def verified_def runChecked_def mustFault_def getTelemetrySnapshot_def)

lemma pollEvent_eq:
  "pollEvent v = (case s_eventQueue v of Some (e # q) \<Rightarrow> (Some e, v\<lparr> s_eventQueue := Some q \<rparr>)
                  | _ \<Rightarrow> (None, v))"
  by (simp add: pollEvent_def split: option.splits list.splits)

lemma startRequest_fields [simp]:
  "s_eventQueue (startRequest A v) = s_eventQueue v" "relayObj (startRequest A v) = relayObj v"
  "s_relays (startRequest A v) = s_relays v" "s_TEL_latestData (startRequest A v) = s_TEL_latestData v"
  "s_TEL_dataMutex (startRequest A v) = s_TEL_dataMutex v"
  "s_state (startRequest A v) =
     (if isReadyEntryPermitted (s_TEL_latestData v) \<and> \<not> act_hasActuatorFault A (relayObj v)
      then READY else s_state v)"
  by (simp_all add: startRequest_def Let_def getTelemetrySnapshot_def)

lemma handleStateEvent_fields [simp]:
  "s_eventQueue (handleStateEvent A e v) = s_eventQueue v"
  "relayObj (handleStateEvent A e v) = relayObj v"
  "s_relays (handleStateEvent A e v) = s_relays v"
  "s_TEL_latestData (handleStateEvent A e v) = s_TEL_latestData v"
  "s_TEL_dataMutex (handleStateEvent A e v) = s_TEL_dataMutex v"
  by (simp_all add: handleStateEvent_def split: VcuState.splits)

lemma handleStateEvent_state:
  "s_state (handleStateEvent A e v) =
    (if s_state v = IDLE \<and> e = Ev_START_REQUEST \<and> isReadyEntryPermitted (s_TEL_latestData v) \<and>
        \<not> act_hasActuatorFault A (relayObj v) then READY
     else if s_state v = READY \<and> e = Ev_DRIVE_ENABLE then DRIVE
     else s_state v)"
  by (simp add: handleStateEvent_def split: VcuState.splits)

text \<open>The state after the event phase, as a function of the event at the head of the queue.\<close>

lemma runEvents_state:
  "s_state (runEvents A v) =
    (case s_eventQueue v of
       Some (e # q) \<Rightarrow>
         (if e = Ev_EMERGENCY_STOP then EMERGENCY_STOP
          else if e = Ev_FAULT_DETECTED then FAULT
          else if e = Ev_RESET \<and> (s_state v = FAULT \<or> s_state v = EMERGENCY_STOP)
          then (if isResetInterlockSatisfied (s_TEL_latestData v) (s_state v) then IDLE else s_state v)
          else s_state (handleStateEvent A e v))
     | _ \<Rightarrow> s_state v)"
proof -
  have "s_state (handleStateEvent A e (v\<lparr> s_eventQueue := q \<rparr>)) = s_state (handleStateEvent A e v)" for e q
    by (simp add: handleStateEvent_state)
  then show ?thesis
    by (auto simp: runEvents_def pollEvent_eq getTelemetrySnapshot_def split: option.splits list.splits)
qed

lemma runEvents_queue:
  "s_eventQueue (runEvents A v) = (case s_eventQueue v of Some (e # q) \<Rightarrow> Some q | x \<Rightarrow> x)"
  by (simp add: runEvents_def pollEvent_eq split: option.splits list.splits)

lemma runEvents_relays [simp]: "s_relays (runEvents A v) = s_relays v"
  by (simp add: runEvents_def pollEvent_eq split: option.splits list.splits)

lemma runEvents_data [simp]:
  "s_TEL_latestData (runEvents A v) = s_TEL_latestData v"
  "s_TEL_dataMutex (runEvents A v) = s_TEL_dataMutex v"
  by (simp_all add: runEvents_def pollEvent_eq split: option.splits list.splits)

lemma runEvents_flags [simp]:
  "s_eStopPending (runEvents A v) = s_eStopPending v" "s_faultPending (runEvents A v) = s_faultPending v"
  by (simp_all add: runEvents_def pollEvent_eq handleStateEvent_def startRequest_def Let_def
      split: option.splits list.splits VcuState.splits)

lemma run_total: "s_relays v \<Longrightarrow> \<exists>v'. run A v = Some v' \<and> s_relays v'"
  by (simp add: run_eq)

lemma run_state:
  assumes "run A v = Some v'"
  shows "s_state v' =
    (if s_eStopPending v \<and> s_state v \<noteq> EMERGENCY_STOP then EMERGENCY_STOP
     else if s_faultPending v \<and> s_state v \<noteq> FAULT then FAULT
     else if mustFault A v then FAULT
     else s_state (runEvents A (verified A v)))"
proof -
  have "s_state (runEvents A (updateWarningLog w)) = s_state (runEvents A w)" for w
    by (auto simp: runEvents_state handleStateEvent_state split: option.splits list.splits)
  then show ?thesis using assms by (auto simp: run_eq split: if_splits)
qed

text \<open>Several ticks in a row, with nothing happening in between.\<close>

fun runs :: "'r IRelayActuator \<Rightarrow> nat \<Rightarrow> 'r Vcu \<Rightarrow> 'r Vcu option" where
  "runs A 0 v = Some v"
| "runs A (Suc n) v = (case run A v of None \<Rightarrow> None | Some v' \<Rightarrow> runs A n v')"

lemma runs_2: "runs A 2 v = (case run A v of None \<Rightarrow> None | Some v' \<Rightarrow> run A v')"
  by (simp add: numeral_2_eq_2 split: option.splits)

subsection \<open>Reachable states\<close>

text \<open>What can happen to the module after a successful \<open>init\<close>: the torque sink is set,
  other tasks post events, the VCU task publishes telemetry and runs ticks, and the
  hardware behind the actuator changes within \<open>disturb\<close>.\<close>

inductive vcu_reach :: "'r IRelayActuator \<Rightarrow> ('r \<Rightarrow> bool) \<Rightarrow> ('r \<Rightarrow> 'r \<Rightarrow> bool) \<Rightarrow> 'r Vcu \<Rightarrow> bool"
  for A usable disturb where
  reach_init: "usable r \<Longrightarrow> vcu_reach A usable disturb (VcuLogic_init A True True (vcu_boot r))"
| reach_sink: "vcu_reach A usable disturb v \<Longrightarrow> vcu_reach A usable disturb (setTorqueSink b v)"
| reach_post: "vcu_reach A usable disturb v \<Longrightarrow> vcu_reach A usable disturb (postEvent e v)"
| reach_tel: "vcu_reach A usable disturb v \<Longrightarrow> vcu_reach A usable disturb (setTelemetryData d v)"
| reach_tick: "vcu_reach A usable disturb v \<Longrightarrow> run A v = Some v' \<Longrightarrow> vcu_reach A usable disturb v'"
| reach_hw: "vcu_reach A usable disturb v \<Longrightarrow> disturb (relayObj v) r \<Longrightarrow>
    vcu_reach A usable disturb (v\<lparr> relayObj := r \<rparr>)"

text \<open>Structural part of the invariant: the pointers are bound, the queue exists, has at
  most eight entries, and never carries the two bypass events.\<close>

definition queue_ok :: "VcuEvent list option \<Rightarrow> bool" where
  "queue_ok qo = (case qo of None \<Rightarrow> False
     | Some q \<Rightarrow> length q \<le> EVENT_QUEUE_LENGTH \<and>
         Ev_EMERGENCY_STOP \<notin> set q \<and> Ev_FAULT_DETECTED \<notin> set q)"

definition vcu_struct :: "'r Vcu \<Rightarrow> bool" where
  "vcu_struct v \<longleftrightarrow> s_relays v \<and> s_TEL_dataMutex v \<and> s_state v \<noteq> INIT \<and> queue_ok (s_eventQueue v)"

lemma run_queue:
  assumes "run A v = Some v'"
  shows "s_eventQueue v' = s_eventQueue v \<or> (\<exists>e q. s_eventQueue v = Some (e # q) \<and> s_eventQueue v' = Some q)"
  using assms by (auto simp: run_eq runEvents_queue split: if_splits option.splits list.splits)

lemma run_struct:
  assumes "run A v = Some v'" "vcu_struct v"
  shows "vcu_struct v'"
proof -
  have "s_relays v'" "s_TEL_dataMutex v'"
    using assms by (auto simp: run_eq vcu_struct_def split: if_splits)
  moreover have "queue_ok (s_eventQueue v')"
    using run_queue[OF assms(1)] assms(2) by (auto simp: vcu_struct_def queue_ok_def)
  moreover have "s_state v' \<noteq> INIT"
    using run_state[OF assms(1)] assms(2)
    by (auto simp: vcu_struct_def runEvents_state handleStateEvent_state split: option.splits list.splits if_splits)
  ultimately show ?thesis by (simp add: vcu_struct_def)
qed

lemma postEvent_struct: "vcu_struct v \<Longrightarrow> vcu_struct (postEvent e v)"
  by (auto simp: vcu_struct_def postEvent_def queue_ok_def split: option.splits)

lemma reach_struct: "vcu_reach A usable disturb v \<Longrightarrow> vcu_struct v"
proof (induction rule: vcu_reach.induct)
  case (reach_tick v v')
  then show ?case using run_struct by blast
next
  case (reach_post v e)
  then show ?case by (simp add: postEvent_struct)
qed (auto simp: VcuLogic_init_def vcu_boot_def callAllOff_def Let_def vcu_struct_def queue_ok_def
      setTorqueSink_def setTelemetryData_def)

subsection \<open>Contactor bank\<close>

lemma handleReady_relay:
  "relayObj (handleReady A v) = (if s_stateTimer v \<le> 20 then act_allOn A (relayObj v) else relayObj v)"
  by (simp add: handleReady_def callAllOn_def)

lemma handleEmergencyStop_relay:
  "relayObj (handleEmergencyStop A v) =
    (if s_stateTimer v \<ge> 20 \<and> \<not> s_relaysOpenedInEstop v then act_allOff A False (relayObj v)
     else if s_stateTimer v \<ge> 20 \<and> s_stateTimer v - s_lastEstopLogMs v \<ge> 1000
     then act_allOff A True (relayObj v) else relayObj v)"
  "s_relaysOpenedInEstop (handleEmergencyStop A v) \<longleftrightarrow> s_stateTimer v \<ge> 20 \<or> s_relaysOpenedInEstop v"
  by (auto simp: handleEmergencyStop_def Let_def requestZeroTorque_def callAllOff_def)

lemma handleFault_relay:
  "relayObj (handleFault A v) =
    (if s_stateTimer v \<ge> 20 \<and> \<not> s_relaysOpenedInFault v then act_allOff A False (relayObj v)
     else if s_stateTimer v \<ge> 20 \<and> s_stateTimer v - s_lastFaultLogMs v \<ge> 1000
     then act_allOff A True (relayObj v) else relayObj v)"
  "s_relaysOpenedInFault (handleFault A v) \<longleftrightarrow> s_stateTimer v \<ge> 20 \<or> s_relaysOpenedInFault v"
  by (auto simp: handleFault_def Let_def requestZeroTorque_def callAllOff_def)

subsection \<open>Ticks in a stop state\<close>

definition popped :: "'r Vcu \<Rightarrow> 'r Vcu" where
  "popped v = v\<lparr> s_eventQueue := (case s_eventQueue v of Some (e # q) \<Rightarrow> Some q | x \<Rightarrow> x) \<rparr>"

definition headIsReset :: "'r Vcu \<Rightarrow> bool" where
  "headIsReset v = (case s_eventQueue v of Some (e # q) \<Rightarrow> e = Ev_RESET | _ \<Rightarrow> False)"

definition noBypass :: "'r Vcu \<Rightarrow> bool" where
  "noBypass v \<longleftrightarrow> \<not> s_eStopPending v \<and> \<not> s_faultPending v"

lemma popped_fields [simp]:
  "s_state (popped v) = s_state v" "relayObj (popped v) = relayObj v"
  "s_stateTimer (popped v) = s_stateTimer v" "vcu_calls (popped v) = vcu_calls v"
  "s_TEL_latestData (popped v) = s_TEL_latestData v" "s_torqueSink (popped v) = s_torqueSink v"
  "s_relaysOpenedInEstop (popped v) = s_relaysOpenedInEstop v"
  "s_relaysOpenedInFault (popped v) = s_relaysOpenedInFault v"
  "s_lastEstopLogMs (popped v) = s_lastEstopLogMs v" "s_lastFaultLogMs (popped v) = s_lastFaultLogMs v"
  "s_relays (popped v) = s_relays v" "s_TEL_dataMutex (popped v) = s_TEL_dataMutex v"
  "s_eStopPending (popped v) = s_eStopPending v" "s_faultPending (popped v) = s_faultPending v"
  by (simp_all add: popped_def)

lemma queue_update_same: "s_eventQueue v = q \<Longrightarrow> v\<lparr> s_eventQueue := q \<rparr> = v"
  by (cases v) simp

lemma stop_events:
  assumes "s_state v = EMERGENCY_STOP \<or> s_state v = FAULT" "queue_ok (s_eventQueue v)"
  shows "\<not> headIsReset v \<Longrightarrow> runEvents A v = runPeriodic A (popped v)"
    and "headIsReset v \<Longrightarrow> hasCriticalCondition (s_TEL_latestData v) (s_state v) \<Longrightarrow> runEvents A v = popped v"
    and "headIsReset v \<Longrightarrow> \<not> hasCriticalCondition (s_TEL_latestData v) (s_state v) \<Longrightarrow>
      runEvents A v = transitionTo IDLE ((popped v)\<lparr> relayObj := act_clearActuatorFault A (relayObj v) \<rparr>)"
proof -
  obtain q where q: "s_eventQueue v = Some q" "Ev_EMERGENCY_STOP \<notin> set q" "Ev_FAULT_DETECTED \<notin> set q"
    using assms(2) by (auto simp: queue_ok_def split: option.splits)
  have ev: "handleStateEvent A e (popped v) = popped v" for e
    using assms(1) by (auto simp: handleStateEvent_def)
  show "\<not> headIsReset v \<Longrightarrow> runEvents A v = runPeriodic A (popped v)"
    using q ev by (cases q) (auto simp: runEvents_def pollEvent_eq headIsReset_def popped_def queue_update_same)
  show "headIsReset v \<Longrightarrow> hasCriticalCondition (s_TEL_latestData v) (s_state v) \<Longrightarrow> runEvents A v = popped v"
    using q assms(1) by (cases q) (auto simp: runEvents_def pollEvent_eq headIsReset_def popped_def
        reset_interlock_iff getTelemetrySnapshot_def)
  show "headIsReset v \<Longrightarrow> \<not> hasCriticalCondition (s_TEL_latestData v) (s_state v) \<Longrightarrow>
      runEvents A v = transitionTo IDLE ((popped v)\<lparr> relayObj := act_clearActuatorFault A (relayObj v) \<rparr>)"
    using q assms(1) by (cases q) (auto simp: runEvents_def pollEvent_eq headIsReset_def popped_def
        reset_interlock_iff getTelemetrySnapshot_def)
qed

lemma stop_tick:
  assumes "s_state v = EMERGENCY_STOP \<or> s_state v = FAULT" "noBypass v" "s_relays v"
  shows "run A v = Some (runEvents A (updateWarningLog (verified A v)))"
  using assms by (auto simp: run_eq noBypass_def mustFault_def)

lemma headIsReset_tick [simp]: "headIsReset (updateWarningLog (verified A v)) = headIsReset v"
  by (simp add: headIsReset_def)

lemma handleEmergencyStop_calls:
  "vcu_calls (handleEmergencyStop A v) = vcu_calls v @
    (if s_stateTimer v \<le> 20 \<and> s_torqueSink v then [TorqueCall 0] else []) @
    (if s_stateTimer v \<ge> 20 \<and> \<not> s_relaysOpenedInEstop v then [AllOffCall False]
     else if s_stateTimer v \<ge> 20 \<and> s_stateTimer v - s_lastEstopLogMs v \<ge> 1000 then [AllOffCall True] else [])"
  by (auto simp: handleEmergencyStop_def Let_def requestZeroTorque_def callAllOff_def)

lemma handleFault_calls:
  "vcu_calls (handleFault A v) = vcu_calls v @
    (if s_stateTimer v \<le> 20 \<and> s_torqueSink v then [TorqueCall 0] else []) @
    (if s_stateTimer v \<ge> 20 \<and> \<not> s_relaysOpenedInFault v then [AllOffCall False]
     else if s_stateTimer v \<ge> 20 \<and> s_stateTimer v - s_lastFaultLogMs v \<ge> 1000 then [AllOffCall True] else [])"
  by (auto simp: handleFault_def Let_def requestZeroTorque_def callAllOff_def)

lemma stop_handler_timer [simp]:
  "s_stateTimer (handleFault A v) = s_stateTimer v"
  "s_stateTimer (handleEmergencyStop A v) = s_stateTimer v"
  by (auto simp: handleFault_def handleEmergencyStop_def Let_def requestZeroTorque_def callAllOff_def)

definition stopOpened :: "'r Vcu \<Rightarrow> bool" where
  "stopOpened v = (if s_state v = FAULT then s_relaysOpenedInFault v else s_relaysOpenedInEstop v)"

text \<open>A stop state in which every RESET is going to be rejected.\<close>

definition stuckStop :: "'r Vcu \<Rightarrow> bool" where
  "stuckStop v \<longleftrightarrow> (s_state v = EMERGENCY_STOP \<or> s_state v = FAULT) \<and> noBypass v \<and> s_relays v \<and>
     queue_ok (s_eventQueue v) \<and> hasCriticalCondition (s_TEL_latestData v) (s_state v)"

lemma queue_ok_popped: "queue_ok (s_eventQueue v) \<Longrightarrow> queue_ok (s_eventQueue (popped v))"
  by (auto simp: popped_def queue_ok_def split: option.splits list.splits)

lemma stuck_tick:
  assumes "stuckStop v"
  obtains v' where "run A v = Some v'" "stuckStop v'" "s_state v' = s_state v"
    "s_stateTimer v' = s_stateTimer v + 20" "s_eventQueue v' = s_eventQueue (popped v)"
    "stopOpened v \<or> \<not> headIsReset v \<and> s_stateTimer v + 20 \<ge> 20 \<Longrightarrow> stopOpened v'"
proof -
  let ?w = "updateWarningLog (verified A v)"
  let ?v' = "if headIsReset v then popped ?w else runPeriodic A (popped ?w)"
  have st: "s_state v = EMERGENCY_STOP \<or> s_state v = FAULT" and q: "queue_ok (s_eventQueue v)"
    and c: "hasCriticalCondition (s_TEL_latestData v) (s_state v)"
    using assms by (simp_all add: stuckStop_def)
  have "run A v = Some (runEvents A ?w)"
    using assms stop_tick[of v A] by (simp add: stuckStop_def)
  moreover have "runEvents A ?w = ?v'"
    using stop_events[of ?w A] st q c by simp
  ultimately have "run A v = Some ?v'" by simp
  moreover have "stuckStop ?v'"
    using assms queue_ok_popped[of ?w] by (auto simp: stuckStop_def noBypass_def)
  moreover have "s_state ?v' = s_state v" by simp
  moreover have "s_stateTimer ?v' = s_stateTimer v + 20" using st by (auto simp: runPeriodic_def)
  moreover have "s_eventQueue ?v' = s_eventQueue (popped v)" by (simp add: popped_def)
  moreover have "stopOpened v \<or> \<not> headIsReset v \<and> s_stateTimer v + 20 \<ge> 20 \<Longrightarrow> stopOpened ?v'"
    using st by (auto simp: stopOpened_def runPeriodic_def handleFault_relay handleEmergencyStop_relay
        handlers_ctl[unfolded vcu_ctl_def prod.inject])
  ultimately show thesis by (rule that)
qed

lemma stuck_runs:
  assumes "stuckStop v" "s_eventQueue v = Some q" "stopOpened v \<or> length q < n"
    and "unat (s_stateTimer v) + 20 * n < 2 ^ 32"
  shows "\<exists>v'. runs A n v = Some v' \<and> s_state v' = s_state v \<and> stopOpened v'"
  using assms
proof (induction n arbitrary: v q)
  case (Suc n)
  obtain v' where v': "run A v = Some v'" "stuckStop v'" "s_state v' = s_state v"
    "s_stateTimer v' = s_stateTimer v + 20" "s_eventQueue v' = s_eventQueue (popped v)"
    "stopOpened v \<or> \<not> headIsReset v \<and> s_stateTimer v + 20 \<ge> 20 \<Longrightarrow> stopOpened v'"
    using stuck_tick[OF Suc.prems(1)] by blast
  have t: "unat (s_stateTimer v + 20) = unat (s_stateTimer v) + 20"
    using Suc.prems(4) by (simp add: unat_word_ariths)
  have q': "s_eventQueue v' = Some (tl q)"
    using v'(5) Suc.prems(2) by (simp add: popped_def split: list.splits)
  have "stopOpened v' \<or> length (tl q) < n"
  proof (cases q)
    case Nil
    then have "\<not> headIsReset v" using Suc.prems(2) by (simp add: headIsReset_def)
    then show ?thesis using v'(6) t by (simp add: word_le_nat_alt)
  next
    case (Cons e es)
    then show ?thesis using Suc.prems(3) v'(6) by auto
  qed
  from Suc.IH[OF v'(2) q' this] show ?case using v' t Suc.prems(4) by simp
qed (simp)

context relay_actuator
begin

text \<open>The part of the invariant about the bank: live states have the bank commanded
  closed, and the \<open>opened\<close> flag of a stopped state is truthful.\<close>

definition bank_inv :: "'r Vcu \<Rightarrow> bool" where
  "bank_inv v \<longleftrightarrow> usable (relayObj v) \<and>
     (s_state v = READY \<or> s_state v = DRIVE \<longrightarrow> bankClosed (relayObj v)) \<and>
     (s_state v = EMERGENCY_STOP \<and> s_relaysOpenedInEstop v \<longrightarrow> bankOpen (relayObj v)) \<and>
     (s_state v = FAULT \<and> s_relaysOpenedInFault v \<longrightarrow> bankOpen (relayObj v))"

lemmas actuator_simps = allOff_opens allOn_closes verify_bank clear_bank usable_keeps

lemma runPeriodic_bank:
  assumes "bank_inv v \<or> s_state v = READY \<and> s_stateTimer v \<le> 20 \<and> usable (relayObj v)"
  shows "bank_inv (runPeriodic A v)"
  using assms
  by (cases "s_state v")
     (auto simp: bank_inv_def runPeriodic_def handleIdle_def handleDrive_def handleReady_relay
        handleEmergencyStop_relay handleFault_relay actuator_simps
        handlers_ctl[unfolded vcu_ctl_def prod.inject])

lemma transition_bank:
  assumes "usable (relayObj v)" "st \<noteq> READY" "st \<noteq> DRIVE"
  shows "bank_inv (transitionTo st v)"
  using assms by (auto simp: bank_inv_def)

lemma handleStateEvent_bank:
  assumes "bank_inv v"
  shows "bank_inv (handleStateEvent A e v) \<or>
    s_state (handleStateEvent A e v) = READY \<and> s_stateTimer (handleStateEvent A e v) \<le> 20 \<and>
    usable (relayObj (handleStateEvent A e v))"
  using assms
  by (auto simp: handleStateEvent_def startRequest_def Let_def bank_inv_def split: VcuState.splits)

lemma runEvents_bank:
  assumes "bank_inv v"
  shows "bank_inv (runEvents A v)"
proof -
  have p: "bank_inv (v\<lparr> s_eventQueue := q \<rparr>)" for q using assms by (simp add: bank_inv_def)
  show ?thesis
    using assms p runPeriodic_bank handleStateEvent_bank
    by (auto simp: runEvents_def pollEvent_eq transition_bank bank_inv_def[THEN iffD1, THEN conjunct1]
        actuator_simps split: option.splits list.splits)
qed

lemma run_bank:
  assumes "run A v = Some v'" "bank_inv v"
  shows "bank_inv v'"
proof -
  have u: "usable (relayObj v)" using assms(2) by (simp add: bank_inv_def)
  have "bank_inv (updateWarningLog (verified A v))"
    using assms(2) by (simp add: bank_inv_def actuator_simps)
  from runEvents_bank[OF this] show ?thesis
    using assms(1) u by (auto simp: run_eq transition_bank actuator_simps split: if_splits)
qed

lemma reach_bank: "vcu_reach A usable disturb v \<Longrightarrow> bank_inv v"
proof (induction rule: vcu_reach.induct)
  case (reach_init r)
  then show ?case
    by (simp add: VcuLogic_init_def Let_def transition_bank callAllOff_def vcu_boot_def actuator_simps)
next
  case (reach_post v e)
  then show ?case by (simp add: postEvent_def bank_inv_def split: option.splits)
next
  case (reach_tick v v')
  then show ?case using run_bank by blast
next
  case (reach_hw v r)
  then show ?case using disturb_keeps by (simp add: bank_inv_def)
qed (simp_all add: setTorqueSink_def setTelemetryData_def bank_inv_def)

end

subsection \<open>A concrete vehicle\<close>

text \<open>The adapter on the register model of the tests, booted, with a healthy battery:
  the instance the examples below are evaluated on.\<close>

abbreviation "fakeAct \<equiv> relayActuatorAdapter fakeSpi"

definition healthyTel :: TelemetryData where
  "healthyTel = TelemetryData_zero\<lparr> TEL_bmsDataValid := True, TEL_bmsPackVoltageDeciV := 768,
     TEL_bmsTempHighestC := 25, TEL_bmsCurrentCentiA := 0 \<rparr>"

definition bootVcu :: "FakeSpi RelayManager Vcu" where
  "bootVcu = setTorqueSink True (VcuLogic_init fakeAct True True (vcu_boot fakeBooted))"

definition idleVcu :: "FakeSpi RelayManager Vcu" where
  "idleVcu = setTelemetryData healthyTel bootVcu"

lemma healthyTel_ok [simp]:
  "hasCriticalCondition healthyTel st = False" "hasWarningCondition healthyTel = False"
  "isReadyEntryPermitted healthyTel"
  by (simp_all add: healthyTel_def TelemetryData_zero_def hasCriticalCondition_def hasWarningCondition_def
      isReadyEntryPermitted_def isTempCritical_def isTempWarning_def isCurrentCritical_def
      isCurrentWarning_def MOTOR_DRIVER_PRESENT_def)

lemma idleVcu_fields [simp]:
  "s_state idleVcu = IDLE" "s_eventQueue idleVcu = Some []" "s_TEL_latestData idleVcu = healthyTel"
  "s_eStopPending idleVcu = False" "s_faultPending idleVcu = False" "s_relays idleVcu"
  "s_stateTimer idleVcu = 0" "s_uptimeMs idleVcu = 0" "s_torqueSink idleVcu" "s_TEL_dataMutex idleVcu"
  "vcu_calls idleVcu = [AllOffCall False]" "s_relaysOpenedInFault idleVcu = False"
  "s_relaysOpenedInEstop idleVcu = False"
  by (simp_all add: idleVcu_def bootVcu_def setTelemetryData_def setTorqueSink_def VcuLogic_init_def
      vcu_boot_def callAllOff_def Let_def transitionTo_def)

lemma idleVcu_reach: "vcu_reach fakeAct s_initialized rmDisturb idleVcu"
  unfolding idleVcu_def bootVcu_def
  by (intro vcu_reach.intros) (simp add: fakeBooted_fields)

subsection \<open>Properties\<close>

text \<open>C1. Invariant of the state machine on the relay driver, for any SPI hardware and any
  interleaving of posted events, telemetry and hardware disturbances: the event queue
  exists, holds at most eight events and never an emergency stop or a fault (these go
  through the bypass flags), the machine is never in INIT, READY and DRIVE have all ten
  contactors commanded closed, and once a stop state has set its \<open>opened\<close> flag all ten
  are commanded open.\<close>

theorem vcu_invariant:
  assumes "vcu_reach (relayActuatorAdapter d) s_initialized rmDisturb v"
  shows "queue_ok (s_eventQueue v) \<and> s_state v \<noteq> INIT \<and> s_relays v \<and>
    (s_state v = READY \<or> s_state v = DRIVE \<longrightarrow> s_relayState (relayObj v) = ALL_CLOSED) \<and>
    (s_state v = EMERGENCY_STOP \<and> s_relaysOpenedInEstop v \<longrightarrow> s_relayState (relayObj v) = 0) \<and>
    (s_state v = FAULT \<and> s_relaysOpenedInFault v \<longrightarrow> s_relayState (relayObj v) = 0)"
  using reach_struct[OF assms] rm.reach_bank[OF assms]
  by (simp add: vcu_struct_def rm.bank_inv_def rmOpen_def rmClosed_def)

theorem vcu_invariant_witness:
  "queue_ok (s_eventQueue (postEvent Ev_START_REQUEST idleVcu))"
  using vcu_invariant[OF reach_post[OF idleVcu_reach]] by blast

text \<open>Totality and absence of null dereference: after \<open>init\<close> has run, whether or not the
  queue and the mutex could be created, any number of ticks returns.\<close>

lemma run_never_dereferences_null:
  "\<exists>v'. runs A n (VcuLogic_init A queueCreated mutexCreated v) = Some v' \<and> s_relays v'"
proof -
  have "s_relays w \<Longrightarrow> \<exists>v'. runs A n w = Some v' \<and> s_relays v'" for w
  proof (induction n arbitrary: w)
    case (Suc n)
    then show ?case using run_total[of w A] by fastforce
  qed simp
  then show ?thesis by (simp add: VcuLogic_init_def Let_def callAllOff_def)
qed

text \<open>C10. The gate of the contactors, exactly: a tick of a VCU that is not in READY ends in READY
  if and only if the state is IDLE, START is at the head of the queue, neither an emergency
  stop nor a fault is pending, the actuator shows no fault after this tick's verification, the
  BMS data are valid, the motor reports no error and the BMS no system fault (state 4), the
  cell extremes, where known, are not below 2800 and not above 3550, the pack voltage is
  strictly between 72.0 V and 85.2 V, the highest temperature below 55 C, the current strictly
  between -9.0 A and 11.0 A, and the motor data are valid when a motor driver is fitted.\<close>

theorem ready_entry_guarded:
  assumes "run A v = Some v'" "s_state v \<noteq> READY" "d = s_TEL_latestData v"
  shows "s_state v' = READY \<longleftrightarrow>
    s_state v = IDLE \<and> \<not> s_eStopPending v \<and> \<not> s_faultPending v \<and>
    (\<exists>q. s_eventQueue v = Some (Ev_START_REQUEST # q)) \<and>
    \<not> act_hasActuatorFault A (act_verifyIfDue A (s_uptimeMs v + 20) (relayObj v)) \<and>
    TEL_bmsDataValid d \<and> TEL_motorErrorFlags d = 0 \<and> TEL_bmsSystemState d \<noteq> 4 \<and>
    (\<not> TEL_cellVoltageDataValid d \<or>
       2800 \<le> TEL_bmsCellVoltageMinDeciMv d \<and> TEL_bmsCellVoltageMaxDeciMv d \<le> 3550) \<and>
    720 < TEL_bmsPackVoltageDeciV d \<and> TEL_bmsPackVoltageDeciV d < 852 \<and>
    sint (TEL_bmsTempHighestC d) < 55 \<and>
    - 900 < sint (TEL_bmsCurrentCentiA d) \<and> sint (TEL_bmsCurrentCentiA d) < 1100 \<and>
    (\<not> MOTOR_DRIVER_PRESENT \<or> TEL_motorDataValid d)"
proof -
  have "s_state v' = READY \<longleftrightarrow> s_state v = IDLE \<and> \<not> s_eStopPending v \<and> \<not> s_faultPending v \<and>
      (\<exists>q. s_eventQueue v = Some (Ev_START_REQUEST # q)) \<and>
      \<not> act_hasActuatorFault A (act_verifyIfDue A (s_uptimeMs v + 20) (relayObj v)) \<and>
      isReadyEntryPermitted d"
    using run_state[OF assms(1)] assms(2,3)
    by (auto simp: runEvents_state handleStateEvent_state mustFault_def permitted_not_critical
        split: option.splits list.splits if_splits)
  then show ?thesis unfolding isReadyEntryPermitted_iff by simp
qed

definition startVcu :: "FakeSpi RelayManager Vcu" where
  "startVcu = postEvent Ev_START_REQUEST idleVcu"

lemma startVcu_fields [simp]:
  "s_eventQueue startVcu = Some [Ev_START_REQUEST]" "s_state startVcu = IDLE"
  "s_TEL_latestData startVcu = healthyTel" "s_eStopPending startVcu = False"
  "s_faultPending startVcu = False" "s_relays startVcu" "relayObj startVcu = relayObj idleVcu"
  "s_uptimeMs startVcu = 0" "s_stateTimer startVcu = 0" "s_torqueSink startVcu"
  by (simp_all add: startVcu_def postEvent_def)

lemma idle_relay:
  "relayObj idleVcu = \<lparr> s_relayState = 0, s_spiDev = True, s_initialized = True, s_actuatorFault = False,
     s_lastVerifyMs = 0, s_verifyStarted = False,
     chip = \<lparr> s_regs = (\<lambda>_. 0xFF)(0x14 := 0xFF, 0x15 := 0xFF, 0 := 0, 1 := 0),
              s_writes = [(0x14, 0xFF), (0x15, 0xFF), (0, 0), (1, 0), (0x14, 0xFF), (0x15, 0xFF)] \<rparr> \<rparr>"
  by (simp add: idleVcu_def bootVcu_def setTelemetryData_def setTorqueSink_def VcuLogic_init_def
      vcu_boot_def callAllOff_def Let_def transitionTo_def relayActuatorAdapter_def allOff_def
      fakeBooted_def begin_fake writeRegister_def fake_rw[unfolded cfg] cfg fun_upd_twist
      verifyOutputs_fake regs_match_def verifyRegs_def expectedRegs_def hw_bytes_open[simplified])

theorem ready_entry_guarded_witness:
  "\<exists>v'. run fakeAct startVcu = Some v' \<and> s_state startVcu = IDLE \<and> s_state v' = READY"
proof -
  obtain v' where v': "run fakeAct startVcu = Some v'" using run_total startVcu_fields(6) by blast
  then show ?thesis
    using ready_entry_guarded[OF v' _ refl]
    by (simp add: relayActuatorAdapter_def hasActuatorFault_def verifyIfDue_def idle_relay
        healthyTel_def TelemetryData_zero_def MOTOR_DRIVER_PRESENT_def)
qed

text \<open>The transition graph: a tick keeps the state or makes one of the moves
  any state to EMERGENCY_STOP, any state to FAULT, IDLE to READY, READY to DRIVE, and
  FAULT or EMERGENCY_STOP to IDLE; and it makes the last one only for a RESET at the
  head of the queue while no critical condition holds in the current state.\<close>

lemma transition_graph:
  assumes "run A v = Some v'"
  shows "s_state v' = s_state v \<or> s_state v' = EMERGENCY_STOP \<or> s_state v' = FAULT \<or>
    (s_state v, s_state v') = (IDLE, READY) \<or> (s_state v, s_state v') = (READY, DRIVE) \<or>
    (s_state v' = IDLE \<and> s_state v \<in> {FAULT, EMERGENCY_STOP} \<and>
     \<not> hasCriticalCondition (s_TEL_latestData v) (s_state v) \<and>
     (\<exists>q. s_eventQueue v = Some (Ev_RESET # q)))"
  using run_state[OF assms]
  by (auto simp: runEvents_state handleStateEvent_state reset_interlock_iff
      split: option.splits list.splits if_splits)

lemma post_keeps_pending:
  "s_eStopPending v \<Longrightarrow> s_eStopPending (fold postEvent es v)"
  "s_faultPending v \<Longrightarrow> s_faultPending (fold postEvent es v)"
  "s_state (fold postEvent es v) = s_state v"
  by (induction es arbitrary: v) (auto simp: postEvent_def split: option.splits)

text \<open>An emergency stop is never lost: once posted, and whatever is posted after it and
  however full the queue is, the next tick is in EMERGENCY_STOP, from every other state.\<close>

lemma estop_never_lost:
  assumes "s_eventQueue v \<noteq> None" "s_state v \<noteq> EMERGENCY_STOP"
  shows "\<exists>v'. run A (fold postEvent es (postEvent Ev_EMERGENCY_STOP v)) = Some v' \<and>
              s_state v' = EMERGENCY_STOP \<and> relayObj v' = relayObj v"
proof -
  have p: "s_eStopPending (postEvent Ev_EMERGENCY_STOP v)" "s_state (postEvent Ev_EMERGENCY_STOP v) = s_state v"
    using assms(1) by (auto simp: postEvent_def)
  have r: "relayObj (fold postEvent es w) = relayObj w" for w :: "'a Vcu"
    by (induction es arbitrary: w) (auto simp: postEvent_def split: option.splits)
  show ?thesis
    using p assms(2) post_keeps_pending(1)[OF p(1)]
    by (simp add: run_eq r post_keeps_pending(3)) (simp add: postEvent_def split: option.splits)
qed

text \<open>A fault request is never lost either: after FAULT_DETECTED has been posted, the next
  tick ends in FAULT or, when an emergency stop is pending too, in EMERGENCY_STOP with the
  fault request still pending; only in FAULT itself may a RESET in the same tick win.\<close>

lemma fault_never_lost:
  assumes "s_eventQueue v \<noteq> None" "s_state v \<noteq> FAULT"
    and "run A (fold postEvent es (postEvent Ev_FAULT_DETECTED v)) = Some v'"
  shows "s_state v' = FAULT \<or> s_state v' = EMERGENCY_STOP \<and> s_faultPending v'"
proof -
  let ?w = "fold postEvent es (postEvent Ev_FAULT_DETECTED v)"
  have p: "s_faultPending (postEvent Ev_FAULT_DETECTED v)" "s_state (postEvent Ev_FAULT_DETECTED v) = s_state v"
    using assms(1) by (auto simp: postEvent_def)
  have "s_faultPending ?w" "s_state ?w = s_state v"
    by (simp_all add: p post_keeps_pending)
  then show ?thesis using assms(2,3) by (auto simp: run_eq split: if_splits)
qed

definition headIsStop :: "'r Vcu \<Rightarrow> bool" where
  "headIsStop v \<longleftrightarrow> (\<exists>q. s_eventQueue v = Some (Ev_EMERGENCY_STOP # q) \<or> s_eventQueue v = Some (Ev_FAULT_DETECTED # q))"

lemma live_events_stop:
  assumes "s_state v = READY \<or> s_state v = DRIVE"
  shows "s_state (runEvents A v) = FAULT \<or> s_state (runEvents A v) = EMERGENCY_STOP \<longleftrightarrow> headIsStop v"
proof (cases "s_eventQueue v")
  case (Some q)
  then show ?thesis using assms
    by (cases q) (auto simp: runEvents_state handleStateEvent_state headIsStop_def split: if_splits)
qed (use assms in \<open>auto simp: runEvents_state headIsStop_def\<close>)

text \<open>C12. A live bank never survives a hazard, and is never stopped without one: a tick in
  READY or DRIVE ends in FAULT or EMERGENCY_STOP if and only if an emergency stop or a fault
  is pending or at the head of the queue, the actuator shows a fault after this tick's
  verification, or the telemetry is critical: a motor error flag, a stale motor or battery, or,
  with valid BMS data, system state 4, a known cell extreme below 2500 or above 3650, a pack
  voltage of at most 60.0 V or at least 87.6 V, a temperature of at least 70 C, or a current of
  at least 13.0 A of charge or 15.0 A of discharge.\<close>

theorem live_hazard_stops:
  assumes "run A v = Some v'" "s_state v = READY \<or> s_state v = DRIVE" "d = s_TEL_latestData v"
  shows "s_state v' = FAULT \<or> s_state v' = EMERGENCY_STOP \<longleftrightarrow>
    s_eStopPending v \<or> s_faultPending v \<or>
    (\<exists>q. s_eventQueue v = Some (Ev_EMERGENCY_STOP # q) \<or> s_eventQueue v = Some (Ev_FAULT_DETECTED # q)) \<or>
    act_hasActuatorFault A (act_verifyIfDue A (s_uptimeMs v + 20) (relayObj v)) \<or>
    TEL_motorErrorFlags d \<noteq> 0 \<or> TEL_motorTimeoutActive d \<or> TEL_bmsTimeoutActive d \<or>
    TEL_bmsDataValid d \<and>
      (TEL_bmsSystemState d = 4 \<or>
       TEL_cellVoltageDataValid d \<and>
         (TEL_bmsCellVoltageMinDeciMv d < 2500 \<or> 3650 < TEL_bmsCellVoltageMaxDeciMv d) \<or>
       TEL_bmsPackVoltageDeciV d \<le> 600 \<or> 876 \<le> TEL_bmsPackVoltageDeciV d \<or>
       70 \<le> sint (TEL_bmsTempHighestC d) \<or>
       1300 \<le> sint (TEL_bmsCurrentCentiA d) \<or> sint (TEL_bmsCurrentCentiA d) \<le> - 1500)"
proof -
  have "mustFault A v \<longleftrightarrow>
      act_hasActuatorFault A (act_verifyIfDue A (s_uptimeMs v + 20) (relayObj v)) \<or>
      hasCriticalCondition d (s_state v)"
    using assms(2,3) by (auto simp: mustFault_def)
  moreover have "s_state v' = FAULT \<or> s_state v' = EMERGENCY_STOP \<longleftrightarrow>
      s_eStopPending v \<or> s_faultPending v \<or> mustFault A v \<or> headIsStop v"
    using run_state[OF assms(1)] live_events_stop[of "verified A v" A] assms(2)
    by (auto simp: headIsStop_def)
  ultimately have "s_state v' = FAULT \<or> s_state v' = EMERGENCY_STOP \<longleftrightarrow>
      s_eStopPending v \<or> s_faultPending v \<or> headIsStop v \<or>
      act_hasActuatorFault A (act_verifyIfDue A (s_uptimeMs v + 20) (relayObj v)) \<or>
      hasCriticalCondition d (s_state v)" by blast
  then show ?thesis by (simp only: critical_live_iff[OF assms(2)] headIsStop_def)
qed

theorem live_hazard_stops_witness:
  "\<exists>v'. run fakeAct (idleVcu\<lparr> s_state := DRIVE, s_TEL_latestData := healthyTel\<lparr> TEL_bmsTempHighestC := 70 \<rparr> \<rparr>) = Some v' \<and>
        (s_state v' = FAULT \<or> s_state v' = EMERGENCY_STOP)"
proof -
  let ?v = "idleVcu\<lparr> s_state := DRIVE, s_TEL_latestData := healthyTel\<lparr> TEL_bmsTempHighestC := 70 \<rparr> \<rparr>"
  obtain v' where "run fakeAct ?v = Some v'" using run_total[of ?v fakeAct] by auto
  then show ?thesis using live_hazard_stops[of fakeAct ?v v' "s_TEL_latestData ?v"]
    by (simp add: healthyTel_def TelemetryData_zero_def)
qed

lemma runs_reach:
  "vcu_reach A usable disturb v \<Longrightarrow> runs A n v = Some v' \<Longrightarrow> vcu_reach A usable disturb v'"
  by (induction n arbitrary: v) (auto split: option.splits intro: vcu_reach.intros)

text \<open>C11. Contactors open after a stop, in bounded time, when the stop is left alone: from a
  reachable FAULT or EMERGENCY_STOP state with a critical condition (so that every RESET is
  rejected), no bypass request pending and a state timer below 4000000000 ms, nine
  consecutive ticks (180 ms) in which nothing is posted and the telemetry does not change keep
  the state and leave all ten contactors commanded open, whatever is queued at the start.  Nine
  is one more than the queue can hold, since a rejected RESET costs a tick.  A bypass request
  towards the other stop state would restart the timer.\<close>

theorem stop_opens_within_nine_ticks:
  assumes "vcu_reach (relayActuatorAdapter d) s_initialized rmDisturb v"
    and "s_state v = FAULT \<or> s_state v = EMERGENCY_STOP" "noBypass v"
    and "hasCriticalCondition (s_TEL_latestData v) (s_state v)"
    and "s_stateTimer v < 4000000000"
  shows "\<exists>v'. runs (relayActuatorAdapter d) 9 v = Some v' \<and> s_state v' = s_state v \<and>
              s_relayState (relayObj v') = 0"
proof -
  have st: "vcu_struct v" by (rule reach_struct[OF assms(1)])
  then obtain q where q: "s_eventQueue v = Some q" "length q < 9"
    by (auto simp: vcu_struct_def queue_ok_def split: option.splits)
  have "stuckStop v" using st assms(2-4) by (auto simp: stuckStop_def vcu_struct_def)
  moreover have "unat (s_stateTimer v) + 20 * 9 < 2 ^ 32"
    using assms(5) by (simp add: word_less_nat_alt)
  ultimately obtain v' where v': "runs (relayActuatorAdapter d) 9 v = Some v'" "s_state v' = s_state v" "stopOpened v'"
    using stuck_runs[of v q 9 "relayActuatorAdapter d"] q by auto
  have "rm.bank_inv v'" by (rule rm.reach_bank[OF runs_reach[OF assms(1) v'(1)]])
  then have "s_relayState (relayObj v') = 0"
    using v'(2,3) assms(2) by (auto simp: rm.bank_inv_def stopOpened_def rmOpen_def)
  then show ?thesis using v' by blast
qed

text \<open>The next tick already opens the bank when no RESET is at the head of the queue: from
  a reachable stop state with no bypass flag pending, one tick leaves all ten contactors
  commanded open and the state unchanged.\<close>

lemma stop_opens_next_tick:
  assumes "vcu_reach (relayActuatorAdapter d) s_initialized rmDisturb v"
    and "s_state v = FAULT \<or> s_state v = EMERGENCY_STOP" "noBypass v" "\<not> headIsReset v"
    and "s_stateTimer v < 4000000000"
  shows "\<exists>v'. run (relayActuatorAdapter d) v = Some v' \<and> s_state v' = s_state v \<and>
              s_relayState (relayObj v') = 0"
proof -
  let ?A = "relayActuatorAdapter d"
  let ?w = "updateWarningLog (verified ?A v)"
  have st: "vcu_struct v" by (rule reach_struct[OF assms(1)])
  have r: "run ?A v = Some (runPeriodic ?A (popped ?w))"
    using stop_tick[of v ?A] stop_events(1)[of ?w ?A] st assms(2-4) by (auto simp: vcu_struct_def)
  have t: "s_stateTimer v + 20 \<ge> 20"
    using assms(5) by (simp add: word_le_nat_alt word_less_nat_alt unat_word_ariths)
  have "stopOpened (runPeriodic ?A (popped ?w))"
    using assms(2) t by (auto simp: stopOpened_def runPeriodic_def handleFault_relay handleEmergencyStop_relay
        handlers_ctl[unfolded vcu_ctl_def prod.inject])
  moreover have "rm.bank_inv (runPeriodic ?A (popped ?w))"
    by (rule rm.reach_bank[OF reach_tick[OF assms(1) r]])
  ultimately have "s_relayState (relayObj (runPeriodic ?A (popped ?w))) = 0"
    using assms(2) by (auto simp: rm.bank_inv_def stopOpened_def rmOpen_def)
  then show ?thesis using r by auto
qed

lemma shutdown_calls:
  assumes "s_state v = FAULT \<or> s_state v = EMERGENCY_STOP" "s_stateTimer v = 0" "\<not> stopOpened v"
    and "noBypass v" "\<not> headIsReset v" "queue_ok (s_eventQueue v)" "s_relays v" "s_torqueSink v"
  shows "\<exists>v'. run A v = Some v' \<and> vcu_calls v' = vcu_calls v @ [TorqueCall 0, AllOffCall False]"
proof -
  let ?w = "updateWarningLog (verified A v)"
  have "run A v = Some (runPeriodic A (popped ?w))"
    using stop_tick[of v A] stop_events(1)[of ?w A] assms by auto
  then show ?thesis using assms
    by (auto simp: runPeriodic_def handleFault_calls handleEmergencyStop_calls stopOpened_def)
qed

text \<open>C13. Order of a shutdown: when FAULT or EMERGENCY_STOP has just been entered (state timer 0,
  contactors not yet opened by it) with a torque sink set, no bypass request pending and no
  RESET at the head of the queue, then the next tick first requests zero torque on the sink and
  then opens the contactors, and calls nothing else.  Both calls fall into this one tick: the
  delay VCU_CONTACTOR_OPEN_DELAY_MS equals the tick, so no time passes between them.\<close>

theorem zero_torque_before_open:
  assumes "s_state v = FAULT \<or> s_state v = EMERGENCY_STOP" "s_stateTimer v = 0" "\<not> stopOpened v"
    and "noBypass v" "\<not> headIsReset v" "queue_ok (s_eventQueue v)" "s_relays v" "s_torqueSink v"
  shows "\<exists>v'. run A v = Some v' \<and> vcu_calls v' = vcu_calls v @ [TorqueCall 0, AllOffCall False]"
  by (rule shutdown_calls[OF assms])

text \<open>Entering a stop state from a reachable one, used to instantiate the three theorems.\<close>

definition faultVcu :: "FakeSpi RelayManager Vcu" where
  "faultVcu = transitionTo FAULT (ticked (postEvent Ev_FAULT_DETECTED
     (setTelemetryData (healthyTel\<lparr> TEL_motorErrorFlags := 1 \<rparr>) idleVcu)))"

lemma faultVcu_fields [simp]:
  "s_state faultVcu = FAULT" "s_stateTimer faultVcu = 0" "noBypass faultVcu" "s_eventQueue faultVcu = Some []"
  "s_relays faultVcu" "s_torqueSink faultVcu" "\<not> stopOpened faultVcu" "\<not> headIsReset faultVcu"
  "hasCriticalCondition (s_TEL_latestData faultVcu) FAULT"
  "s_eStopPending faultVcu = False" "s_faultPending faultVcu = False"
  by (simp_all add: faultVcu_def postEvent_def setTelemetryData_def noBypass_def stopOpened_def
      headIsReset_def hasCriticalCondition_def)

lemma faultVcu_reach: "vcu_reach fakeAct s_initialized rmDisturb faultVcu"
proof -
  have "run fakeAct (postEvent Ev_FAULT_DETECTED
     (setTelemetryData (healthyTel\<lparr> TEL_motorErrorFlags := 1 \<rparr>) idleVcu)) = Some faultVcu"
    by (simp add: faultVcu_def run_eq postEvent_def setTelemetryData_def)
  then show ?thesis by (intro reach_tick[OF reach_post[OF reach_tel[OF idleVcu_reach]]])
qed

theorem stop_opens_within_nine_ticks_witness:
  "\<exists>v'. runs fakeAct 9 faultVcu = Some v' \<and> s_state v' = FAULT \<and> s_relayState (relayObj v') = 0"
  using stop_opens_within_nine_ticks[OF faultVcu_reach] by simp

theorem zero_torque_before_open_witness:
  "\<exists>v'. run fakeAct faultVcu = Some v' \<and> vcu_calls v' = vcu_calls faultVcu @ [TorqueCall 0, AllOffCall False]"
  using zero_torque_before_open[of faultVcu fakeAct] by (simp add: queue_ok_def)

lemma reset_interlock_lemma:
  assumes "s_state v = EMERGENCY_STOP \<or> s_state v = FAULT" "noBypass v" "s_relays v"
    and "s_eventQueue v = Some (Ev_RESET # q)" "queue_ok (s_eventQueue v)"
  shows "\<exists>v'. run (relayActuatorAdapter d) v = Some v' \<and> s_eventQueue v' = Some q \<and> vcu_calls v' = vcu_calls v \<and>
    s_relayState (relayObj v') = s_relayState (relayObj v) \<and>
    (if hasCriticalCondition (s_TEL_latestData v) (s_state v) then s_state v' = s_state v
     else s_state v' = IDLE \<and> \<not> hasActuatorFault (relayObj v'))"
proof -
  let ?A = "relayActuatorAdapter d"
  let ?w = "updateWarningLog (verified ?A v)"
  have h: "headIsReset v" using assms(4) by (simp add: headIsReset_def)
  have "run ?A v = Some (runEvents ?A ?w)" using stop_tick[of v ?A] assms by simp
  moreover have "s_eventQueue (popped ?w) = Some q" using assms(4) by (simp add: popped_def)
  ultimately show ?thesis
    using stop_events(2,3)[of ?w ?A] assms h
    by (cases "hasCriticalCondition (s_TEL_latestData v) (s_state v)")
       (simp_all add: relayActuatorAdapter_def hasActuatorFault_def, simp add: clearActuatorFault_def)
qed

text \<open>RESET: in FAULT or EMERGENCY_STOP a RESET at the head of the queue is rejected with
  no effect on state, bank and calls while a critical condition holds, and otherwise leads
  to IDLE with the actuator fault cleared.\<close>

lemma reset_interlock:
  assumes "s_state v = EMERGENCY_STOP \<or> s_state v = FAULT" "noBypass v" "s_relays v"
    and "s_eventQueue v = Some (Ev_RESET # q)" "queue_ok (s_eventQueue v)"
  shows "\<exists>v'. run (relayActuatorAdapter d) v = Some v' \<and> s_eventQueue v' = Some q \<and> vcu_calls v' = vcu_calls v \<and>
    s_relayState (relayObj v') = s_relayState (relayObj v) \<and>
    (if hasCriticalCondition (s_TEL_latestData v) (s_state v) then s_state v' = s_state v
     else s_state v' = IDLE \<and> \<not> hasActuatorFault (relayObj v'))"
  using reset_interlock_lemma[OF assms] .

end
