(* ===== verification/Vcu_Hazards.thy ===== *)
theory Vcu_Hazards
  imports Vcu_Logic
begin

text \<open>
  Corner cases of the event handling of lib/VcuLogic/VcuLogic.cpp.  \<open>run\<close> returns early
  after a bypass transition and after every RESET it handles, so that the handler of the
  stop state does not run in such a tick.  The theorems work out what this means for the
  contactor bank and for the shutdown order.
\<close>

text \<open>C37. A queued RESET overtakes the opening of the contactors: in READY or DRIVE with a
  RESET at the head of the queue and no critical condition, an emergency stop followed by
  two ticks ends in IDLE with all ten contactors still commanded closed.  The first tick
  only changes the state and the second one accepts the RESET before the handler of
  EMERGENCY_STOP has run.\<close>

theorem reset_overtakes_opening:
  assumes "vcu_reach (relayActuatorAdapter d) s_initialized rmDisturb v"
    and "s_state v = READY \<or> s_state v = DRIVE" "s_eventQueue v = Some (Ev_RESET # q)"
    and "\<not> s_faultPending v" "\<not> hasCriticalCondition (s_TEL_latestData v) EMERGENCY_STOP"
  shows "\<exists>v'. runs (relayActuatorAdapter d) 2 (postEvent Ev_EMERGENCY_STOP v) = Some v' \<and>
              s_state v' = IDLE \<and> s_relayState (relayObj v') = ALL_CLOSED"
proof -
  let ?A = "relayActuatorAdapter d"
  let ?p = "postEvent Ev_EMERGENCY_STOP v"
  have c: "s_relayState (relayObj v) = ALL_CLOSED"
    using rm.reach_bank[OF assms(1)] assms(2) by (auto simp: rm.bank_inv_def rmClosed_def)
  have st: "s_relays v" "queue_ok (s_eventQueue v)"
    using reach_struct[OF assms(1)] by (simp_all add: vcu_struct_def)
  obtain w where w: "run ?A ?p = Some w" "s_state w = EMERGENCY_STOP" "relayObj w = relayObj v"
    "s_eventQueue w = Some (Ev_RESET # q)" "s_TEL_latestData w = s_TEL_latestData v" "noBypass w" "s_relays w"
    using assms(2-4) st by (auto simp: run_eq postEvent_def noBypass_def)
  obtain v' where "run ?A w = Some v'" "s_state v' = IDLE" "s_relayState (relayObj v') = ALL_CLOSED"
    using reset_interlock_lemma[of w q d] w assms(3,5) st(2) c by auto
  then show ?thesis using w(1) by (auto simp: runs_2)
qed

definition readyVcu :: "FakeSpi RelayManager Vcu" where
  "readyVcu = (case run fakeAct startVcu of Some v \<Rightarrow> v | None \<Rightarrow> startVcu)"

lemma readyVcu:
  "run fakeAct startVcu = Some readyVcu" "s_state readyVcu = READY"
  "s_eventQueue readyVcu = Some []" "s_TEL_latestData readyVcu = healthyTel" "noBypass readyVcu"
  "vcu_reach fakeAct s_initialized rmDisturb readyVcu"
proof -
  obtain w where w: "run fakeAct startVcu = Some w" using run_total startVcu_fields(6) by blast
  then show r: "run fakeAct startVcu = Some readyVcu" by (simp add: readyVcu_def)
  have m: "\<not> mustFault fakeAct startVcu"
    by (simp add: mustFault_def)
  show "s_state readyVcu = READY"
    using run_state[OF r] m
    by (simp add: runEvents_state handleStateEvent_state relayActuatorAdapter_def
        hasActuatorFault_def verifyIfDue_def idle_relay)
  have e: "readyVcu = runEvents fakeAct (updateWarningLog (verified fakeAct startVcu))"
    using r m by (simp add: run_eq)
  show "s_eventQueue readyVcu = Some []" "s_TEL_latestData readyVcu = healthyTel" "noBypass readyVcu"
    by (simp_all add: e runEvents_queue noBypass_def)
  show "vcu_reach fakeAct s_initialized rmDisturb readyVcu"
    by (rule reach_tick[OF reach_post[OF idleVcu_reach] r[unfolded startVcu_def]])
qed

theorem reset_overtakes_opening_witness:
  "\<exists>v'. runs fakeAct 2 (postEvent Ev_EMERGENCY_STOP (postEvent Ev_RESET readyVcu)) = Some v' \<and>
        s_state v' = IDLE \<and> s_relayState (relayObj v') = ALL_CLOSED"
  using reset_overtakes_opening[OF reach_post[OF readyVcu(6)], of Ev_RESET "[]"] readyVcu(2-5)
  by (simp add: postEvent_def noBypass_def)

text \<open>A rejected RESET costs the zero-torque request: if the first tick of a stop state
  handles a RESET that the interlock rejects, nothing is called in it, and the next tick
  opens the contactors without ever having requested zero torque, because the state timer
  is already past the guard of the request.\<close>

lemma rejected_reset_drops_zero_torque:
  assumes "s_state v = EMERGENCY_STOP \<or> s_state v = FAULT" "s_stateTimer v = 0" "\<not> stopOpened v"
    and "noBypass v" "s_relays v" "s_eventQueue v = Some [Ev_RESET]"
    and "hasCriticalCondition (s_TEL_latestData v) (s_state v)"
  shows "\<exists>v'. runs A 2 v = Some v' \<and> s_state v' = s_state v \<and>
              vcu_calls v' = vcu_calls v @ [AllOffCall False]"
proof -
  let ?w = "popped (updateWarningLog (verified A v))"
  have "run A v = Some ?w"
    using stop_tick[of v A] stop_events(2)[of "updateWarningLog (verified A v)" A] assms
    by (simp add: headIsReset_def queue_ok_def)
  moreover have "run A ?w = Some (runPeriodic A (popped (updateWarningLog (verified A ?w))))"
    using stop_tick[of ?w A] stop_events(1)[of "updateWarningLog (verified A ?w)" A] assms
    by (simp add: headIsReset_def queue_ok_def noBypass_def popped_def)
  ultimately show ?thesis using assms(1-3)
    by (auto simp: runs_2 runPeriodic_def handleFault_calls handleEmergencyStop_calls stopOpened_def
        handlers_ctl[unfolded vcu_ctl_def prod.inject])
qed

fun alternate :: "'r IRelayActuator \<Rightarrow> nat \<Rightarrow> 'r Vcu \<Rightarrow> 'r Vcu option" where
  "alternate A 0 v = Some v"
| "alternate A (Suc n) v =
    (case run A (postEvent Ev_EMERGENCY_STOP v) of
       None \<Rightarrow> None
     | Some w \<Rightarrow> (case run A (postEvent Ev_FAULT_DETECTED w) of
                   None \<Rightarrow> None
                 | Some v' \<Rightarrow> alternate A n v'))"

text \<open>C38. Alternating requests keep the contactors closed: while an emergency stop and a fault
  are requested in turn, one per tick, every tick only changes the state and restarts its
  timer, and the bank is never touched, however long this lasts.\<close>

theorem alternating_stops_never_open:
  assumes "s_state v = FAULT" "noBypass v" "s_eventQueue v = Some q"
  shows "\<exists>v'. alternate A n v = Some v' \<and> s_state v' = FAULT \<and> relayObj v' = relayObj v \<and>
              vcu_calls v' = vcu_calls v"
  using assms
proof (induction n arbitrary: v)
  case (Suc n)
  obtain w where w: "run A (postEvent Ev_EMERGENCY_STOP v) = Some w" "s_state w = EMERGENCY_STOP"
    "relayObj w = relayObj v" "vcu_calls w = vcu_calls v" "s_eventQueue w = Some q" "noBypass w"
    using Suc.prems by (simp add: run_eq postEvent_def noBypass_def)
  obtain v' where v': "run A (postEvent Ev_FAULT_DETECTED w) = Some v'" "s_state v' = FAULT"
    "relayObj v' = relayObj w" "vcu_calls v' = vcu_calls w" "s_eventQueue v' = Some q" "noBypass v'"
    using w by (simp add: run_eq postEvent_def noBypass_def)
  show ?case using Suc.IH[OF v'(2,6,5)] w v' by simp
qed simp

theorem alternating_stops_never_open_witness:
  "\<exists>v'. alternate fakeAct 100 faultVcu = Some v' \<and> relayObj v' = relayObj faultVcu"
  using alternating_stops_never_open[of faultVcu "[]" fakeAct 100] by auto

text \<open>The tick that enters READY, in closed form.\<close>

lemma ready_entry_tick:
  assumes "run A v = Some v'" "s_state v = IDLE" "s_state v' = READY"
  shows "vcu_calls v' = vcu_calls v @ [AllOnCall]" "s_stateTimer v' = 0"
    "s_uptimeMs v' = s_uptimeMs v + 20"
    "relayObj v' = act_allOn A (act_verifyIfDue A (s_uptimeMs v + 20) (relayObj v))"
proof -
  have g: "\<exists>q. s_eventQueue v = Some (Ev_START_REQUEST # q)" "\<not> s_eStopPending v" "\<not> s_faultPending v"
    "s_relays v" "\<not> mustFault A v"
    using assms run_state[OF assms(1)]
    by (auto simp: run_eq runEvents_state handleStateEvent_state split: option.splits list.splits if_splits)
  then have v': "v' = runEvents A (updateWarningLog (verified A v))"
    using assms(1) by (simp add: run_eq)
  have u: "s_uptimeMs (updateWarningLog (verified A v)) = s_uptimeMs v + 20"
    by (simp add: updateWarningLog_def verified_def)
  have t: "s_uptimeMs (transitionTo READY w) = s_uptimeMs w" for w :: "'a Vcu"
    by (simp add: transitionTo_def)
  obtain q where "s_eventQueue v = Some (Ev_START_REQUEST # q)" using g(1) by blast
  then show "vcu_calls v' = vcu_calls v @ [AllOnCall]" "s_stateTimer v' = 0"
    "s_uptimeMs v' = s_uptimeMs v + 20"
    "relayObj v' = act_allOn A (act_verifyIfDue A (s_uptimeMs v + 20) (relayObj v))"
    using assms(2,3) unfolding v'
    by (auto simp: runEvents_def pollEvent_eq handleStateEvent_def startRequest_def Let_def runPeriodic_def
        handleReady_def callAllOn_def getTelemetrySnapshot_def handleIdle_def u t split: if_splits)
qed

text \<open>The closing command is given twice: the tick that enters READY commands the bank
  closed, and so does the tick after it (timer 0 and timer 20 both pass the guard).\<close>

lemma ready_closes_twice:
  assumes "run A v = Some v'" "s_state v = IDLE" "s_state v' = READY"
    and "s_eventQueue v' = Some []" "noBypass v'" "s_relays v'" "\<not> mustFault A v'"
  shows "\<exists>v''. run A v' = Some v'' \<and> vcu_calls v' = vcu_calls v @ [AllOnCall] \<and>
               vcu_calls v'' = vcu_calls v @ [AllOnCall, AllOnCall]"
  using ready_entry_tick(1,2)[OF assms(1-3)] assms(3-7)
  by (simp add: run_eq noBypass_def runEvents_def pollEvent_eq runPeriodic_def handleReady_def callAllOn_def)

end
