(* ===== verification/Can_Parse.thy ===== *)
theory Can_Parse
  imports Vcu_Safety
begin

text \<open>
  The pure CAN decoders lib/CanParse/CanParse.cpp, the freshness and debounce helpers
  lib/CanManager/BmsFreshness.h and MotorFaultDebounce.h, and the torque gate
  MotorTorque.h.

  A frame is the part of \<open>twai_message_t\<close> the code reads; its payload array has eight
  bytes (\<open>msg_wf\<close>).  A parser that returns \<open>false\<close> gives \<open>None\<close> (and leaves its output
  argument alone), one that returns \<open>true\<close> gives the updated output.  Tick values are
  32-bit words; CONFIG_FREERTOS_HZ is 100.
\<close>

record twai_message =
  rtr :: bool
  extd :: bool
  can_identifier :: u32
  data_length_code :: u8
  payload :: "u8 list"

definition msg_wf :: "twai_message \<Rightarrow> bool" where
  "msg_wf msg \<longleftrightarrow> length (payload msg) = 8"

record MotorStatus =
  rpm :: i16
  motorVoltageDeciV :: u16
  errorFlags :: u8
  isRunning :: bool
  isValid :: bool

record ChargerCommand =
  chargeVoltageSetpointDeciV :: u16
  chargeCurrentSetpointDeciA :: u16

text \<open>The big-endian pair at bytes \<open>i\<close> and \<open>i + 1\<close>.\<close>

definition word_at :: "twai_message \<Rightarrow> nat \<Rightarrow> u16" where
  "word_at msg i = be16 (payload msg ! i) (payload msg ! (i + 1))"

definition parseMotorStatus :: "twai_message \<Rightarrow> MotorStatus \<Rightarrow> MotorStatus option" where
  "parseMotorStatus msg out =
    (if data_length_code msg < 8 then None
     else Some (out\<lparr> rpm := word_at msg 0,
                     motorVoltageDeciV := word_at msg 2,
                     errorFlags := (payload msg ! 7) AND 0xFE,
                     isRunning := ((payload msg ! 7) AND 0x01 \<noteq> 0),
                     isValid := True \<rparr>))"

definition parseLbBmsE000 :: "twai_message \<Rightarrow> TelemetryData \<Rightarrow> TelemetryData option" where
  "parseLbBmsE000 msg out =
    (if data_length_code msg < 8 then None
     else Some (out\<lparr> TEL_bmsCurrentCentiA := scast (word_at msg 0) * 10,
                     TEL_bmsPackVoltageDeciV := word_at msg 2,
                     TEL_bmsSocHundredths := word_at msg 4,
                     TEL_bmsSoc2Hundredths := word_at msg 6,
                     TEL_bmsDataValid := True \<rparr>))"

definition parseCharger1806E5F4 :: "twai_message \<Rightarrow> ChargerCommand \<Rightarrow> ChargerCommand option" where
  "parseCharger1806E5F4 msg out =
    (if data_length_code msg < 4 then None
     else Some (out\<lparr> chargeVoltageSetpointDeciV := word_at msg 0,
                     chargeCurrentSetpointDeciA := word_at msg 2 \<rparr>))"

definition parseLbBmsE001 :: "twai_message \<Rightarrow> TelemetryData \<Rightarrow> TelemetryData option" where
  "parseLbBmsE001 msg out =
    (if data_length_code msg < 8 then None
     else let temp1 = payload msg ! 6; temp2 = payload msg ! 7
          in Some (out\<lparr> TEL_bmsCellVoltageMinDeciMv := word_at msg 0,
                        TEL_bmsCellVoltageMaxDeciMv := word_at msg 2,
                        TEL_bmsCellVoltageAvgDeciMv := word_at msg 4,
                        TEL_bmsTempHighestC := (if sint temp1 \<ge> sint temp2 then temp1 else temp2),
                        TEL_bmsTempLowestC := (if sint temp1 \<le> sint temp2 then temp1 else temp2) \<rparr>))"

text \<open>The stubs for identifiers whose meaning is not known write nothing.\<close>

definition parseLbBmsStub :: "twai_message \<Rightarrow> TelemetryData \<Rightarrow> TelemetryData option" where
  "parseLbBmsStub msg out = (if data_length_code msg > 0 then Some out else None)"

text \<open>Four consecutive cells from the four words of a frame, in tenths of a millivolt.\<close>

definition parseCellGroup :: "nat \<Rightarrow> twai_message \<Rightarrow> TelemetryData \<Rightarrow> TelemetryData option" where
  "parseCellGroup base msg out =
    (if data_length_code msg < 8 then None
     else Some (out\<lparr> TEL_bmsCellVoltages := (TEL_bmsCellVoltages out)
          [base := word_at msg 0 div 10,
           base + 1 := word_at msg 2 div 10,
           base + 2 := word_at msg 4 div 10,
           base + 3 := word_at msg 6 div 10] \<rparr>))"

definition parseLbBmsE015 where "parseLbBmsE015 = parseCellGroup 0"
definition parseLbBmsE016 where "parseLbBmsE016 = parseCellGroup 4"
definition parseLbBmsE017 where "parseLbBmsE017 = parseCellGroup 8"
definition parseLbBmsE018 where "parseLbBmsE018 = parseCellGroup 12"
definition parseLbBmsE019 where "parseLbBmsE019 = parseCellGroup 16"
definition parseLbBmsE020 where "parseLbBmsE020 = parseCellGroup 20"

datatype BmsPackVoltageFault = NO_PACK_FAULT | UNDERVOLTAGE | OVERVOLTAGE

definition checkPackVoltageFault :: "u16 \<Rightarrow> u16 \<Rightarrow> u16 \<Rightarrow> BmsPackVoltageFault" where
  "checkPackVoltageFault packVoltageDeciV criticalMinDeciV criticalMaxDeciV =
    (if packVoltageDeciV \<le> criticalMinDeciV then UNDERVOLTAGE
     else if packVoltageDeciV \<ge> criticalMaxDeciV then OVERVOLTAGE
     else NO_PACK_FAULT)"

definition isMotorStatusTimedOut :: "bool \<Rightarrow> bool \<Rightarrow> u32 \<Rightarrow> u32 \<Rightarrow> u32 \<Rightarrow> bool" where
  "isMotorStatusTimedOut hasSeen lastValid now lastTick timeoutTicks =
    (if \<not> hasSeen \<or> \<not> lastValid then False else now - lastTick \<ge> timeoutTicks)"

definition isBmsStatusTimedOut :: "bool \<Rightarrow> bool \<Rightarrow> u32 \<Rightarrow> u32 \<Rightarrow> u32 \<Rightarrow> bool" where
  "isBmsStatusTimedOut hasSeen lastValid now lastTick timeoutTicks =
    (if \<not> hasSeen \<or> \<not> lastValid then False else now - lastTick \<ge> timeoutTicks)"

subsection \<open>Freshness and debounce\<close>

definition CONFIG_FREERTOS_HZ :: u32 where [cfg]: "CONFIG_FREERTOS_HZ = 100"

definition pdMS_TO_TICKS :: "u32 \<Rightarrow> u32" where
  "pdMS_TO_TICKS ms = ms * CONFIG_FREERTOS_HZ div 1000"

record BmsFreshnessResult =
  dataValid :: bool
  timeoutActive :: bool

definition bms_id_fresh :: "bool \<Rightarrow> u32 \<Rightarrow> u32 \<Rightarrow> u32 \<Rightarrow> bool" where
  "bms_id_fresh seen now lastTick timeoutTicks =
    (if \<not> seen then False else now - lastTick < timeoutTicks)"

definition bms_evaluate_freshness ::
  "bool \<Rightarrow> u32 \<Rightarrow> bool \<Rightarrow> u32 \<Rightarrow> u32 \<Rightarrow> u32 \<Rightarrow> BmsFreshnessResult" where
  "bms_evaluate_freshness sawE000 lastE000 sawE001 lastE001 now timeoutTicks =
    (let e000Fresh = bms_id_fresh sawE000 now lastE000 timeoutTicks;
         e001Fresh = bms_id_fresh sawE001 now lastE001 timeoutTicks;
         e000Stale = sawE000 \<and> \<not> e000Fresh;
         e001Stale = sawE001 \<and> \<not> e001Fresh
     in \<lparr> dataValid = e000Fresh \<and> e001Fresh, timeoutActive = e000Stale \<or> e001Stale \<rparr>)"

definition MOTOR_ERROR_DEBOUNCE_FRAMES :: u16 where [cfg, simp]: "MOTOR_ERROR_DEBOUNCE_FRAMES = 3"

text \<open>Result and updated counter.\<close>

definition motorErrorFaultConfirmed :: "u8 \<Rightarrow> u16 \<Rightarrow> u16 \<Rightarrow> bool \<times> u16" where
  "motorErrorFaultConfirmed flags consecutiveCount debounceFrames =
    (if flags = 0 then (False, 0)
     else let c = (if consecutiveCount < 0xFFFF then consecutiveCount + 1 else consecutiveCount)
          in (c \<ge> debounceFrames, c))"

definition frameEnabled :: bool where "frameEnabled = MOTOR_DRIVER_PRESENT"

subsection \<open>Decoding\<close>

lemma word_at_unat: "unat (word_at msg i) = unat (payload msg ! i) * 256 + unat (payload msg ! (i + 1))"
  by (simp add: word_at_def be16_unat)

lemma sint_scast_mult10: "sint ((scast (w :: i16) :: i32) * 10) = sint w * 10"
proof -
  have b: "- (2 ^ 15) \<le> sint w" "sint w < 2 ^ 15"
    using sint_range_size[of w] by (auto simp: word_size)
  have e: "(scast w :: i32) * 10 = word_of_int (sint w * 10)"
    by simp
  have "sint ((scast w :: i32) * 10) = signed_take_bit 31 (sint w * 10)"
    unfolding e sint_sbintrunc' by simp
  also have "\<dots> = sint w * 10"
    using b by (intro signed_take_bit_int_eq_self) simp_all
  finally show ?thesis .
qed

text \<open>Frames as a BMS sends them.\<close>

definition word_bytes :: "u16 \<Rightarrow> u8 list" where
  "word_bytes w = [ucast (drop_bit 8 w), ucast w]"

definition frame_of_words :: "u32 \<Rightarrow> u16 \<Rightarrow> u16 \<Rightarrow> u16 \<Rightarrow> u16 \<Rightarrow> twai_message" where
  "frame_of_words ident a b c d = \<lparr> rtr = False, extd = True, can_identifier = ident,
     data_length_code = 8, payload = word_bytes a @ word_bytes b @ word_bytes c @ word_bytes d \<rparr>"

lemma frame_of_words [simp]:
  "word_at (frame_of_words i a b c d) 0 = a" "word_at (frame_of_words i a b c d) 2 = b"
  "word_at (frame_of_words i a b c d) 4 = c" "word_at (frame_of_words i a b c d) 6 = d"
  "data_length_code (frame_of_words i a b c d) = 8" "msg_wf (frame_of_words i a b c d)"
  "rtr (frame_of_words i a b c d) = False" "extd (frame_of_words i a b c d)"
  "can_identifier (frame_of_words i a b c d) = i"
  by (simp_all add: frame_of_words_def word_at_def word_bytes_def msg_wf_def)

lemma parseCellGroup_nth:
  assumes "parseCellGroup base msg out = Some out'" "base + 3 < length (TEL_bmsCellVoltages out)"
    and "i < length (TEL_bmsCellVoltages out)"
  shows "TEL_bmsCellVoltages out' ! i =
    (if base \<le> i \<and> i < base + 4 then word_at msg (2 * (i - base)) div 10 else TEL_bmsCellVoltages out ! i)"
proof -
  have "i = base \<or> i = base + 1 \<or> i = base + 2 \<or> i = base + 3 \<or> i < base \<or> i \<ge> base + 4" by arith
  then show ?thesis using assms
    by (elim disjE) (auto simp: parseCellGroup_def nth_list_update split: if_splits)
qed

lemma parseCellGroup_length:
  "parseCellGroup base msg out = Some out' \<Longrightarrow>
   length (TEL_bmsCellVoltages out') = length (TEL_bmsCellVoltages out)"
  by (auto simp: parseCellGroup_def split: if_splits)

lemma cell_raw_bound: "unat ((w :: u16) div 10) \<le> 6553"
  using u16_unat_less[of w] by (simp add: unat_div)

text \<open>Decoding of the pack frame 0xE000 is exact: for every signed current in tenths of
  an ampere and every pack voltage and state of charge, the frame that carries them
  big-endian decodes to the current in hundredths of an ampere, with no overflow at any
  value, and to the same voltage and charges; every shorter frame is rejected.\<close>

lemma e000_roundtrip:
  "(\<exists>d'. parseLbBmsE000 (frame_of_words i current packV soc1 soc2) d = Some d' \<and>
         sint (TEL_bmsCurrentCentiA d') = sint current * 10 \<and>
         TEL_bmsPackVoltageDeciV d' = packV \<and> TEL_bmsSocHundredths d' = soc1 \<and>
         TEL_bmsSoc2Hundredths d' = soc2) \<and>
   (parseLbBmsE000 msg d = None \<longleftrightarrow> data_length_code msg < 8)"
  by (simp add: parseLbBmsE000_def sint_scast_mult10)

text \<open>Decoding of a cell frame: the four cells of the group get the four words divided by
  ten (tenths of a millivolt to millivolts, so at most 6553 mV), every other cell keeps
  its value, and the number of cells does not change.\<close>

lemma cell_group_decoded:
  assumes "base \<in> {0, 4, 8, 12, 16, 20}" "tel_wf d" "i < 24"
    and "parseCellGroup base (frame_of_words ident a b c e) d = Some d'"
  shows "tel_wf d' \<and>
    TEL_bmsCellVoltages d' ! i =
      (if base \<le> i \<and> i < base + 4 then [a, b, c, e] ! (i - base) div 10 else TEL_bmsCellVoltages d ! i) \<and>
    (base \<le> i \<and> i < base + 4 \<longrightarrow> unat (TEL_bmsCellVoltages d' ! i) \<le> 6553)"
proof -
  have l: "base + 3 < length (TEL_bmsCellVoltages d)" "i < length (TEL_bmsCellVoltages d)"
    using assms(1-3) by (auto simp: tel_wf_def)
  have "i - base = 0 \<or> i - base = 1 \<or> i - base = 2 \<or> i - base = 3" if "base \<le> i" "i < base + 4"
    using that by arith
  then have "TEL_bmsCellVoltages d' ! i =
      (if base \<le> i \<and> i < base + 4 then [a, b, c, e] ! (i - base) div 10 else TEL_bmsCellVoltages d ! i)"
    using parseCellGroup_nth[OF assms(4) l] by auto
  then show ?thesis
    using parseCellGroup_length[OF assms(4)] assms(2) cell_raw_bound by (simp add: tel_wf_def)
qed

text \<open>C36. Units of the cell summary 0xE001: the decoder stores the raw tenths of a millivolt
  while the safety predicates compare the field with thresholds in millivolts.  For every
  frame of a pack whose cells are between 2.5 V and 3.65 V (raw 25000 to 36500), valid BMS
  and cell data therefore count as critical in every state, and READY is refused.\<close>

theorem e001_healthy_cells_critical:
  assumes "parseLbBmsE001 msg d = Some d'" "TEL_bmsDataValid d" "TEL_cellVoltageDataValid d"
    and "25000 \<le> word_at msg 2" "word_at msg 2 \<le> 36500"
  shows "hasCriticalCondition d' st \<and> \<not> isReadyEntryPermitted d' \<and> \<not> isResetInterlockSatisfied d' st"
proof -
  have "TEL_bmsCellVoltageMaxDeciMv d' > 3650" "TEL_bmsDataValid d'" "TEL_cellVoltageDataValid d'"
    using assms by (auto simp: parseLbBmsE001_def Let_def word_le_nat_alt word_less_nat_alt split: if_splits)
  then have "hasCriticalCondition d' s" for s
    by (auto simp: hasCriticalCondition_def)
  then show ?thesis by (simp add: reset_interlock_iff isReadyEntryPermitted_def)
qed

theorem e001_healthy_cells_critical_witness:
  "hasCriticalCondition (the (parseLbBmsE001 (frame_of_words 0xE001 33320 33333 33325 0x1919)
      (TelemetryData_zero\<lparr> TEL_bmsDataValid := True, TEL_cellVoltageDataValid := True,
         TEL_bmsPackVoltageDeciV := 800 \<rparr>))) IDLE"
  using e001_healthy_cells_critical[of "frame_of_words 0xE001 33320 33333 33325 0x1919"
      "TelemetryData_zero\<lparr> TEL_bmsDataValid := True, TEL_cellVoltageDataValid := True,
         TEL_bmsPackVoltageDeciV := 800 \<rparr>" "the (parseLbBmsE001 (frame_of_words 0xE001 33320 33333 33325 0x1919)
      (TelemetryData_zero\<lparr> TEL_bmsDataValid := True, TEL_cellVoltageDataValid := True,
         TEL_bmsPackVoltageDeciV := 800 \<rparr>))" IDLE]
  by (simp add: parseLbBmsE001_def Let_def)

subsection \<open>Debounce\<close>

text \<open>The flags of successive motor frames, and the counter after them.\<close>

definition debounce_run :: "u8 list \<Rightarrow> u16 \<Rightarrow> u16" where
  "debounce_run fs c = fold (\<lambda>f c. snd (motorErrorFaultConfirmed f c MOTOR_ERROR_DEBOUNCE_FRAMES)) fs c"

lemma debounce_count:
  "unat (debounce_run fs 0) = min 65535 (length (takeWhile (\<lambda>f. f \<noteq> 0) (rev fs)))"
proof (induction fs rule: rev_induct)
  case (snoc f fs)
  let ?c = "debounce_run fs 0"
  have step: "debounce_run (fs @ [f]) 0 = snd (motorErrorFaultConfirmed f ?c 3)"
    by (simp add: debounce_run_def)
  show ?case
  proof (cases "f = 0")
    case True
    then show ?thesis unfolding step by (simp add: motorErrorFaultConfirmed_def)
  next
    case False
    have "unat (if ?c < 0xFFFF then ?c + 1 else ?c) = min 65535 (Suc (unat ?c))"
      using u16_unat_less[of ?c] by (auto simp: word_less_nat_alt unat_word_ariths)
    then show ?thesis using False snoc by (simp add: step motorErrorFaultConfirmed_def Let_def)
  qed
qed (simp add: debounce_run_def)

lemma debounce_confirm:
  "fst (motorErrorFaultConfirmed f (debounce_run fs 0) MOTOR_ERROR_DEBOUNCE_FRAMES) \<longleftrightarrow>
   f \<noteq> 0 \<and> length fs \<ge> 2 \<and> rev fs ! 0 \<noteq> 0 \<and> rev fs ! 1 \<noteq> 0"
proof -
  let ?c = "debounce_run fs 0"
  let ?n = "length (takeWhile (\<lambda>f. f \<noteq> 0) (rev fs))"
  have "fst (motorErrorFaultConfirmed f ?c 3) \<longleftrightarrow> f \<noteq> 0 \<and> unat ?c \<ge> 2"
    using u16_unat_less[of ?c]
    by (auto simp: motorErrorFaultConfirmed_def Let_def word_le_nat_alt word_less_nat_alt unat_word_ariths)
  moreover have "unat ?c \<ge> 2 \<longleftrightarrow> ?n \<ge> 2" by (simp add: debounce_count)
  moreover have "?n \<ge> 2 \<longleftrightarrow> length (rev fs) \<ge> 2 \<and> rev fs ! 0 \<noteq> 0 \<and> rev fs ! 1 \<noteq> 0"
    by (cases "rev fs"; cases "tl (rev fs)") auto
  ultimately show ?thesis by simp
qed

text \<open>Debounce of the motor error flags: after any sequence of frames, the next frame is
  confirmed as a fault exactly when it carries an error and the two frames before it did
  too, no matter how long the run of errors is (the counter saturates and does not wrap).\<close>

lemma debounce_three_in_a_row:
  "fst (motorErrorFaultConfirmed f (debounce_run fs 0) MOTOR_ERROR_DEBOUNCE_FRAMES) \<longleftrightarrow>
   f \<noteq> 0 \<and> length fs \<ge> 2 \<and> rev fs ! 0 \<noteq> 0 \<and> rev fs ! 1 \<noteq> 0"
  by (rule debounce_confirm)

subsection \<open>Freshness\<close>

text \<open>Freshness of the BMS data across a wrap of the tick counter: if the two frames were
  last seen \<open>a\<close> and \<open>b\<close> ticks ago (less than a full turn of the counter), the data are
  valid exactly when both ages are below the timeout, and the timeout is active exactly
  when one of them is not; before both have been seen the data are never valid, and an
  identifier that was never seen never raises the timeout.\<close>

lemma freshness_wrap_safe:
  assumes "a < 2 ^ 32" "b < 2 ^ 32"
    and "r = bms_evaluate_freshness saw0 (now - of_nat a) saw1 (now - of_nat b) now timeout"
  shows "(dataValid r \<longleftrightarrow> saw0 \<and> saw1 \<and> a < unat timeout \<and> b < unat timeout) \<and>
         (timeoutActive r \<longleftrightarrow> saw0 \<and> a \<ge> unat timeout \<or> saw1 \<and> b \<ge> unat timeout)"
proof -
  have u: "n < 2 ^ 32 \<Longrightarrow> unat (now - (now - of_nat n :: u32)) = n" for n
    by (simp add: unat_of_nat)
  show ?thesis
    using u[OF assms(1)] u[OF assms(2)] unfolding assms(3)
    by (auto simp: bms_evaluate_freshness_def bms_id_fresh_def Let_def word_less_nat_alt)
qed

end
