(* ===== verification/Can_Manager.thy ===== *)
theory Can_Manager
  imports Can_Parse
begin

text \<open>
  The CAN manager lib/CanManager/CanManager.cpp: dispatch of received frames, the
  per-identifier handlers, freshness supervision and fault notification.

  The object is the record \<open>CanManager\<close> with the members of the class; \<open>s_mutex\<close> and
  \<open>CAN_eventCallback\<close> say whether the handle and the callback are set, \<open>can_events\<close>
  records the events the callback was called with and \<open>twai_calls\<close> the driver calls made
  for bus recovery.  What the TWAI driver and the tick counter return is the
  environment \<open>RxEnv\<close> of one call of \<open>processRxMessages\<close>: the alerts, the frames in
  the receive queue, each with the tick at which its handler runs, and the ticks the four
  validity updates read.  Log output is not modelled, the flags that throttle it are.
\<close>

datatype CAN_Event = CAN_NONE | CAN_FAULT_DETECTED
datatype TwaiCall = InitiateRecovery | TwaiStart
datatype CanBitrate = BR_500K | BR_125K | BR_250K

record CanManager =
  t_config :: CanBitrate
  isInitialized :: bool
  s_motorStatus :: MotorStatus
  s_telemetryData :: TelemetryData
  s_mutex :: bool
  CAN_lastMotorStatusTick :: u32
  CAN_hasSeenMotorStatus :: bool
  CAN_motorTimeoutLogged :: bool
  CAN_motorErrorConsecutive :: u16
  CAN_busOffLogged :: bool
  CAN_busRecoveredLogged :: bool
  CAN_rxQueueFullCount :: u32
  CAN_rxRemoteFrameCount :: u32
  CAN_lastRxQueueFullLogTick :: u32
  CAN_torqueSkipLogged :: bool
  CAN_lastBmsE000Tick :: u32
  CAN_hasSeen_BmsE000 :: bool
  CAN_lastBmsE001Tick :: u32
  CAN_hasSeen_BmsE001 :: bool
  CAN_bmsTimeoutLogged :: bool
  CAN_lastCellVoltageTick :: u32
  CAN_hasSeen_CellVoltage :: bool
  CAN_cellVoltageTimeoutLogged :: bool
  CAN_cellVoltageSeenMask :: u8
  CAN_cellVoltageComplete :: bool
  CAN_bmsPackFaultFlags :: u8
  s_chargerCommand :: ChargerCommand
  CAN_lastChargerTick :: u32
  CAN_hasSeenCharger :: bool
  CAN_chargerValid :: bool
  CAN_chargerStaleLogged :: bool
  CAN_eventCallback :: bool
  can_events :: "CAN_Event list"
  twai_calls :: "TwaiCall list"

definition MotorStatus_zero :: MotorStatus where
  "MotorStatus_zero = \<lparr> rpm = 0, motorVoltageDeciV = 0, errorFlags = 0, isRunning = False, isValid = False \<rparr>"

definition ChargerCommand_zero :: ChargerCommand where
  "ChargerCommand_zero = \<lparr> chargeVoltageSetpointDeciV = 0, chargeCurrentSetpointDeciA = 0 \<rparr>"

definition CanManager_new :: CanManager where
  "CanManager_new = \<lparr> t_config = BR_500K, isInitialized = False, s_motorStatus = MotorStatus_zero,
     s_telemetryData = TelemetryData_zero, s_mutex = False,
     CAN_lastMotorStatusTick = 0, CAN_hasSeenMotorStatus = False, CAN_motorTimeoutLogged = False,
     CAN_motorErrorConsecutive = 0, CAN_busOffLogged = False, CAN_busRecoveredLogged = False,
     CAN_rxQueueFullCount = 0, CAN_rxRemoteFrameCount = 0, CAN_lastRxQueueFullLogTick = 0,
     CAN_torqueSkipLogged = False, CAN_lastBmsE000Tick = 0, CAN_hasSeen_BmsE000 = False,
     CAN_lastBmsE001Tick = 0, CAN_hasSeen_BmsE001 = False, CAN_bmsTimeoutLogged = False,
     CAN_lastCellVoltageTick = 0, CAN_hasSeen_CellVoltage = False, CAN_cellVoltageTimeoutLogged = False,
     CAN_cellVoltageSeenMask = 0, CAN_cellVoltageComplete = False, CAN_bmsPackFaultFlags = 0,
     s_chargerCommand = ChargerCommand_zero, CAN_lastChargerTick = 0, CAN_hasSeenCharger = False,
     CAN_chargerValid = False, CAN_chargerStaleLogged = False, CAN_eventCallback = False,
     can_events = [], twai_calls = [] \<rparr>"

definition CAN_MOTOR_STATUS_TIMEOUT_MS :: u32 where [cfg]: "CAN_MOTOR_STATUS_TIMEOUT_MS = 1500"
definition CAN_BMS_STATUS_TIMEOUT_MS :: u32 where [cfg]: "CAN_BMS_STATUS_TIMEOUT_MS = 500"
definition CAN_CELL_VOLTAGE_TIMEOUT_MS :: u32 where [cfg]: "CAN_CELL_VOLTAGE_TIMEOUT_MS = 500"
definition CAN_CHARGER_TIMEOUT_MS :: u32 where [cfg]: "CAN_CHARGER_TIMEOUT_MS = 2000"
definition CAN_RX_STATS_LOG_INTERVAL_MS :: u32 where [cfg]: "CAN_RX_STATS_LOG_INTERVAL_MS = 1000"
definition CAN_RX_QUEUE_LEN :: nat where [cfg]: "CAN_RX_QUEUE_LEN = 32"
definition CAN_RX_DRAIN_MAX :: nat where [cfg]: "CAN_RX_DRAIN_MAX = CAN_RX_QUEUE_LEN"

definition CAN_ID_MOTOR_STATUS :: u32 where [cfg, simp]: "CAN_ID_MOTOR_STATUS = 0x200"
definition CAN_ID_LB_STD_0x000 :: u32 where [cfg, simp]: "CAN_ID_LB_STD_0x000 = 0x000"
definition CAN_ID_LB_BMS_E000 :: u32 where [cfg, simp]: "CAN_ID_LB_BMS_E000 = 0x0000E000"
definition CAN_ID_LB_BMS_E001 :: u32 where [cfg, simp]: "CAN_ID_LB_BMS_E001 = 0x0000E001"
definition CAN_ID_LB_BMS_E002 :: u32 where [cfg, simp]: "CAN_ID_LB_BMS_E002 = 0x0000E002"
definition CAN_ID_LB_BMS_E003 :: u32 where [cfg, simp]: "CAN_ID_LB_BMS_E003 = 0x0000E003"
definition CAN_ID_LB_BMS_E004 :: u32 where [cfg, simp]: "CAN_ID_LB_BMS_E004 = 0x0000E004"
definition CAN_ID_LB_BMS_E005 :: u32 where [cfg, simp]: "CAN_ID_LB_BMS_E005 = 0x0000E005"
definition CAN_ID_LB_BMS_E006 :: u32 where [cfg, simp]: "CAN_ID_LB_BMS_E006 = 0x0000E006"
definition CAN_ID_LB_BMS_E015 :: u32 where [cfg, simp]: "CAN_ID_LB_BMS_E015 = 0x0000E015"
definition CAN_ID_LB_BMS_E016 :: u32 where [cfg, simp]: "CAN_ID_LB_BMS_E016 = 0x0000E016"
definition CAN_ID_LB_BMS_E017 :: u32 where [cfg, simp]: "CAN_ID_LB_BMS_E017 = 0x0000E017"
definition CAN_ID_LB_BMS_E018 :: u32 where [cfg, simp]: "CAN_ID_LB_BMS_E018 = 0x0000E018"
definition CAN_ID_LB_BMS_E019 :: u32 where [cfg, simp]: "CAN_ID_LB_BMS_E019 = 0x0000E019"
definition CAN_ID_LB_BMS_E020 :: u32 where [cfg, simp]: "CAN_ID_LB_BMS_E020 = 0x0000E020"
definition CAN_ID_LB_BMS_E032 :: u32 where [cfg, simp]: "CAN_ID_LB_BMS_E032 = 0x0000E032"
definition CAN_ID_LB_BMS_E033 :: u32 where [cfg, simp]: "CAN_ID_LB_BMS_E033 = 0x0000E033"
definition CAN_ID_LB_CHARGER_CMD :: u32 where [cfg, simp]: "CAN_ID_LB_CHARGER_CMD = 0x1806E5F4"

definition setEventCallback :: "bool \<Rightarrow> CanManager \<Rightarrow> CanManager" where
  "setEventCallback callback m = m\<lparr> CAN_eventCallback := callback \<rparr>"

text \<open>\<open>begin\<close>: for each of the three bit rates the driver's answers to install, start and a
  one-second receive; then the answers of the fallback.  The search stops at the first rate
  at which a frame is received.\<close>

fun detectBitrate :: "(CanBitrate \<times> bool \<times> bool \<times> bool) list \<Rightarrow> CanBitrate option" where
  "detectBitrate [] = None"
| "detectBitrate ((br, installed, started, received) # rest) =
    (if installed \<and> started \<and> received then Some br else detectBitrate rest)"

definition CanManager_begin ::
  "bool \<Rightarrow> bool \<times> bool \<times> bool \<Rightarrow> bool \<times> bool \<times> bool \<Rightarrow> bool \<times> bool \<times> bool \<Rightarrow> bool \<Rightarrow> bool \<Rightarrow>
   CanManager \<Rightarrow> bool \<times> CanManager" where
  "CanManager_begin mutexCreated try500 try125 try250 fallbackInstalled fallbackStarted m =
    (if isInitialized m then (True, m)
     else if \<not> mutexCreated then (False, m\<lparr> s_mutex := False \<rparr>)
     else let m = m\<lparr> s_mutex := True \<rparr>
          in case detectBitrate [(BR_500K, try500), (BR_125K, try125), (BR_250K, try250)] of
               Some br \<Rightarrow> (True, m\<lparr> t_config := br, isInitialized := True \<rparr>)
             | None \<Rightarrow>
                 let m = m\<lparr> t_config := BR_500K \<rparr>
                 in if \<not> fallbackInstalled then (False, m\<lparr> s_mutex := False \<rparr>)
                    else if \<not> fallbackStarted then (False, m\<lparr> s_mutex := False \<rparr>)
                    else (True, m\<lparr> isInitialized := True \<rparr>))"

definition sendTorqueCommand :: "u16 \<Rightarrow> CanManager \<Rightarrow> bool \<times> CanManager" where
  "sendTorqueCommand torqueValue m =
    (if \<not> isInitialized m then (False, m)
     else if MOTOR_DRIVER_PRESENT then (False, m)
     else (False, if \<not> CAN_torqueSkipLogged m then m\<lparr> CAN_torqueSkipLogged := True \<rparr> else m))"

definition getMotorStatus :: "CanManager \<Rightarrow> MotorStatus" where "getMotorStatus m = s_motorStatus m"
definition getTelemetryData :: "CanManager \<Rightarrow> TelemetryData" where "getTelemetryData m = s_telemetryData m"

definition getChargerCommand :: "CanManager \<Rightarrow> bool \<times> ChargerCommand" where
  "getChargerCommand m =
    (if \<not> s_mutex m then (False, s_chargerCommand m) else (CAN_chargerValid m, s_chargerCommand m))"

subsection \<open>Handlers\<close>

definition notifyFaultIfNeeded :: "u8 \<Rightarrow> u8 \<Rightarrow> CanManager \<Rightarrow> CanManager" where
  "notifyFaultIfNeeded previousFlags currentFlags m =
    (if currentFlags = 0 \<or> currentFlags = previousFlags then m
     else if CAN_eventCallback m then m\<lparr> can_events := can_events m @ [CAN_FAULT_DETECTED] \<rparr>
     else m)"

definition rpmMagnitude :: "i16 \<Rightarrow> u16" where
  "rpmMagnitude r = ucast (if sint r < 0 then - (scast r :: i32) else scast r)"

definition handleMotorStatus :: "u32 \<Rightarrow> twai_message \<Rightarrow> CanManager \<Rightarrow> CanManager" where
  "handleMotorStatus tick msg m =
    (case parseMotorStatus msg MotorStatus_zero of
       None \<Rightarrow> m
     | Some parsed \<Rightarrow>
         if \<not> s_mutex m then m
         else
           let previous = TEL_motorErrorFlags (s_telemetryData m);
               (confirmed, cnt) = motorErrorFaultConfirmed (errorFlags parsed)
                                    (CAN_motorErrorConsecutive m) MOTOR_ERROR_DEBOUNCE_FRAMES;
               confirmedFlags = (if confirmed then errorFlags parsed else 0);
               m = m\<lparr> s_motorStatus := parsed, CAN_lastMotorStatusTick := tick,
                      CAN_hasSeenMotorStatus := True, CAN_motorTimeoutLogged := False,
                      CAN_motorErrorConsecutive := cnt,
                      s_telemetryData := (s_telemetryData m)\<lparr>
                        TEL_motorRpm := rpmMagnitude (rpm parsed),
                        TEL_motorVoltageDeciV := motorVoltageDeciV parsed,
                        TEL_motorErrorFlags := confirmedFlags,
                        TEL_motorDataValid := isValid parsed,
                        TEL_motorTimeoutActive := False \<rparr> \<rparr>
           in notifyFaultIfNeeded previous confirmedFlags m)"

definition packFaultFlags :: "u16 \<Rightarrow> u8" where
  "packFaultFlags packV =
    (case checkPackVoltageFault packV BMS_CRITICAL_MIN_PACK_VOLTAGE_DECI_V BMS_CRITICAL_MAX_PACK_VOLTAGE_DECI_V of
       UNDERVOLTAGE \<Rightarrow> 0x01 | OVERVOLTAGE \<Rightarrow> 0x02 | NO_PACK_FAULT \<Rightarrow> 0)"

definition handleLbBmsE000 :: "u32 \<Rightarrow> twai_message \<Rightarrow> CanManager \<Rightarrow> CanManager" where
  "handleLbBmsE000 tick msg m =
    (if \<not> s_mutex m then m
     else case parseLbBmsE000 msg TelemetryData_zero of
       None \<Rightarrow> m
     | Some parsed \<Rightarrow>
         let newFlags = packFaultFlags (TEL_bmsPackVoltageDeciV parsed);
             previous = CAN_bmsPackFaultFlags m;
             m = m\<lparr> s_telemetryData := (s_telemetryData m)\<lparr>
                      TEL_bmsPackVoltageDeciV := TEL_bmsPackVoltageDeciV parsed,
                      TEL_bmsCurrentCentiA := TEL_bmsCurrentCentiA parsed,
                      TEL_bmsSocHundredths := TEL_bmsSocHundredths parsed,
                      TEL_bmsSoc2Hundredths := TEL_bmsSoc2Hundredths parsed \<rparr>,
                    CAN_lastBmsE000Tick := tick, CAN_hasSeen_BmsE000 := True,
                    CAN_bmsPackFaultFlags := newFlags \<rparr>
         in notifyFaultIfNeeded previous newFlags m)"

definition handleLbBmsE001 :: "u32 \<Rightarrow> twai_message \<Rightarrow> CanManager \<Rightarrow> CanManager" where
  "handleLbBmsE001 tick msg m =
    (if \<not> s_mutex m then m
     else case parseLbBmsE001 msg TelemetryData_zero of
       None \<Rightarrow> m
     | Some parsed \<Rightarrow>
         m\<lparr> s_telemetryData := (s_telemetryData m)\<lparr>
              TEL_bmsCellVoltageMinDeciMv := TEL_bmsCellVoltageMinDeciMv parsed,
              TEL_bmsCellVoltageMaxDeciMv := TEL_bmsCellVoltageMaxDeciMv parsed,
              TEL_bmsCellVoltageAvgDeciMv := TEL_bmsCellVoltageAvgDeciMv parsed,
              TEL_bmsTempHighestC := TEL_bmsTempHighestC parsed,
              TEL_bmsTempLowestC := TEL_bmsTempLowestC parsed \<rparr>,
            CAN_lastBmsE001Tick := tick, CAN_hasSeen_BmsE001 := True \<rparr>)"

text \<open>The loop \<open>for (i = base; i < base + 4; i++) dst[i] = src[i]\<close>.\<close>

definition copyCells :: "nat \<Rightarrow> u16 list \<Rightarrow> u16 list \<Rightarrow> u16 list" where
  "copyCells base src dst = fold (\<lambda>i dst. dst[i := src ! i]) [base ..< base + 4] dst"

text \<open>The six cell handlers differ in the group: \<open>k\<close> is the bit of the frame in the seen mask
  and \<open>4 * k\<close> its first cell.\<close>

definition handleCellGroup ::
  "nat \<Rightarrow> (twai_message \<Rightarrow> TelemetryData \<Rightarrow> TelemetryData option) \<Rightarrow> u32 \<Rightarrow> twai_message \<Rightarrow> CanManager \<Rightarrow> CanManager" where
  "handleCellGroup k parse tick msg m =
    (case parse msg TelemetryData_zero of
       None \<Rightarrow> m
     | Some parsed \<Rightarrow>
         let cells = copyCells (4 * k) (TEL_bmsCellVoltages parsed) (TEL_bmsCellVoltages (s_telemetryData m));
             m = m\<lparr> s_telemetryData := (s_telemetryData m)\<lparr> TEL_bmsCellVoltages := cells \<rparr>,
                    CAN_lastCellVoltageTick := tick, CAN_hasSeen_CellVoltage := True,
                    CAN_cellVoltageSeenMask := CAN_cellVoltageSeenMask m OR push_bit k 1 \<rparr>
         in if CAN_cellVoltageSeenMask m = 0x3F
            then m\<lparr> CAN_cellVoltageComplete := True,
                    s_telemetryData := (s_telemetryData m)\<lparr> TEL_cellVoltageDataValid := True \<rparr> \<rparr>
            else m)"

definition handleLbBmsE015 where "handleLbBmsE015 = handleCellGroup 0 parseLbBmsE015"
definition handleLbBmsE016 where "handleLbBmsE016 = handleCellGroup 1 parseLbBmsE016"
definition handleLbBmsE017 where "handleLbBmsE017 = handleCellGroup 2 parseLbBmsE017"
definition handleLbBmsE018 where "handleLbBmsE018 = handleCellGroup 3 parseLbBmsE018"
definition handleLbBmsE019 where "handleLbBmsE019 = handleCellGroup 4 parseLbBmsE019"
definition handleLbBmsE020 where "handleLbBmsE020 = handleCellGroup 5 parseLbBmsE020"

definition handleCharger1806E5F4 :: "u32 \<Rightarrow> twai_message \<Rightarrow> CanManager \<Rightarrow> CanManager" where
  "handleCharger1806E5F4 tick msg m =
    (if \<not> s_mutex m then m
     else case parseCharger1806E5F4 msg ChargerCommand_zero of
       None \<Rightarrow> m
     | Some parsed \<Rightarrow>
         m\<lparr> s_chargerCommand := parsed, CAN_lastChargerTick := tick, CAN_hasSeenCharger := True,
            CAN_chargerValid := True, CAN_chargerStaleLogged := False \<rparr>)"

text \<open>The stub only writes a debug log.\<close>

definition handleLbBmsStub :: "twai_message \<Rightarrow> CanManager \<Rightarrow> CanManager" where
  "handleLbBmsStub msg m = m"

subsection \<open>Validity updates\<close>

definition updateMotorStatusValidity :: "u32 \<Rightarrow> CanManager \<Rightarrow> CanManager" where
  "updateMotorStatusValidity now m =
    (if \<not> s_mutex m then m
     else if isMotorStatusTimedOut (CAN_hasSeenMotorStatus m) (isValid (s_motorStatus m)) now
               (CAN_lastMotorStatusTick m) (pdMS_TO_TICKS CAN_MOTOR_STATUS_TIMEOUT_MS)
     then m\<lparr> s_motorStatus := (s_motorStatus m)\<lparr> isValid := False \<rparr>,
             s_telemetryData := (s_telemetryData m)\<lparr> TEL_motorDataValid := False,
                                                     TEL_motorTimeoutActive := True \<rparr>,
             CAN_motorTimeoutLogged := True \<rparr>
     else m)"

definition updateBmsValidity :: "u32 \<Rightarrow> CanManager \<Rightarrow> CanManager" where
  "updateBmsValidity now m =
    (if \<not> s_mutex m then m
     else let fresh = bms_evaluate_freshness (CAN_hasSeen_BmsE000 m) (CAN_lastBmsE000Tick m)
                        (CAN_hasSeen_BmsE001 m) (CAN_lastBmsE001Tick m) now
                        (pdMS_TO_TICKS CAN_BMS_STATUS_TIMEOUT_MS)
          in m\<lparr> s_telemetryData := (s_telemetryData m)\<lparr> TEL_bmsDataValid := dataValid fresh,
                                                       TEL_bmsTimeoutActive := timeoutActive fresh \<rparr>,
                CAN_bmsTimeoutLogged := timeoutActive fresh \<rparr>)"

definition updateCellVoltageValidity :: "u32 \<Rightarrow> CanManager \<Rightarrow> CanManager" where
  "updateCellVoltageValidity now m =
    (if \<not> s_mutex m then m
     else if CAN_hasSeen_CellVoltage m \<and>
             now - CAN_lastCellVoltageTick m \<ge> pdMS_TO_TICKS CAN_CELL_VOLTAGE_TIMEOUT_MS
     then let m = (if TEL_cellVoltageDataValid (s_telemetryData m)
                   then m\<lparr> s_telemetryData := (s_telemetryData m)\<lparr> TEL_cellVoltageDataValid := False \<rparr>,
                           CAN_cellVoltageComplete := False, CAN_cellVoltageSeenMask := 0 \<rparr>
                   else m)
          in m\<lparr> s_telemetryData := (s_telemetryData m)\<lparr> TEL_cellVoltageTimeoutActive := True \<rparr>,
                CAN_cellVoltageTimeoutLogged := True \<rparr>
     else if TEL_cellVoltageDataValid (s_telemetryData m)
     then m\<lparr> CAN_cellVoltageTimeoutLogged := False,
             s_telemetryData := (s_telemetryData m)\<lparr> TEL_cellVoltageTimeoutActive := False \<rparr> \<rparr>
     else m)"

definition updateChargerValidity :: "u32 \<Rightarrow> CanManager \<Rightarrow> CanManager" where
  "updateChargerValidity now m =
    (if \<not> s_mutex m then m
     else if isBmsStatusTimedOut (CAN_hasSeenCharger m) (CAN_chargerValid m) now
               (CAN_lastChargerTick m) (pdMS_TO_TICKS CAN_CHARGER_TIMEOUT_MS)
     then m\<lparr> CAN_chargerValid := False, CAN_chargerStaleLogged := True \<rparr>
     else m)"

subsection \<open>Reception\<close>

definition dispatch :: "u32 \<Rightarrow> twai_message \<Rightarrow> CanManager \<Rightarrow> CanManager" where
  "dispatch tick msg m =
    (let ident = can_identifier msg in
     if rtr msg then m\<lparr> CAN_rxRemoteFrameCount := CAN_rxRemoteFrameCount m + 1 \<rparr>
     else if extd msg then
       (if ident = CAN_ID_LB_BMS_E000 then handleLbBmsE000 tick msg m
        else if ident = CAN_ID_LB_CHARGER_CMD then handleCharger1806E5F4 tick msg m
        else if ident = CAN_ID_LB_BMS_E001 then handleLbBmsE001 tick msg m
        else if ident \<in> {CAN_ID_LB_BMS_E002, CAN_ID_LB_BMS_E003, CAN_ID_LB_BMS_E004, CAN_ID_LB_BMS_E005, CAN_ID_LB_BMS_E006} then handleLbBmsStub msg m
        else if ident = CAN_ID_LB_BMS_E015 then handleLbBmsE015 tick msg m
        else if ident = CAN_ID_LB_BMS_E016 then handleLbBmsE016 tick msg m
        else if ident = CAN_ID_LB_BMS_E017 then handleLbBmsE017 tick msg m
        else if ident = CAN_ID_LB_BMS_E018 then handleLbBmsE018 tick msg m
        else if ident = CAN_ID_LB_BMS_E019 then handleLbBmsE019 tick msg m
        else if ident = CAN_ID_LB_BMS_E020 then handleLbBmsE020 tick msg m
        else if ident \<in> {CAN_ID_LB_BMS_E032, CAN_ID_LB_BMS_E033} then handleLbBmsStub msg m
        else m)
     else
       (if ident = CAN_ID_MOTOR_STATUS then handleMotorStatus tick msg m
        else if ident = CAN_ID_LB_STD_0x000 then handleLbBmsStub msg m
        else m))"

text \<open>Answers of \<open>twai_receive\<close>.  The queue is empty when the list is.\<close>

datatype RxResult = RxOk twai_message | RxError

fun drain :: "nat \<Rightarrow> (RxResult \<times> u32) list \<Rightarrow> CanManager \<Rightarrow> CanManager" where
  "drain 0 rx m = m"
| "drain (Suc n) [] m = m"
| "drain (Suc n) ((RxError, tick) # rx) m = m"
| "drain (Suc n) ((RxOk msg, tick) # rx) m = drain n rx (dispatch tick msg m)"

record TwaiAlerts =
  ALERT_BUS_OFF :: bool
  ALERT_BUS_RECOVERED :: bool
  ALERT_RX_QUEUE_FULL :: bool

record RxEnv =
  env_alerts :: "TwaiAlerts option"
  env_alertTick :: u32
  env_rx :: "(RxResult \<times> u32) list"
  env_motorTick :: u32
  env_bmsTick :: u32
  env_cellTick :: u32
  env_chargerTick :: u32

definition handleAlerts :: "TwaiAlerts \<Rightarrow> u32 \<Rightarrow> CanManager \<Rightarrow> CanManager" where
  "handleAlerts alerts tick m =
    (let m = (if ALERT_BUS_OFF alerts
              then let m = (if \<not> CAN_busOffLogged m
                            then m\<lparr> CAN_busOffLogged := True, CAN_busRecoveredLogged := False \<rparr> else m)
                   in m\<lparr> twai_calls := twai_calls m @ [InitiateRecovery] \<rparr>
              else m);
         m = (if ALERT_BUS_RECOVERED alerts
              then let m = (if \<not> CAN_busRecoveredLogged m
                            then m\<lparr> CAN_busRecoveredLogged := True, CAN_busOffLogged := False \<rparr> else m)
                   in m\<lparr> twai_calls := twai_calls m @ [TwaiStart] \<rparr>
              else m)
     in if ALERT_RX_QUEUE_FULL alerts
        then let m = m\<lparr> CAN_rxQueueFullCount := CAN_rxQueueFullCount m + 1 \<rparr>
             in if tick - CAN_lastRxQueueFullLogTick m \<ge> pdMS_TO_TICKS CAN_RX_STATS_LOG_INTERVAL_MS
                then m\<lparr> CAN_lastRxQueueFullLogTick := tick \<rparr> else m
        else m)"

definition processRxMessages :: "RxEnv \<Rightarrow> CanManager \<Rightarrow> CanManager" where
  "processRxMessages env m =
    (if \<not> isInitialized m then m
     else let m = (case env_alerts env of None \<Rightarrow> m | Some a \<Rightarrow> handleAlerts a (env_alertTick env) m);
              m = drain CAN_RX_DRAIN_MAX (env_rx env) m;
              m = updateMotorStatusValidity (env_motorTick env) m;
              m = updateBmsValidity (env_bmsTick env) m;
              m = updateCellVoltageValidity (env_cellTick env) m
          in updateChargerValidity (env_chargerTick env) m)"

subsection \<open>The frames a call handles\<close>

text \<open>The drain loop handles the frames up to the first receive error, at most 32 of them.\<close>

fun received :: "nat \<Rightarrow> (RxResult \<times> u32) list \<Rightarrow> (twai_message \<times> u32) list" where
  "received 0 rx = []"
| "received (Suc n) [] = []"
| "received (Suc n) ((RxError, tick) # rx) = []"
| "received (Suc n) ((RxOk msg, tick) # rx) = (msg, tick) # received n rx"

definition handleAll :: "(twai_message \<times> u32) list \<Rightarrow> CanManager \<Rightarrow> CanManager" where
  "handleAll fs m = fold (\<lambda>(msg, tick). dispatch tick msg) fs m"

lemma drain_handleAll: "drain n rx m = handleAll (received n rx) m"
  by (induction n rx m rule: drain.induct) (simp_all add: handleAll_def)

lemma received_length: "length (received n rx) \<le> n"
  by (induction n rx rule: received.induct) simp_all

lemma received_all: "length fs \<le> n \<Longrightarrow> received n (map (\<lambda>(msg, t). (RxOk msg, t)) fs) = fs"
proof (induction fs arbitrary: n)
  case (Cons f fs)
  then show ?case by (cases n; cases f) auto
next
  case Nil
  then show ?case by (cases n) simp_all
qed

lemma handleAll_simps [simp]:
  "handleAll [] m = m" "handleAll ((msg, tick) # fs) m = handleAll fs (dispatch tick msg m)"
  by (simp_all add: handleAll_def)

text \<open>The updates, seen on the fields they touch.\<close>

lemma timeouts_in_ticks [simp]:
  "pdMS_TO_TICKS CAN_BMS_STATUS_TIMEOUT_MS = 50" "pdMS_TO_TICKS CAN_CELL_VOLTAGE_TIMEOUT_MS = 50"
  "pdMS_TO_TICKS CAN_MOTOR_STATUS_TIMEOUT_MS = 150" "pdMS_TO_TICKS CAN_CHARGER_TIMEOUT_MS = 200"
  by (simp_all add: pdMS_TO_TICKS_def cfg)

lemma notify_fields [simp]:
  "s_telemetryData (notifyFaultIfNeeded p c m) = s_telemetryData m"
  "s_mutex (notifyFaultIfNeeded p c m) = s_mutex m"
  "isInitialized (notifyFaultIfNeeded p c m) = isInitialized m"
  "CAN_lastBmsE000Tick (notifyFaultIfNeeded p c m) = CAN_lastBmsE000Tick m"
  "CAN_hasSeen_BmsE000 (notifyFaultIfNeeded p c m) = CAN_hasSeen_BmsE000 m"
  "CAN_lastBmsE001Tick (notifyFaultIfNeeded p c m) = CAN_lastBmsE001Tick m"
  "CAN_hasSeen_BmsE001 (notifyFaultIfNeeded p c m) = CAN_hasSeen_BmsE001 m"
  "CAN_lastCellVoltageTick (notifyFaultIfNeeded p c m) = CAN_lastCellVoltageTick m"
  "CAN_hasSeen_CellVoltage (notifyFaultIfNeeded p c m) = CAN_hasSeen_CellVoltage m"
  "CAN_cellVoltageSeenMask (notifyFaultIfNeeded p c m) = CAN_cellVoltageSeenMask m"
  "CAN_cellVoltageComplete (notifyFaultIfNeeded p c m) = CAN_cellVoltageComplete m"
  "CAN_motorErrorConsecutive (notifyFaultIfNeeded p c m) = CAN_motorErrorConsecutive m"
  "CAN_eventCallback (notifyFaultIfNeeded p c m) = CAN_eventCallback m"
  by (simp_all add: notifyFaultIfNeeded_def)

subsection \<open>Cases of the dispatcher\<close>

definition cellId :: "nat \<Rightarrow> u32" where
  "cellId k = [CAN_ID_LB_BMS_E015, CAN_ID_LB_BMS_E016, CAN_ID_LB_BMS_E017,
               CAN_ID_LB_BMS_E018, CAN_ID_LB_BMS_E019, CAN_ID_LB_BMS_E020] ! k"

definition handledIds :: "u32 set" where
  "handledIds = {CAN_ID_LB_BMS_E000, CAN_ID_LB_BMS_E001, CAN_ID_LB_CHARGER_CMD,
     CAN_ID_LB_BMS_E015, CAN_ID_LB_BMS_E016, CAN_ID_LB_BMS_E017,
     CAN_ID_LB_BMS_E018, CAN_ID_LB_BMS_E019, CAN_ID_LB_BMS_E020}"

definition ignored :: "twai_message \<Rightarrow> bool" where
  "ignored msg \<longleftrightarrow> \<not> rtr msg \<and>
     (if extd msg then can_identifier msg \<notin> handledIds else can_identifier msg \<noteq> CAN_ID_MOTOR_STATUS)"

lemmas cell_handler_defs = handleLbBmsE015_def handleLbBmsE016_def handleLbBmsE017_def handleLbBmsE018_def
  handleLbBmsE019_def handleLbBmsE020_def parseLbBmsE015_def parseLbBmsE016_def parseLbBmsE017_def
  parseLbBmsE018_def parseLbBmsE019_def parseLbBmsE020_def

lemma dispatch_cell:
  assumes "\<not> rtr msg" "extd msg" "can_identifier msg = cellId k" "k < 6"
  shows "dispatch tick msg m = handleCellGroup k (parseCellGroup (4 * k)) tick msg m"
proof -
  have "k = 0 \<or> k = 1 \<or> k = 2 \<or> k = 3 \<or> k = 4 \<or> k = 5" using assms(4) by arith
  then show ?thesis using assms(1-3)
    by (elim disjE) (simp_all add: dispatch_def cell_handler_defs cellId_def)
qed

lemma handledIds_cases:
  "i \<in> handledIds \<Longrightarrow> i = CAN_ID_LB_BMS_E000 \<or> i = CAN_ID_LB_BMS_E001 \<or> i = CAN_ID_LB_CHARGER_CMD \<or>
     (\<exists>k < 6. i = cellId k)"
proof -
  have "cellId 0 = CAN_ID_LB_BMS_E015" "cellId 1 = CAN_ID_LB_BMS_E016" "cellId 2 = CAN_ID_LB_BMS_E017"
    "cellId 3 = CAN_ID_LB_BMS_E018" "cellId 4 = CAN_ID_LB_BMS_E019" "cellId 5 = CAN_ID_LB_BMS_E020"
    by (simp_all add: cellId_def)
  moreover have "(0 :: nat) < 6" "(1 :: nat) < 6" "(2 :: nat) < 6" "(3 :: nat) < 6" "(4 :: nat) < 6" "(5 :: nat) < 6"
    by simp_all
  ultimately show "i \<in> handledIds \<Longrightarrow> ?thesis"
    unfolding handledIds_def by (metis insertE singletonD)
qed

lemma dispatch_cases:
  obtains
    (remote) "rtr msg" "dispatch tick msg m = m\<lparr> CAN_rxRemoteFrameCount := CAN_rxRemoteFrameCount m + 1 \<rparr>"
  | (e000) "\<not> rtr msg" "extd msg" "can_identifier msg = CAN_ID_LB_BMS_E000" "dispatch tick msg m = handleLbBmsE000 tick msg m"
  | (e001) "\<not> rtr msg" "extd msg" "can_identifier msg = CAN_ID_LB_BMS_E001" "dispatch tick msg m = handleLbBmsE001 tick msg m"
  | (charger) "\<not> rtr msg" "extd msg" "can_identifier msg = CAN_ID_LB_CHARGER_CMD" "dispatch tick msg m = handleCharger1806E5F4 tick msg m"
  | (cell) k where "k < 6" "\<not> rtr msg" "extd msg" "can_identifier msg = cellId k"
      "dispatch tick msg m = handleCellGroup k (parseCellGroup (4 * k)) tick msg m"
  | (motor) "\<not> rtr msg" "\<not> extd msg" "can_identifier msg = CAN_ID_MOTOR_STATUS" "dispatch tick msg m = handleMotorStatus tick msg m"
  | (other) "ignored msg" "dispatch tick msg m = m"
proof (cases "rtr msg")
  case True
  then show thesis using remote by (simp add: dispatch_def)
next
  case nr: False
  show thesis
  proof (cases "extd msg")
    case False
    then show thesis using nr motor other by (auto simp: dispatch_def ignored_def handleLbBmsStub_def)
  next
    case True
    consider "can_identifier msg = CAN_ID_LB_BMS_E000" | "can_identifier msg = CAN_ID_LB_BMS_E001"
      | "can_identifier msg = CAN_ID_LB_CHARGER_CMD" | k where "k < 6" "can_identifier msg = cellId k"
      | "can_identifier msg \<notin> handledIds"
      using handledIds_cases[of "can_identifier msg"] by blast
    then show thesis
    proof cases
      case (4 k)
      then show thesis using nr True cell dispatch_cell by blast
    next
      case 5
      then have "dispatch tick msg m = m"
        using nr True by (simp add: dispatch_def Let_def handledIds_def handleLbBmsStub_def)
      then show thesis using 5 nr True other by (simp add: ignored_def)
    qed (use nr True e000 e001 charger in \<open>auto simp: dispatch_def\<close>)
  qed
qed

lemma cellId_neq [simp]:
  assumes "k < 6"
  shows "cellId k \<noteq> 0xE000" "cellId k \<noteq> 0xE001" "cellId k \<noteq> 0x1806E5F4"
    "0xE000 \<noteq> cellId k" "0xE001 \<noteq> cellId k"
proof -
  have "k = 0 \<or> k = 1 \<or> k = 2 \<or> k = 3 \<or> k = 4 \<or> k = 5" using assms by arith
  then show "cellId k \<noteq> 0xE000" "cellId k \<noteq> 0xE001" "cellId k \<noteq> 0x1806E5F4"
    "0xE000 \<noteq> cellId k" "0xE001 \<noteq> cellId k"
    by (auto simp: cellId_def)
qed

lemma cellId_handled: "k < 6 \<Longrightarrow> cellId k \<in> handledIds"
proof -
  assume "k < 6"
  then have "k = 0 \<or> k = 1 \<or> k = 2 \<or> k = 3 \<or> k = 4 \<or> k = 5" by arith
  then show "cellId k \<in> handledIds" by (auto simp: cellId_def handledIds_def)
qed

text \<open>What each handler touches outside its own fields.\<close>

definition bmsFields :: "CanManager \<Rightarrow> bool \<times> bool \<times> u32 \<times> bool \<times> u32 \<times> bool" where
  "bmsFields m = (s_mutex m, isInitialized m, CAN_lastBmsE000Tick m, CAN_hasSeen_BmsE000 m,
     CAN_lastBmsE001Tick m, CAN_hasSeen_BmsE001 m)"

lemma bmsFields_keeps [keeps]:
  "bmsFields (handleMotorStatus tick msg m) = bmsFields m"
  "bmsFields (handleCharger1806E5F4 tick msg m) = bmsFields m"
  "bmsFields (handleCellGroup k p tick msg m) = bmsFields m"
  "bmsFields (m\<lparr> CAN_rxRemoteFrameCount := c \<rparr>) = bmsFields m"
  "bmsFields (handleAlerts al tick m) = bmsFields m"
  "bmsFields (updateMotorStatusValidity now m) = bmsFields m"
  "bmsFields (updateBmsValidity now m) = bmsFields m"
  "bmsFields (updateCellVoltageValidity now m) = bmsFields m"
  "bmsFields (updateChargerValidity now m) = bmsFields m"
  by (auto simp: bmsFields_def handleMotorStatus_def handleCharger1806E5F4_def handleCellGroup_def
      handleAlerts_def updateMotorStatusValidity_def updateBmsValidity_def updateCellVoltageValidity_def
      updateChargerValidity_def Let_def split: option.splits prod.splits)

lemma handleE000_fields:
  assumes "s_mutex m"
  shows "bmsFields (handleLbBmsE000 tick msg m) =
    (if data_length_code msg \<ge> 8
     then (True, isInitialized m, tick, True, CAN_lastBmsE001Tick m, CAN_hasSeen_BmsE001 m) else bmsFields m)"
  using assms by (simp add: bmsFields_def handleLbBmsE000_def parseLbBmsE000_def Let_def linorder_not_le[symmetric])

lemma handleE001_fields:
  assumes "s_mutex m"
  shows "bmsFields (handleLbBmsE001 tick msg m) =
    (if data_length_code msg \<ge> 8
     then (True, isInitialized m, CAN_lastBmsE000Tick m, CAN_hasSeen_BmsE000 m, tick, True) else bmsFields m)"
  using assms by (simp add: bmsFields_def handleLbBmsE001_def parseLbBmsE001_def Let_def linorder_not_le[symmetric])

text \<open>A data frame of the BMS that its parser accepts.\<close>

definition accepted :: "u32 \<Rightarrow> twai_message \<Rightarrow> bool" where
  "accepted ident msg \<longleftrightarrow> \<not> rtr msg \<and> extd msg \<and> can_identifier msg = ident \<and> data_length_code msg \<ge> 8"

definition lastTick :: "u32 \<Rightarrow> (twai_message \<times> u32) list \<Rightarrow> u32 \<Rightarrow> u32" where
  "lastTick ident fs old = fold (\<lambda>(msg, tick) acc. if accepted ident msg then tick else acc) fs old"

lemma lastTick_simps [simp]:
  "lastTick ident [] old = old"
  "lastTick ident ((msg, tick) # fs) old = lastTick ident fs (if accepted ident msg then tick else old)"
  by (simp_all add: lastTick_def)

lemma dispatch_bms:
  assumes "s_mutex m"
  shows "bmsFields (dispatch tick msg m) =
    (True, isInitialized m,
     if accepted CAN_ID_LB_BMS_E000 msg then tick else CAN_lastBmsE000Tick m,
     CAN_hasSeen_BmsE000 m \<or> accepted CAN_ID_LB_BMS_E000 msg,
     if accepted CAN_ID_LB_BMS_E001 msg then tick else CAN_lastBmsE001Tick m,
     CAN_hasSeen_BmsE001 m \<or> accepted CAN_ID_LB_BMS_E001 msg)"
  using assms
  by (cases rule: dispatch_cases[of msg tick m])
     (auto simp: keeps handleE000_fields handleE001_fields accepted_def ignored_def handledIds_def bmsFields_def[of m])

lemmas dispatch_bms_fields = dispatch_bms[unfolded bmsFields_def prod.inject]

lemma handleAll_bms:
  assumes "s_mutex m"
  shows "CAN_lastBmsE000Tick (handleAll fs m) = lastTick CAN_ID_LB_BMS_E000 fs (CAN_lastBmsE000Tick m) \<and>
    CAN_lastBmsE001Tick (handleAll fs m) = lastTick CAN_ID_LB_BMS_E001 fs (CAN_lastBmsE001Tick m) \<and>
    (CAN_hasSeen_BmsE000 (handleAll fs m) \<longleftrightarrow>
      CAN_hasSeen_BmsE000 m \<or> (\<exists>(msg, tick) \<in> set fs. accepted CAN_ID_LB_BMS_E000 msg)) \<and>
    (CAN_hasSeen_BmsE001 (handleAll fs m) \<longleftrightarrow>
      CAN_hasSeen_BmsE001 m \<or> (\<exists>(msg, tick) \<in> set fs. accepted CAN_ID_LB_BMS_E001 msg))"
  using assms
proof (induction fs arbitrary: m)
  case (Cons f fs)
  obtain msg tick where f: "f = (msg, tick)" by fastforce
  show ?case
    using Cons.IH[of "dispatch tick msg m"] dispatch_bms_fields[OF Cons.prems, of tick msg]
    by (auto simp: f)
qed simp

lemma handleAll_mutex [simp]: "s_mutex m \<Longrightarrow> s_mutex (handleAll fs m)"
proof (induction fs arbitrary: m)
  case (Cons f fs)
  then show ?case using dispatch_bms_fields[of m "snd f" "fst f"] by (cases f) simp
qed simp

subsection \<open>Properties of one reception cycle\<close>

text \<open>The manager before the validity updates of a cycle.\<close>

definition drained :: "RxEnv \<Rightarrow> CanManager \<Rightarrow> CanManager" where
  "drained env m = handleAll (received CAN_RX_DRAIN_MAX (env_rx env))
     (case env_alerts env of None \<Rightarrow> m | Some a \<Rightarrow> handleAlerts a (env_alertTick env) m)"

lemma processRx_eq:
  "isInitialized m \<Longrightarrow> processRxMessages env m =
     updateChargerValidity (env_chargerTick env) (updateCellVoltageValidity (env_cellTick env)
       (updateBmsValidity (env_bmsTick env) (updateMotorStatusValidity (env_motorTick env) (drained env m))))"
  by (simp add: processRxMessages_def drained_def drain_handleAll Let_def)

lemma updateBms_tel:
  assumes "s_mutex w"
  shows "TEL_bmsDataValid (s_telemetryData (updateBmsValidity now w)) \<longleftrightarrow>
      CAN_hasSeen_BmsE000 w \<and> CAN_hasSeen_BmsE001 w \<and>
      now - CAN_lastBmsE000Tick w < 50 \<and> now - CAN_lastBmsE001Tick w < 50"
    and "TEL_bmsTimeoutActive (s_telemetryData (updateBmsValidity now w)) \<longleftrightarrow>
      CAN_hasSeen_BmsE000 w \<and> now - CAN_lastBmsE000Tick w \<ge> 50 \<or>
      CAN_hasSeen_BmsE001 w \<and> now - CAN_lastBmsE001Tick w \<ge> 50"
  using assms
  by (auto simp: updateBmsValidity_def bms_evaluate_freshness_def bms_id_fresh_def Let_def)

lemma updates_bms_tel:
  "TEL_bmsDataValid (s_telemetryData (updateChargerValidity t1 m)) = TEL_bmsDataValid (s_telemetryData m)"
  "TEL_bmsTimeoutActive (s_telemetryData (updateChargerValidity t1 m)) = TEL_bmsTimeoutActive (s_telemetryData m)"
  "TEL_bmsDataValid (s_telemetryData (updateCellVoltageValidity t2 m)) = TEL_bmsDataValid (s_telemetryData m)"
  "TEL_bmsTimeoutActive (s_telemetryData (updateCellVoltageValidity t2 m)) = TEL_bmsTimeoutActive (s_telemetryData m)"
  by (simp_all add: updateChargerValidity_def updateCellVoltageValidity_def Let_def)

lemma bms_cycle:
  assumes "isInitialized m" "s_mutex m"
    and "fs = received CAN_RX_DRAIN_MAX (env_rx env)" "d = s_telemetryData (processRxMessages env m)"
    and "seen0 \<longleftrightarrow> CAN_hasSeen_BmsE000 m \<or> (\<exists>(msg, tick) \<in> set fs. accepted CAN_ID_LB_BMS_E000 msg)"
    and "seen1 \<longleftrightarrow> CAN_hasSeen_BmsE001 m \<or> (\<exists>(msg, tick) \<in> set fs. accepted CAN_ID_LB_BMS_E001 msg)"
    and "age0 = env_bmsTick env - lastTick CAN_ID_LB_BMS_E000 fs (CAN_lastBmsE000Tick m)"
    and "age1 = env_bmsTick env - lastTick CAN_ID_LB_BMS_E001 fs (CAN_lastBmsE001Tick m)"
  shows "length fs \<le> 32 \<and>
    (TEL_bmsDataValid d \<longleftrightarrow> seen0 \<and> seen1 \<and> age0 < 50 \<and> age1 < 50) \<and>
    (TEL_bmsTimeoutActive d \<longleftrightarrow> seen0 \<and> age0 \<ge> 50 \<or> seen1 \<and> age1 \<ge> 50)"
proof -
  let ?m0 = "case env_alerts env of None \<Rightarrow> m | Some a \<Rightarrow> handleAlerts a (env_alertTick env) m"
  let ?u = "updateMotorStatusValidity (env_motorTick env) (drained env m)"
  have b0: "bmsFields ?m0 = bmsFields m" by (simp add: keeps split: option.splits)
  then have "s_mutex ?m0" using assms(2) by (simp add: bmsFields_def)
  note h = handleAll_bms[OF this, of fs] handleAll_mutex[OF this, of fs]
  have u: "bmsFields ?u = bmsFields (handleAll fs ?m0)"
    by (simp add: keeps drained_def assms(3))
  have "TEL_bmsDataValid d = TEL_bmsDataValid (s_telemetryData (updateBmsValidity (env_bmsTick env) ?u))"
    "TEL_bmsTimeoutActive d = TEL_bmsTimeoutActive (s_telemetryData (updateBmsValidity (env_bmsTick env) ?u))"
    by (simp_all add: assms(4) processRx_eq[OF assms(1)] updates_bms_tel)
  moreover have "length fs \<le> 32" using received_length[of 32] by (simp add: assms(3) CAN_RX_DRAIN_MAX_def CAN_RX_QUEUE_LEN_def)
  moreover have "s_mutex ?u" "CAN_hasSeen_BmsE000 ?u = seen0" "CAN_hasSeen_BmsE001 ?u = seen1"
    "env_bmsTick env - CAN_lastBmsE000Tick ?u = age0" "env_bmsTick env - CAN_lastBmsE001Tick ?u = age1"
    using u h b0 by (simp_all add: bmsFields_def assms(5-8))
  ultimately show ?thesis by (simp add: updateBms_tel)
qed

text \<open>C17. Freshness of the battery data after a reception cycle, from the frames themselves: the
  data are valid exactly when a complete 0xE000 and a complete 0xE001 data frame have been
  seen, each less than 50 ticks (500 ms) before the update, and the timeout is active
  exactly when one that has been seen is older.  At most 32 frames are handled; remote,
  short and foreign frames do not count.\<close>

theorem bms_validity_from_frames:
  assumes "isInitialized m" "s_mutex m"
    and "fs = received CAN_RX_DRAIN_MAX (env_rx env)" "d = s_telemetryData (processRxMessages env m)"
    and "seen0 \<longleftrightarrow> CAN_hasSeen_BmsE000 m \<or> (\<exists>(msg, tick) \<in> set fs. accepted CAN_ID_LB_BMS_E000 msg)"
    and "seen1 \<longleftrightarrow> CAN_hasSeen_BmsE001 m \<or> (\<exists>(msg, tick) \<in> set fs. accepted CAN_ID_LB_BMS_E001 msg)"
    and "age0 = env_bmsTick env - lastTick CAN_ID_LB_BMS_E000 fs (CAN_lastBmsE000Tick m)"
    and "age1 = env_bmsTick env - lastTick CAN_ID_LB_BMS_E001 fs (CAN_lastBmsE001Tick m)"
  shows "length fs \<le> 32 \<and>
    (TEL_bmsDataValid d \<longleftrightarrow> seen0 \<and> seen1 \<and> age0 < 50 \<and> age1 < 50) \<and>
    (TEL_bmsTimeoutActive d \<longleftrightarrow> seen0 \<and> age0 \<ge> 50 \<or> seen1 \<and> age1 \<ge> 50)"
  by (rule bms_cycle[OF assms])

definition canReady :: CanManager where
  "canReady = CanManager_new\<lparr> isInitialized := True, s_mutex := True, CAN_eventCallback := True \<rparr>"

definition quietEnv :: "u32 \<Rightarrow> (twai_message \<times> u32) list \<Rightarrow> RxEnv" where
  "quietEnv now fs = \<lparr> env_alerts = None, env_alertTick = now, env_rx = map (\<lambda>(msg, t). (RxOk msg, t)) fs,
     env_motorTick = now, env_bmsTick = now, env_cellTick = now, env_chargerTick = now \<rparr>"

lemma quietEnv_simps [simp]:
  "length fs \<le> 32 \<Longrightarrow> received CAN_RX_DRAIN_MAX (env_rx (quietEnv now fs)) = fs"
  "env_alerts (quietEnv now fs) = None" "env_bmsTick (quietEnv now fs) = now"
  "env_cellTick (quietEnv now fs) = now" "env_motorTick (quietEnv now fs) = now"
  "env_chargerTick (quietEnv now fs) = now"
  using received_all[of fs 32] by (simp_all add: quietEnv_def CAN_RX_DRAIN_MAX_def CAN_RX_QUEUE_LEN_def)

theorem bms_validity_from_frames_witness:
  "TEL_bmsDataValid (s_telemetryData (processRxMessages
     (quietEnv 30 [(frame_of_words CAN_ID_LB_BMS_E000 0 768 5000 5000, 10),
                   (frame_of_words CAN_ID_LB_BMS_E001 33000 33100 33050 0x1919, 20)]) canReady))"
  using bms_validity_from_frames[OF _ _ refl refl refl refl refl refl, of canReady
     "quietEnv 30 [(frame_of_words CAN_ID_LB_BMS_E000 0 768 5000 5000, 10),
                   (frame_of_words CAN_ID_LB_BMS_E001 33000 33100 33050 0x1919, 20)]"]
  by (simp add: canReady_def accepted_def)

text \<open>Frames the manager must not react to: a remote frame, a frame of an identifier that
  is not handled, a BMS or motor frame with fewer than eight data bytes, and every charger
  frame leave the telemetry, the freshness of the battery data and the posted events as
  they are.\<close>

lemma foreign_frames_inert:
  assumes "rtr msg \<or> ignored msg \<or> data_length_code msg < 8 \<or>
           extd msg \<and> can_identifier msg = CAN_ID_LB_CHARGER_CMD"
  shows "s_telemetryData (dispatch tick msg m) = s_telemetryData m \<and>
         can_events (dispatch tick msg m) = can_events m \<and>
         bmsFields (dispatch tick msg m) = bmsFields m"
  using assms
proof (cases rule: dispatch_cases[of msg tick m])
  case (cell k)
  then have "data_length_code msg < 8" using assms cellId_handled by (auto simp: ignored_def)
  then show ?thesis using cell by (simp add: handleCellGroup_def parseCellGroup_def)
qed (auto simp: handleLbBmsE000_def handleLbBmsE001_def handleMotorStatus_def handleCharger1806E5F4_def
      parseLbBmsE000_def parseLbBmsE001_def parseMotorStatus_def parseCharger1806E5F4_def ignored_def
      handledIds_def bmsFields_def)

lemma packFaultFlags_eq:
  "packFaultFlags v = (if v \<le> 600 then 1 else if v \<ge> 876 then 2 else 0)"
  by (simp add: packFaultFlags_def checkPackVoltageFault_def)

lemma pack_fault_edge:
  assumes "s_mutex m" "CAN_eventCallback m" "\<not> rtr msg" "extd msg"
    and "can_identifier msg = CAN_ID_LB_BMS_E000" "data_length_code msg \<ge> 8"
    and "v = word_at msg 2" "m' = dispatch tick msg m"
  shows "TEL_bmsPackVoltageDeciV (s_telemetryData m') = v \<and> CAN_bmsPackFaultFlags m' = packFaultFlags v \<and>
    can_events m' = can_events m @
      (if (v \<le> 600 \<and> CAN_bmsPackFaultFlags m \<noteq> 1) \<or> (v \<ge> 876 \<and> CAN_bmsPackFaultFlags m \<noteq> 2)
       then [CAN_FAULT_DETECTED] else [])"
proof -
  have d: "dispatch tick msg m = handleLbBmsE000 tick msg m"
    using assms(3-5) by (simp add: dispatch_def Let_def)
  have "\<not> data_length_code msg < 8" using assms(6) by simp
  moreover have "\<not> (v \<le> 600 \<and> v \<ge> 876)" by (auto simp: word_le_nat_alt)
  ultimately show ?thesis
    unfolding assms(8) d using assms(1,2,7)
    by (auto simp: handleLbBmsE000_def parseLbBmsE000_def Let_def packFaultFlags_eq notifyFaultIfNeeded_def)
qed

text \<open>Pack voltage faults are reported on the edge: a complete 0xE000 frame stores the
  decoded voltage and calls the event callback, with FAULT_DETECTED and once, exactly when
  the voltage is at or below 60.0 V or at or above 87.6 V and the previous frame did not
  have the same violation.\<close>

lemma pack_fault_reported_on_edge:
  assumes "s_mutex m" "CAN_eventCallback m" "\<not> rtr msg" "extd msg"
    and "can_identifier msg = CAN_ID_LB_BMS_E000" "data_length_code msg \<ge> 8"
    and "v = word_at msg 2" "m' = dispatch tick msg m"
  shows "TEL_bmsPackVoltageDeciV (s_telemetryData m') = v \<and> CAN_bmsPackFaultFlags m' = packFaultFlags v \<and>
    can_events m' = can_events m @
      (if (v \<le> 600 \<and> CAN_bmsPackFaultFlags m \<noteq> 1) \<or> (v \<ge> 876 \<and> CAN_bmsPackFaultFlags m \<noteq> 2)
       then [CAN_FAULT_DETECTED] else [])"
  by (rule pack_fault_edge[OF assms])

text \<open>Magnitude of the motor speed: the published speed is the absolute value of the
  received one for every frame except the most negative value -32768, whose magnitude does
  not fit the 16-bit signed field and comes out as -32768 again.\<close>

lemma rpm_magnitude:
  "sint (rpmMagnitude r) = (if sint r = - 32768 then - 32768 else \<bar>sint r\<bar>)"
proof -
  have b: "- 32768 \<le> sint r" "sint r < 32768"
    using sint_range_size[of r] by (auto simp: word_size)
  have e: "rpmMagnitude r = word_of_int (\<bar>sint r\<bar>)"
  proof -
    have "rpmMagnitude r = ucast (word_of_int (\<bar>sint r\<bar>) :: i32)"
      by (simp add: rpmMagnitude_def abs_if)
    moreover have "take_bit 32 \<bar>sint r\<bar> = \<bar>sint r\<bar>" using b by (intro take_bit_int_eq_self) auto
    ultimately show ?thesis by (simp add: unsigned_of_int)
  qed
  have "sint (rpmMagnitude r) = signed_take_bit 15 (\<bar>sint r\<bar>)"
    unfolding e sint_sbintrunc' by simp
  also have "\<dots> = (if sint r = - 32768 then - 32768 else \<bar>sint r\<bar>)"
  proof (cases "sint r = - 32768")
    case False
    then show ?thesis using b by (simp add: signed_take_bit_int_eq_self abs_if)
  qed simp
  finally show ?thesis .
qed

subsection \<open>Motor error flags over a stream of frames\<close>

definition motorFrame :: "twai_message \<Rightarrow> bool" where
  "motorFrame msg \<longleftrightarrow> \<not> rtr msg \<and> \<not> extd msg \<and> can_identifier msg = CAN_ID_MOTOR_STATUS \<and> data_length_code msg \<ge> 8"

definition motorFlags :: "(twai_message \<times> u32) list \<Rightarrow> u8 list" where
  "motorFlags fs = map (\<lambda>(msg, t). payload msg ! 7 AND 0xFE) (filter (\<lambda>(msg, t). motorFrame msg) fs)"

lemma dispatch_motor:
  assumes "motorFrame msg" "s_mutex m"
    and "c = motorErrorFaultConfirmed (payload msg ! 7 AND 0xFE) (CAN_motorErrorConsecutive m) 3"
  shows "CAN_motorErrorConsecutive (dispatch tick msg m) = snd c"
    "TEL_motorErrorFlags (s_telemetryData (dispatch tick msg m)) = (if fst c then payload msg ! 7 AND 0xFE else 0)"
proof -
  have "dispatch tick msg m = handleMotorStatus tick msg m" "\<not> data_length_code msg < 8"
    using assms(1) by (auto simp: motorFrame_def dispatch_def Let_def)
  then show "CAN_motorErrorConsecutive (dispatch tick msg m) = snd c"
    "TEL_motorErrorFlags (s_telemetryData (dispatch tick msg m)) = (if fst c then payload msg ! 7 AND 0xFE else 0)"
    using assms(2,3) by (simp_all add: handleMotorStatus_def parseMotorStatus_def Let_def case_prod_beta MotorStatus_zero_def)
qed

lemma dispatch_not_motor:
  assumes "\<not> motorFrame msg"
  shows "CAN_motorErrorConsecutive (dispatch tick msg m) = CAN_motorErrorConsecutive m \<and>
    TEL_motorErrorFlags (s_telemetryData (dispatch tick msg m)) = TEL_motorErrorFlags (s_telemetryData m)"
proof (cases rule: dispatch_cases[of msg tick m])
  case motor
  then show ?thesis using assms by (auto simp: motorFrame_def handleMotorStatus_def parseMotorStatus_def)
qed (auto simp: handleLbBmsE000_def handleLbBmsE001_def handleCharger1806E5F4_def handleCellGroup_def Let_def
      split: option.splits)

lemma handleAll_append: "handleAll (fs @ gs) m = handleAll gs (handleAll fs m)"
  by (simp add: handleAll_def)

lemma motor_stream:
  assumes "s_mutex m" "CAN_motorErrorConsecutive m = 0" "TEL_motorErrorFlags (s_telemetryData m) = 0"
  shows "CAN_motorErrorConsecutive (handleAll fs m) = debounce_run (motorFlags fs) 0 \<and>
    TEL_motorErrorFlags (s_telemetryData (handleAll fs m)) =
      (let gs = rev (motorFlags fs)
       in if length gs \<ge> 3 \<and> gs ! 0 \<noteq> 0 \<and> gs ! 1 \<noteq> 0 \<and> gs ! 2 \<noteq> 0 then gs ! 0 else 0)"
proof (induction fs rule: rev_induct)
  case Nil
  then show ?case using assms by (simp add: motorFlags_def debounce_run_def)
next
  case (snoc f fs)
  obtain msg t where f: "f = (msg, t)" by fastforce
  let ?w = "handleAll fs m" and ?e = "payload msg ! 7 AND 0xFE" and ?gs = "rev (motorFlags fs)"
  have mx: "s_mutex ?w" using assms(1) by simp
  show ?case
  proof (cases "motorFrame msg")
    case False
    then show ?thesis using snoc dispatch_not_motor[OF False, of t ?w]
      by (simp add: f handleAll_append motorFlags_def)
  next
    case True
    have gs: "motorFlags (fs @ [f]) = motorFlags fs @ [?e]" using True by (simp add: f motorFlags_def)
    have "fst (motorErrorFaultConfirmed ?e (CAN_motorErrorConsecutive ?w) 3) \<longleftrightarrow>
        ?e \<noteq> 0 \<and> length ?gs \<ge> 2 \<and> ?gs ! 0 \<noteq> 0 \<and> ?gs ! 1 \<noteq> 0"
      using debounce_confirm[of ?e "motorFlags fs"] snoc by simp
    then show ?thesis
      using dispatch_motor[OF True mx refl, of t] snoc
      by (simp add: f handleAll_append gs[unfolded f] debounce_run_def numeral_3_eq_3 numeral_2_eq_2)
  qed
qed

text \<open>A motor fault needs three erroneous frames in a row: after any stream of frames, with
  frames of other identifiers interleaved at will, the published error flags are those of
  the last motor frame if the last three complete motor frames all carried an error bit
  (the running bit 0x01 is not one), and zero otherwise.\<close>

lemma motor_fault_debounced:
  assumes "s_mutex m" "CAN_motorErrorConsecutive m = 0" "TEL_motorErrorFlags (s_telemetryData m) = 0"
    and "gs = rev (motorFlags fs)"
  shows "TEL_motorErrorFlags (s_telemetryData (handleAll fs m)) =
    (if length gs \<ge> 3 \<and> gs ! 0 \<noteq> 0 \<and> gs ! 1 \<noteq> 0 \<and> gs ! 2 \<noteq> 0 then gs ! 0 else 0)"
  using motor_stream[OF assms(1-3), of fs] by (simp add: assms(4) Let_def)

definition motorErr :: "u8 \<Rightarrow> twai_message" where
  "motorErr e = \<lparr> rtr = False, extd = False, can_identifier = CAN_ID_MOTOR_STATUS, data_length_code = 8,
     payload = [0, 0, 0, 240, 0, 0, 0, e] \<rparr>"

subsection \<open>Cell voltages\<close>

lemma copyCells_unfold:
  "copyCells base src dst =
     dst[base := src ! base, Suc base := src ! Suc base, Suc (Suc base) := src ! Suc (Suc base),
         Suc (Suc (Suc base)) := src ! Suc (Suc (Suc base))]"
  by (simp add: copyCells_def upt_rec numeral_eq_Suc)

lemma copyCells_length [simp]: "length (copyCells base src dst) = length dst"
  by (simp add: copyCells_unfold)

lemma copyCells_nth:
  assumes "i < length dst"
  shows "copyCells base src dst ! i = (if base \<le> i \<and> i < base + 4 then src ! i else dst ! i)"
proof -
  have "i = base \<or> i = Suc base \<or> i = Suc (Suc base) \<or> i = Suc (Suc (Suc base)) \<or> i < base \<or> i \<ge> base + 4"
    by arith
  then show ?thesis using assms by (elim disjE) (auto simp: copyCells_unfold nth_list_update)
qed

text \<open>The bookkeeping of the six cell frames.\<close>

definition cell_inv :: "CanManager \<Rightarrow> bool" where
  "cell_inv m \<longleftrightarrow> tel_wf (s_telemetryData m) \<and>
     (TEL_cellVoltageDataValid (s_telemetryData m) \<longleftrightarrow> CAN_cellVoltageSeenMask m = 0x3F) \<and>
     CAN_cellVoltageComplete m = TEL_cellVoltageDataValid (s_telemetryData m) \<and>
     (CAN_cellVoltageSeenMask m \<noteq> 0 \<longrightarrow> CAN_hasSeen_CellVoltage m)"

definition cellPart :: "CanManager \<Rightarrow> u16 list \<times> bool \<times> u8 \<times> bool \<times> bool \<times> u32" where
  "cellPart m = (TEL_bmsCellVoltages (s_telemetryData m), TEL_cellVoltageDataValid (s_telemetryData m),
     CAN_cellVoltageSeenMask m, CAN_cellVoltageComplete m, CAN_hasSeen_CellVoltage m, CAN_lastCellVoltageTick m)"

lemma cell_inv_cong: "cellPart m = cellPart m' \<Longrightarrow> cell_inv m = cell_inv m'"
  by (simp add: cellPart_def cell_inv_def tel_wf_def)

lemma cellPart_keeps [keeps]:
  "cellPart (handleMotorStatus tick msg m) = cellPart m"
  "cellPart (handleCharger1806E5F4 tick msg m) = cellPart m"
  "cellPart (handleLbBmsE000 tick msg m) = cellPart m"
  "cellPart (handleLbBmsE001 tick msg m) = cellPart m"
  "cellPart (m\<lparr> CAN_rxRemoteFrameCount := c \<rparr>) = cellPart m"
  "cellPart (handleAlerts al tick m) = cellPart m"
  "cellPart (updateMotorStatusValidity now m) = cellPart m"
  "cellPart (updateBmsValidity now m) = cellPart m"
  "cellPart (updateChargerValidity now m) = cellPart m"
  by (auto simp: cellPart_def handleMotorStatus_def handleCharger1806E5F4_def handleLbBmsE000_def
      handleLbBmsE001_def handleAlerts_def updateMotorStatusValidity_def updateBmsValidity_def
      updateChargerValidity_def Let_def split: option.splits prod.splits)

lemma handleCellGroup_inv:
  assumes "cell_inv m" "k < 6"
  shows "cell_inv (handleCellGroup k p tick msg m)"
proof -
  have ne: "CAN_cellVoltageSeenMask m OR push_bit k 1 \<noteq> 0x3F \<Longrightarrow> CAN_cellVoltageSeenMask m \<noteq> 0x3F"
  proof (rule notI)
    assume a: "CAN_cellVoltageSeenMask m OR push_bit k 1 \<noteq> 0x3F" "CAN_cellVoltageSeenMask m = 0x3F"
    have "k = 0 \<or> k = 1 \<or> k = 2 \<or> k = 3 \<or> k = 4 \<or> k = 5" using assms(2) by arith
    then show False using a by (elim disjE) (simp_all add: push_bit_eq_mult)
  qed
  show ?thesis using assms(1) ne
    by (auto simp: handleCellGroup_def cell_inv_def tel_wf_def Let_def split: option.splits)
qed

lemma dispatch_cell_inv:
  assumes "cell_inv m"
  shows "cell_inv (dispatch tick msg m)"
proof (cases rule: dispatch_cases[of msg tick m])
  case (cell k)
  then show ?thesis using handleCellGroup_inv[OF assms] by simp
qed (use assms cellPart_keeps[THEN cell_inv_cong] in auto)

lemma handleAll_cell_inv: "cell_inv m \<Longrightarrow> cell_inv (handleAll fs m)"
proof (induction fs arbitrary: m)
  case (Cons f fs)
  then show ?case using dispatch_cell_inv by (cases f) simp
qed simp

lemma updateCell_inv: "cell_inv m \<Longrightarrow> cell_inv (updateCellVoltageValidity now m)"
  by (auto simp: updateCellVoltageValidity_def cell_inv_def tel_wf_def Let_def)

lemma updateCell_recent:
  assumes "s_mutex m" "cell_inv m" "TEL_cellVoltageDataValid (s_telemetryData (updateCellVoltageValidity now m))"
  shows "now - CAN_lastCellVoltageTick (updateCellVoltageValidity now m) < 50"
  using assms by (auto simp: updateCellVoltageValidity_def cell_inv_def Let_def split: if_splits)

lemma drained_cell_inv:
  assumes "cell_inv m"
  shows "cell_inv (drained env m)"
proof -
  have "cell_inv (case env_alerts env of None \<Rightarrow> m | Some a \<Rightarrow> handleAlerts a (env_alertTick env) m)"
    using assms cellPart_keeps(6)[THEN cell_inv_cong] by (simp split: option.splits)
  then show ?thesis by (simp add: drained_def handleAll_cell_inv)
qed

text \<open>Cell bookkeeping of a reception cycle: the telemetry keeps its 24 cells, cell data are
  flagged valid exactly while all six frames are in the seen mask, and valid cell data
  after a cycle imply that at least one cell frame arrived less than 50 ticks (500 ms)
  before the update.\<close>

lemma cell_validity_cycle:
  assumes "isInitialized m" "s_mutex m" "cell_inv m" "m' = processRxMessages env m"
  shows "cell_inv m' \<and>
    (TEL_cellVoltageDataValid (s_telemetryData m') \<longrightarrow> env_cellTick env - CAN_lastCellVoltageTick m' < 50)"
proof -
  let ?w = "updateBmsValidity (env_bmsTick env) (updateMotorStatusValidity (env_motorTick env) (drained env m))"
  let ?u = "updateCellVoltageValidity (env_cellTick env) ?w"
  have w: "cell_inv ?w"
    using drained_cell_inv[OF assms(3), of env] cellPart_keeps(7,8)[THEN cell_inv_cong] by simp
  have "s_mutex (case env_alerts env of None \<Rightarrow> m | Some a \<Rightarrow> handleAlerts a (env_alertTick env) m)"
    using assms(2) bmsFields_keeps(5)[unfolded bmsFields_def] by (simp split: option.splits)
  then have "s_mutex (drained env m)" by (simp add: drained_def)
  then have "s_mutex ?w"
    using bmsFields_keeps(6,7)[unfolded bmsFields_def prod.inject] by simp
  moreover have "cellPart m' = cellPart ?u"
    by (simp add: assms(4) processRx_eq[OF assms(1)] keeps)
  ultimately show ?thesis
    using updateCell_inv[OF w] updateCell_recent[OF _ w, of "env_cellTick env"] cell_inv_cong[of m' ?u]
    by (simp add: cellPart_def)
qed

text \<open>Reception cycles in which only the first cell frame 0xE015 arrives, every time less than
  500 ms before the update.\<close>

definition e015Cycle :: "(u32 \<times> u32 \<times> u16) \<Rightarrow> CanManager \<Rightarrow> CanManager" where
  "e015Cycle c m = (case c of (now, tick, raw) \<Rightarrow>
     processRxMessages (quietEnv now [(frame_of_words CAN_ID_LB_BMS_E015 raw raw raw raw, tick)]) m)"

lemma e015Cycle_step:
  assumes "isInitialized m" "s_mutex m" "cell_inv m" "TEL_cellVoltageDataValid (s_telemetryData m)"
    and "now - tick < 50"
  shows "isInitialized (e015Cycle (now, tick, raw) m) \<and> s_mutex (e015Cycle (now, tick, raw) m) \<and>
    cell_inv (e015Cycle (now, tick, raw) m) \<and>
    TEL_cellVoltageDataValid (s_telemetryData (e015Cycle (now, tick, raw) m)) \<and>
    drop 4 (TEL_bmsCellVoltages (s_telemetryData (e015Cycle (now, tick, raw) m))) =
      drop 4 (TEL_bmsCellVoltages (s_telemetryData m))"
proof -
  let ?f = "frame_of_words CAN_ID_LB_BMS_E015 raw raw raw raw"
  let ?e = "quietEnv now [(?f, tick)]"
  let ?d = "handleCellGroup 0 (parseCellGroup 0) tick ?f m"
  let ?w = "updateBmsValidity now (updateMotorStatusValidity now ?d)"
  have d: "drained ?e m = ?d"
    using dispatch_cell[of ?f 0 tick m] by (simp add: drained_def cellId_def)
  have eq: "e015Cycle (now, tick, raw) m = updateChargerValidity now (updateCellVoltageValidity now ?w)"
    using d by (simp add: e015Cycle_def processRx_eq[OF assms(1)])
  have b: "bmsFields (e015Cycle (now, tick, raw) m) = bmsFields m" unfolding eq by (simp add: keeps)
  have len: "length (TEL_bmsCellVoltages (s_telemetryData m)) = 24"
    using assms(3) by (simp add: cell_inv_def tel_wf_def)
  have cw: "cellPart ?w = cellPart ?d" by (simp add: keeps)
  have dd: "CAN_lastCellVoltageTick ?d = tick" "TEL_cellVoltageDataValid (s_telemetryData ?d)"
    "drop 4 (TEL_bmsCellVoltages (s_telemetryData ?d)) = drop 4 (TEL_bmsCellVoltages (s_telemetryData m))"
    using assms(4) len
    by (auto simp: handleCellGroup_def parseCellGroup_def Let_def intro!: nth_equalityI simp: copyCells_nth)
  have mu: "s_mutex ?w" using b assms(2) eq by (auto simp: bmsFields_def updateChargerValidity_def
        updateCellVoltageValidity_def Let_def split: if_splits)
  have ci: "cell_inv ?w"
    using cell_inv_cong[OF cw] handleCellGroup_inv[OF assms(3), of 0] by simp
  have cu: "cellPart (updateCellVoltageValidity now ?w) = cellPart ?w"
    using mu dd cw assms(5) by (simp add: updateCellVoltageValidity_def cellPart_def not_le[symmetric])
  then have c: "cellPart (e015Cycle (now, tick, raw) m) = cellPart ?d"
    unfolding eq by (simp add: keeps cw)
  show ?thesis
    using b assms(1,2) c dd(2,3) ci cell_inv_cong[OF cw] cell_inv_cong[OF c]
    by (simp add: bmsFields_def cellPart_def)
qed

text \<open>C39. One live cell frame keeps all cell data valid: starting from valid cell data, any number
  of cycles in which only 0xE015 arrives, each time within the timeout, leaves the valid
  flag set although the cells 4 to 23 have not been refreshed and keep their old values.\<close>

theorem stale_cells_stay_valid:
  assumes "isInitialized m" "s_mutex m" "cell_inv m" "TEL_cellVoltageDataValid (s_telemetryData m)"
    and "\<forall>(now, tick, raw) \<in> set cs. now - tick < 50"
  shows "TEL_cellVoltageDataValid (s_telemetryData (fold e015Cycle cs m)) \<and>
    drop 4 (TEL_bmsCellVoltages (s_telemetryData (fold e015Cycle cs m))) =
      drop 4 (TEL_bmsCellVoltages (s_telemetryData m))"
  using assms
proof (induction cs arbitrary: m)
  case (Cons c cs)
  obtain now tick raw where c: "c = (now, tick, raw)" by (cases c) auto
  have "now - tick < 50" using Cons.prems(5) by (simp add: c)
  note s = e015Cycle_step[OF Cons.prems(1-4) this, of raw]
  then show ?case using Cons.IH[of "e015Cycle c m"] Cons.prems(5) by (simp add: c)
qed simp

theorem stale_cells_stay_valid_witness:
  "TEL_cellVoltageDataValid (s_telemetryData (fold e015Cycle [(20, 10, 33000), (70, 60, 33000), (5000, 4990, 33000)]
     (canReady\<lparr> CAN_cellVoltageSeenMask := 0x3F, CAN_cellVoltageComplete := True, CAN_hasSeen_CellVoltage := True,
        s_telemetryData := TelemetryData_zero\<lparr> TEL_cellVoltageDataValid := True \<rparr> \<rparr>)))"
  using stale_cells_stay_valid[of "canReady\<lparr> CAN_cellVoltageSeenMask := 0x3F, CAN_cellVoltageComplete := True,
        CAN_hasSeen_CellVoltage := True,
        s_telemetryData := TelemetryData_zero\<lparr> TEL_cellVoltageDataValid := True \<rparr> \<rparr>"
      "[(20, 10, 33000), (70, 60, 33000), (5000, 4990, 33000)]"]
  by (simp add: canReady_def cell_inv_def tel_wf_def TelemetryData_zero_def)

end
