(* ===== verification/C_Printf.thy ===== *)
theory C_Printf
  imports Aks_Prelude
begin

text \<open>
  The formatted output the firmware uses: decimal integers and \<open>snprintf\<close> into a
  buffer of fixed size, with what the printed digits are, how long they get and
  that they determine the number.
\<close>

subsection \<open>Decimal printing\<close>

fun show_nat :: "nat \<Rightarrow> string" where
  "show_nat n = (if n < 10 then [char_of (48 + n)] else show_nat (n div 10) @ [char_of (48 + n mod 10)])"

declare show_nat.simps [simp del]

definition show_int :: "int \<Rightarrow> string" where
  "show_int i = (if i < 0 then CHR ''-'' # show_nat (nat (- i)) else show_nat (nat i))"

text \<open>\<open>snprintf\<close> returns the length of the whole text and stores at most one byte
  less than the size of the buffer.\<close>

definition snprintf :: "nat \<Rightarrow> string \<Rightarrow> string \<times> int" where
  "snprintf sz s = (take (sz - 1) s, int (length s))"

text \<open>The conversion \<open>%02X\<close> of a byte.\<close>

definition show_hex2 :: "u8 \<Rightarrow> string" where
  "show_hex2 b = (let d = (\<lambda>n. ''0123456789ABCDEF'' ! n) in [d (unat b div 16), d (unat b mod 16)])"

subsection \<open>Digits\<close>

definition isdigit :: "char \<Rightarrow> bool" where
  "isdigit c \<longleftrightarrow> 48 \<le> (of_char c :: nat) \<and> (of_char c :: nat) \<le> 57"

definition digits_val :: "string \<Rightarrow> int" where
  "digits_val = foldl (\<lambda>a c. 10 * a + (int (of_char c) - 48)) 0"

lemma of_char_digit: "d < 10 \<Longrightarrow> of_char (char_of (48 + d :: nat) :: char) = (48 + d :: nat)"
  by (simp add: of_char_of)

lemma show_nat_digits: "list_all isdigit (show_nat n) \<and> show_nat n \<noteq> []"
proof (induction n rule: show_nat.induct)
  case (1 n)
  have d: "isdigit (char_of (48 + n mod 10))" by (simp add: isdigit_def of_char_digit)
  show ?case using 1 d by (cases "n < 10") (auto simp: show_nat.simps[of n])
qed

lemma digits_val_snoc: "digits_val (s @ [c]) = 10 * digits_val s + (int (of_char c) - 48)"
  by (simp add: digits_val_def)

lemma digits_val_show: "digits_val (show_nat n) = int n"
proof (induction n rule: show_nat.induct)
  case (1 n)
  show ?case
  proof (cases "n < 10")
    case True
    then show ?thesis by (simp add: show_nat.simps[of n] digits_val_def of_char_digit)
  next
    case False
    have "digits_val (show_nat n) = 10 * int (n div 10) + int (n mod 10)"
      using 1 False by (simp add: show_nat.simps[of n] digits_val_snoc of_char_digit)
    then show ?thesis by presburger
  qed
qed

lemma isdigit_not [simp]: "\<not> isdigit (CHR '','')" "\<not> isdigit (CHR ''-'')" "\<not> isdigit (CHR ''+'')"
  "\<not> isdigit (CHR 0x0D)" "\<not> isdigit (CHR 0x0A)"
  by (simp_all add: isdigit_def)

lemma hd_show_nat: "isdigit (hd (show_nat n))"
  using show_nat_digits[of n] by (cases "show_nat n") auto

lemma hd_show_nat_neq [simp]: "hd (show_nat n) \<noteq> CHR ''-''" "hd (show_nat n) \<noteq> CHR ''+''"
  using hd_show_nat[of n] by (metis isdigit_not)+

lemma show_int_chars: "c \<in> set (show_int i) \<Longrightarrow> isdigit c \<or> c = CHR ''-''"
  using show_nat_digits by (auto simp: show_int_def list_all_iff split: if_splits)

lemma last_show_int: "last (show_int i) \<noteq> CHR 0x0D" "last (show_int i) \<noteq> CHR 0x0A" "show_int i \<noteq> []"
proof -
  show n: "show_int i \<noteq> []" using show_nat_digits by (simp add: show_int_def)
  have "isdigit (last (show_int i)) \<or> last (show_int i) = CHR ''-''"
    using show_int_chars last_in_set[OF n] by blast
  then show "last (show_int i) \<noteq> CHR 0x0D" "last (show_int i) \<noteq> CHR 0x0A" by auto
qed

lemma length_show_nat: "n < 10 ^ k \<Longrightarrow> 0 < k \<Longrightarrow> length (show_nat n) \<le> k"
proof (induction k arbitrary: n)
  case (Suc k)
  show ?case
  proof (cases "n < 10")
    case False
    have "n div 10 < 10 ^ k" using Suc.prems(1) by (simp add: less_mult_imp_div_less)
    moreover have "0 < k" using False Suc.prems(1) by (cases k) auto
    ultimately show ?thesis using Suc.IH[of "n div 10"] False by (simp add: show_nat.simps[of n])
  qed (simp add: show_nat.simps[of n])
qed simp

lemma length_show_pos: "0 \<le> i \<Longrightarrow> i < 10 ^ k \<Longrightarrow> 0 < k \<Longrightarrow> length (show_int i) \<le> k"
  unfolding show_int_def using length_show_nat[of "nat i" k] by (simp add: nat_less_iff)

lemma length_show_sint:
  assumes "\<bar>i\<bar> < 10 ^ k" "0 < k" shows "length (show_int i) \<le> Suc k"
  using assms length_show_nat[of "nat (- i)" k] length_show_nat[of "nat i" k]
  unfolding show_int_def by (auto simp: nat_less_iff)

end
