(* ===== verification/Display_Hmi.thy ===== *)
theory Display_Hmi
  imports Vehicle_Data C_Printf
begin

unbundle bit_operations_syntax

text \<open>
  The driver's display: the value and text conversions of lib/HMIHelpers, the
  change-only screen update and the touch command decoder of lib/DisplayHMI.
  Writes to the display's UART are collected in a list of strings; the decoder
  takes the bytes that the UART delivers during one call and returns the rest.
\<close>

subsection \<open>Conversions\<close>

datatype HMI_VcuState = HMI_INIT | HMI_IDLE | HMI_READY | HMI_DRIVE | HMI_EMERGENCY_STOP | HMI_FAULT

definition HMI_getStateText :: "HMI_VcuState \<Rightarrow> string" where
  "HMI_getStateText st =
    (case st of HMI_INIT \<Rightarrow> ''INIT'' | HMI_IDLE \<Rightarrow> ''IDLE'' | HMI_READY \<Rightarrow> ''READY''
     | HMI_DRIVE \<Rightarrow> ''DRIVE'' | HMI_EMERGENCY_STOP \<Rightarrow> ''ESTOP'' | HMI_FAULT \<Rightarrow> ''FAULT'')"

definition HMI_formatErrorText :: "u8 \<Rightarrow> nat \<Rightarrow> string" where
  "HMI_formatErrorText errorFlags outputSize = fst (snprintf outputSize (''0x'' @ show_hex2 errorFlags))"

definition HMI_getValidityText :: "bool \<Rightarrow> bool \<Rightarrow> string" where
  "HMI_getValidityText dataValid timeoutActive =
    (if timeoutActive then ''TIMEOUT'' else if dataValid then ''VALID'' else ''INVALID'')"

definition HMI_getContactorText :: "bool \<Rightarrow> string" where
  "HMI_getContactorText contactorClosed = (if contactorClosed then ''CLOSED'' else ''OPEN'')"

definition HMI_BATTERY_NO_DATA :: u8 where "HMI_BATTERY_NO_DATA = 255"
definition HMI_TEMP_NO_DATA :: i16 where "HMI_TEMP_NO_DATA = - 127"
definition HMI_CELL_VOLTAGE_NO_DATA :: u16 where "HMI_CELL_VOLTAGE_NO_DATA = 65535"
definition HMI_SOC_SOURCE_VERIFIED :: bool where "HMI_SOC_SOURCE_VERIFIED = True"
definition HMI_TEMP_SOURCE_VERIFIED :: bool where "HMI_TEMP_SOURCE_VERIFIED = True"

definition HMI_batteryDisplayValue :: "bool \<Rightarrow> bool \<Rightarrow> u16 \<Rightarrow> u8" where
  "HMI_batteryDisplayValue sourceVerified bmsDataValid socHundredths =
    (if \<not> sourceVerified \<or> \<not> bmsDataValid then HMI_BATTERY_NO_DATA
     else let percent = socHundredths div 100
          in if percent > 100 then 100 else ucast percent)"

definition HMI_temperatureDisplayValue :: "bool \<Rightarrow> bool \<Rightarrow> i16 \<Rightarrow> i16" where
  "HMI_temperatureDisplayValue sourceVerified bmsDataValid temperatureC =
    (if \<not> sourceVerified \<or> \<not> bmsDataValid then HMI_TEMP_NO_DATA else temperatureC)"

definition HMI_packVoltageToXfloat :: "u16 \<Rightarrow> int" where
  "HMI_packVoltageToXfloat packVoltageDeciV = uint packVoltageDeciV"

definition HMI_packCurrentToXfloat :: "i32 \<Rightarrow> int" where
  "HMI_packCurrentToXfloat packCurrentCentiA = sint packCurrentCentiA"

subsection \<open>Commands to the display\<close>

definition HMI_sendEndBytes :: "string list \<Rightarrow> string list" where
  "HMI_sendEndBytes uart = uart @ [[CHR 0xFF, CHR 0xFF, CHR 0xFF]]"

definition numText :: "string \<Rightarrow> int \<Rightarrow> string" where
  "numText component v = component @ ''.val='' @ show_int v"

definition txtText :: "string \<Rightarrow> string \<Rightarrow> string" where
  "txtText component v = component @ ''.txt='' @ [CHR 0x22] @ v @ [CHR 0x22]"

definition HMI_sendNumericIfChanged :: "string \<Rightarrow> int \<Rightarrow> int \<Rightarrow> bool \<Rightarrow> string list \<Rightarrow> string list" where
  "HMI_sendNumericIfChanged component v lastValue force uart =
    (if \<not> force \<and> v = lastValue then uart
     else let (cmd, commandLen) = snprintf 48 (numText component v)
          in if commandLen \<le> 0 then uart
             else HMI_sendEndBytes (uart @ [take (nat commandLen) cmd]))"

definition HMI_sendTextIfChanged :: "string \<Rightarrow> string \<Rightarrow> string \<Rightarrow> bool \<Rightarrow> string list \<Rightarrow> string list" where
  "HMI_sendTextIfChanged component v lastValue force uart =
    (if \<not> force \<and> v = lastValue then uart
     else let (cmd, commandLen) = snprintf 64 (txtText component v)
          in if commandLen \<le> 0 then uart
             else HMI_sendEndBytes (uart @ [take (nat commandLen) cmd]))"

record HMI_DisplayData =
  HMI_currentSpeed :: u16
  HMI_currentBattery :: u8
  HMI_motorRpm :: u16
  HMI_motorTorqueFeedback :: i16
  HMI_motorErrorFlags :: u8
  HMI_motorDataValid :: bool
  HMI_motorTimeoutActive :: bool
  HMI_bmsTemperatureC :: i16
  HMI_bmsPackVoltageDeciV :: u16
  HMI_bmsPackCurrentCentiA :: i32
  HMI_contactorClosed :: bool
  HMI_vcuState :: HMI_VcuState

definition HMI_DisplayData_zero :: HMI_DisplayData where
  "HMI_DisplayData_zero = \<lparr> HMI_currentSpeed = 0, HMI_currentBattery = 0, HMI_motorRpm = 0,
     HMI_motorTorqueFeedback = 0, HMI_motorErrorFlags = 0, HMI_motorDataValid = False,
     HMI_motorTimeoutActive = False, HMI_bmsTemperatureC = 0, HMI_bmsPackVoltageDeciV = 0,
     HMI_bmsPackCurrentCentiA = 0, HMI_contactorClosed = False, HMI_vcuState = HMI_INIT \<rparr>"

record DisplayHMI =
  HMI_isInitialized :: bool
  HMI_hasCachedScreen :: bool
  HMI_lastScreenData :: HMI_DisplayData
  rxState :: nat
  pendingCmd :: u8

definition DisplayHMI_new :: DisplayHMI where
  "DisplayHMI_new = \<lparr> HMI_isInitialized = False, HMI_hasCachedScreen = False,
     HMI_lastScreenData = HMI_DisplayData_zero, rxState = 0, pendingCmd = 0 \<rparr>"

text \<open>\<open>begin\<close>: the answers of the three UART set-up calls decide; on success the display is
  told to send no acknowledgements.  Bytes received so far are drained.\<close>

definition DisplayHMI_begin ::
  "bool \<Rightarrow> bool \<Rightarrow> bool \<Rightarrow> DisplayHMI \<times> string list \<Rightarrow> bool \<times> DisplayHMI \<times> string list" where
  "DisplayHMI_begin paramOk pinOk installOk hu =
    (let (h, uart) = hu
     in if HMI_isInitialized h then (True, h, uart)
        else if \<not> paramOk then (False, h, uart)
        else if \<not> pinOk then (False, h, uart)
        else if \<not> installOk then (False, h, uart)
        else (True, h\<lparr> HMI_isInitialized := True \<rparr>, HMI_sendEndBytes (uart @ [''bkcmd=0''])))"

definition updateScreen :: "HMI_DisplayData \<Rightarrow> DisplayHMI \<times> string list \<Rightarrow> DisplayHMI \<times> string list" where
  "updateScreen d hu =
    (let (h, uart) = hu
     in if \<not> HMI_isInitialized h then (h, uart)
        else
          let force = (\<not> HMI_hasCachedScreen h);
              l = HMI_lastScreenData h;
              currentErrorText = HMI_formatErrorText (HMI_motorErrorFlags d) 16;
              lastErrorText = HMI_formatErrorText (HMI_motorErrorFlags l) 16;
              uart = HMI_sendNumericIfChanged ''speed'' (uint (HMI_currentSpeed d)) (uint (HMI_currentSpeed l)) force uart;
              uart = HMI_sendNumericIfChanged ''bat'' (uint (HMI_currentBattery d)) (uint (HMI_currentBattery l)) force uart;
              uart = HMI_sendNumericIfChanged ''rpm'' (uint (HMI_motorRpm d)) (uint (HMI_motorRpm l)) force uart;
              uart = HMI_sendNumericIfChanged ''torque'' (sint (HMI_motorTorqueFeedback d)) (sint (HMI_motorTorqueFeedback l)) force uart;
              uart = HMI_sendNumericIfChanged ''temp'' (sint (HMI_bmsTemperatureC d)) (sint (HMI_bmsTemperatureC l)) force uart;
              uart = HMI_sendNumericIfChanged ''packv'' (HMI_packVoltageToXfloat (HMI_bmsPackVoltageDeciV d))
                       (HMI_packVoltageToXfloat (HMI_bmsPackVoltageDeciV l)) force uart;
              uart = HMI_sendNumericIfChanged ''packa'' (HMI_packCurrentToXfloat (HMI_bmsPackCurrentCentiA d))
                       (HMI_packCurrentToXfloat (HMI_bmsPackCurrentCentiA l)) force uart;
              uart = HMI_sendTextIfChanged ''state'' (HMI_getStateText (HMI_vcuState d))
                       (HMI_getStateText (HMI_vcuState l)) force uart;
              uart = HMI_sendTextIfChanged ''motorErr'' currentErrorText lastErrorText force uart;
              uart = HMI_sendTextIfChanged ''valid'' (HMI_getValidityText (HMI_motorDataValid d) (HMI_motorTimeoutActive d))
                       (HMI_getValidityText (HMI_motorDataValid l) (HMI_motorTimeoutActive l)) force uart;
              uart = HMI_sendTextIfChanged ''contactor'' (HMI_getContactorText (HMI_contactorClosed d))
                       (HMI_getContactorText (HMI_contactorClosed l)) force uart
          in (h\<lparr> HMI_lastScreenData := d, HMI_hasCachedScreen := True \<rparr>, uart))"

subsection \<open>Touch commands\<close>

definition HMI_HEADER :: u8 where "HMI_HEADER = 0x5A"
definition HMI_CMD_START :: u8 where "HMI_CMD_START = 1"
definition HMI_CMD_RESET :: u8 where "HMI_CMD_RESET = 2"
definition HMI_CMD_EMERGENCY_STOP :: u8 where "HMI_CMD_EMERGENCY_STOP = 3"
definition HMI_CMD_DRIVE_ENABLE :: u8 where "HMI_CMD_DRIVE_ENABLE = 4"

fun touchLoop :: "u8 list \<Rightarrow> DisplayHMI \<Rightarrow> u8 option \<times> u8 list \<times> DisplayHMI" where
  "touchLoop [] h = (None, [], h)"
| "touchLoop (rxByte # rest) h =
    (if rxByte = 0xFF \<or> rxByte = 0x00 then touchLoop rest (h\<lparr> rxState := 0 \<rparr>)
     else if rxState h = 0 then touchLoop rest (if rxByte = HMI_HEADER then h\<lparr> rxState := 1 \<rparr> else h)
     else if rxState h = 1 then touchLoop rest (h\<lparr> pendingCmd := rxByte, rxState := 2 \<rparr>)
     else if rxState h = 2 then
       (if rxByte = NOT (pendingCmd h) then (Some (pendingCmd h), rest, h\<lparr> rxState := 0 \<rparr>)
        else touchLoop rest (h\<lparr> rxState := 0 \<rparr>))
     else touchLoop rest h)"

definition readTouchCommand :: "u8 list \<Rightarrow> DisplayHMI \<Rightarrow> u8 option \<times> u8 list \<times> DisplayHMI" where
  "readTouchCommand rx h = (if \<not> HMI_isInitialized h then (None, rx, h) else touchLoop rx h)"

subsection \<open>The decoder\<close>

lemma not_header [simp]: "HMI_HEADER \<noteq> 0xFF" "HMI_HEADER \<noteq> 0" "NOT HMI_HEADER = 0xA5"
  by (simp_all add: HMI_HEADER_def)

lemma not_byte [simp]: "NOT (c :: u8) = 0xFF \<longleftrightarrow> c = 0" "NOT (c :: u8) = 0 \<longleftrightarrow> c = 0xFF"
proof -
  have n: "NOT c = d \<longleftrightarrow> c = NOT d" for d by auto
  have "NOT (0xFF :: u8) = 0" "NOT (0 :: u8) = 0xFF" by simp_all
  then show "NOT (c :: u8) = 0xFF \<longleftrightarrow> c = 0" "NOT (c :: u8) = 0 \<longleftrightarrow> c = 0xFF" by (metis n)+
qed

lemma rxState_same [simp]: "rxState h = 0 \<Longrightarrow> h\<lparr> rxState := 0 \<rparr> = h"
  by (cases h) simp

lemma touchLoop_skip:
  "rxState h = 0 \<Longrightarrow> HMI_HEADER \<notin> set pre \<Longrightarrow> touchLoop (pre @ rest) h = touchLoop rest h"
  by (induction pre) auto

lemma touchLoop_frame:
  "rxState h = 0 \<Longrightarrow> c \<noteq> 0 \<Longrightarrow> c \<noteq> 0xFF \<Longrightarrow>
   touchLoop (HMI_HEADER # c # NOT c # rest) h = (Some c, rest, h\<lparr> pendingCmd := c, rxState := 0 \<rparr>)"
  by simp

text \<open>What the decoder still has to see, by its state.\<close>

definition awaited :: "DisplayHMI \<Rightarrow> u8 \<Rightarrow> u8 list \<Rightarrow> bool" where
  "awaited h c used \<longleftrightarrow>
     (\<exists>pre. used = pre @ [HMI_HEADER, c, NOT c]) \<or>
     rxState h = 1 \<and> used = [c, NOT c] \<or>
     rxState h = 2 \<and> c = pendingCmd h \<and> used = [NOT c]"

text \<open>One byte: either a command is complete or the decoder moves on.\<close>

definition touchStep :: "u8 \<Rightarrow> DisplayHMI \<Rightarrow> u8 + DisplayHMI" where
  "touchStep b h =
    (if b = 0xFF \<or> b = 0 then Inr (h\<lparr> rxState := 0 \<rparr>)
     else if rxState h = 0 then Inr (if b = HMI_HEADER then h\<lparr> rxState := 1 \<rparr> else h)
     else if rxState h = 1 then Inr (h\<lparr> pendingCmd := b, rxState := 2 \<rparr>)
     else if rxState h = 2 then
       (if b = NOT (pendingCmd h) then Inl (pendingCmd h) else Inr (h\<lparr> rxState := 0 \<rparr>))
     else Inr h)"

lemma touchLoop_Cons:
  "touchLoop (b # rx) h =
    (case touchStep b h of Inl c \<Rightarrow> (Some c, rx, h\<lparr> rxState := 0 \<rparr>) | Inr g \<Rightarrow> touchLoop rx g)"
  by (simp add: touchStep_def)

lemma awaited_step: "touchStep b h = Inr g \<Longrightarrow> awaited g c used \<Longrightarrow> awaited h c (b # used)"
  by (auto simp: touchStep_def awaited_def intro: exI[of _ "b # _"] split: if_splits)

lemma awaited_done: "touchStep b h = Inl c \<Longrightarrow> awaited h c [b]"
  by (auto simp: touchStep_def awaited_def split: if_splits)

lemma touchLoop_sound:
  "touchLoop rx h = (Some c, rest, h') \<Longrightarrow> \<exists>used. rx = used @ rest \<and> awaited h c used \<and> rxState h' = 0"
proof (induction rx arbitrary: h)
  case (Cons b rx)
  show ?case
  proof (cases "touchStep b h")
    case (Inl d)
    then have "rx = rest" "c = d" "rxState h' = 0" using Cons.prems by (auto simp del: touchLoop.simps simp: touchLoop_Cons)
    then show ?thesis using awaited_done Inl by (intro exI[of _ "[b]"]) simp
  next
    case (Inr g)
    then have "touchLoop rx g = (Some c, rest, h')"
      using Cons.prems by (simp del: touchLoop.simps add: touchLoop_Cons)
    from Cons.IH[OF this] obtain used where "rx = used @ rest" "awaited g c used" "rxState h' = 0" by blast
    then show ?thesis using awaited_step Inr by (intro exI[of _ "b # used"]) simp
  qed
qed simp

text \<open>C28. Touch commands are authentic: from the idle state of the decoder, a command is
  reported only when the bytes consumed end in the header, the command and its complement,
  and the decoder is idle again afterwards; the bytes behind the frame stay for the next call.\<close>

theorem touch_command_authentic:
  assumes "rxState h = 0" "readTouchCommand rx h = (Some c, rest, h')"
  shows "\<exists>pre. rx = pre @ [HMI_HEADER, c, NOT c] @ rest \<and> rxState h' = 0"
  using touchLoop_sound[of rx h c rest h'] assms
  by (auto simp: readTouchCommand_def awaited_def split: if_splits)

definition readyHmi :: DisplayHMI where
  "readyHmi = DisplayHMI_new\<lparr> HMI_isInitialized := True \<rparr>"

lemma readyHmi_fields [simp]: "HMI_isInitialized readyHmi" "rxState readyHmi = 0" "\<not> HMI_hasCachedScreen readyHmi"
  by (simp_all add: readyHmi_def DisplayHMI_new_def)

theorem touch_command_authentic_witness:
  "\<exists>h' pre. readTouchCommand [7, 0x5A, 3, 0xFC, 9] readyHmi = (Some 3, [9], h') \<and> rxState h' = 0 \<and>
     [7, 0x5A, 3, 0xFC, 9] = pre @ [HMI_HEADER, 3, NOT 3] @ [9]"
proof -
  have r: "readTouchCommand [7, 0x5A, 3, 0xFC, 9] readyHmi = (Some 3, [9], readyHmi\<lparr> pendingCmd := 3, rxState := 0 \<rparr>)"
    by (simp add: readTouchCommand_def HMI_HEADER_def)
  then show ?thesis using touch_command_authentic[OF _ r] by auto
qed

text \<open>Touch commands arrive: an idle decoder reports the command of a well-formed frame,
  whatever bytes other than the header precede it.\<close>

lemma touch_command_decoded:
  assumes "HMI_isInitialized h" "rxState h = 0" "HMI_HEADER \<notin> set pre" "c \<noteq> 0" "c \<noteq> 0xFF"
  shows "\<exists>h'. readTouchCommand (pre @ [HMI_HEADER, c, NOT c] @ rest) h = (Some c, rest, h') \<and>
              rxState h' = 0 \<and> HMI_isInitialized h'"
  using assms touchLoop_skip[of h pre "[HMI_HEADER, c, NOT c] @ rest"] by (simp add: readTouchCommand_def)

text \<open>A stray header byte swallows the command behind it: the decoder takes the true header
  for the command, rejects the command as its checksum and drops the frame, an emergency stop
  included.\<close>

lemma stray_header_swallows_command:
  assumes "HMI_isInitialized h" "rxState h = 0" "c \<noteq> 0xA5"
  shows "\<exists>h'. readTouchCommand ([HMI_HEADER] @ [HMI_HEADER, c, NOT c]) h = (None, [], h') \<and> rxState h' = 0"
proof -
  have "NOT c = HMI_HEADER \<longleftrightarrow> c = 0xA5" by (metis bit.double_compl not_header(3))
  then show ?thesis using assms by (simp add: readTouchCommand_def)
qed

subsection \<open>The screen\<close>

text \<open>The eleven commands that a full refresh of the screen sends, by component, and what the
  last command for a component was.\<close>

definition screenCommands :: "HMI_DisplayData \<Rightarrow> (string \<times> string) list" where
  "screenCommands d =
    [(''speed'', numText ''speed'' (uint (HMI_currentSpeed d))),
     (''bat'', numText ''bat'' (uint (HMI_currentBattery d))),
     (''rpm'', numText ''rpm'' (uint (HMI_motorRpm d))),
     (''torque'', numText ''torque'' (sint (HMI_motorTorqueFeedback d))),
     (''temp'', numText ''temp'' (sint (HMI_bmsTemperatureC d))),
     (''packv'', numText ''packv'' (HMI_packVoltageToXfloat (HMI_bmsPackVoltageDeciV d))),
     (''packa'', numText ''packa'' (HMI_packCurrentToXfloat (HMI_bmsPackCurrentCentiA d))),
     (''state'', txtText ''state'' (HMI_getStateText (HMI_vcuState d))),
     (''motorErr'', txtText ''motorErr'' (''0x'' @ show_hex2 (HMI_motorErrorFlags d))),
     (''valid'', txtText ''valid'' (HMI_getValidityText (HMI_motorDataValid d) (HMI_motorTimeoutActive d))),
     (''contactor'', txtText ''contactor'' (HMI_getContactorText (HMI_contactorClosed d)))]"

definition addresses :: "string \<Rightarrow> string \<Rightarrow> bool" where
  "addresses n w \<longleftrightarrow> take (Suc (length n)) w = n @ ''.''"

fun shown :: "string \<Rightarrow> string list \<Rightarrow> string option" where
  "shown n [] = None"
| "shown n (w # ws) = (case shown n ws of Some x \<Rightarrow> Some x | None \<Rightarrow> if addresses n w then Some w else None)"

lemma shown_append: "shown n (ws @ [w]) = (if addresses n w then Some w else shown n ws)"
  by (induction ws) (auto split: option.splits)

definition plainName :: "string \<Rightarrow> bool" where
  "plainName n \<longleftrightarrow> n \<noteq> [] \<and> CHR ''.'' \<notin> set n \<and> CHR 0xFF \<notin> set n"

lemma addresses_iff:
  "plainName n \<Longrightarrow> plainName m \<Longrightarrow> addresses n (m @ CHR ''.'' # x) \<longleftrightarrow> n = m"
  unfolding plainName_def addresses_def
proof (induction n arbitrary: m)
  case (Cons a n)
  show ?case
  proof (cases m)
    case (Cons b m')
    show ?thesis
    proof (cases "n = [] \<or> m' = []")
      case True
      then show ?thesis using Cons.prems Cons by (cases n; cases m') auto
    next
      case False
      then show ?thesis using Cons.IH[of m'] Cons.prems Cons by auto
    qed
  qed (use Cons.prems in auto)
qed simp

lemma shown_end: "plainName n \<Longrightarrow> shown n (HMI_sendEndBytes ws) = shown n ws"
  by (cases n) (auto simp: HMI_sendEndBytes_def shown_append addresses_def plainName_def)

text \<open>A send either writes its whole command and the end bytes or nothing.\<close>

definition emitIf :: "(string \<times> string) \<times> bool \<Rightarrow> string list \<Rightarrow> string list" where
  "emitIf c uart = (if snd c then HMI_sendEndBytes (uart @ [snd (fst c)]) else uart)"

lemma send_emitIf:
  "length (numText n v) < 48 \<Longrightarrow>
   HMI_sendNumericIfChanged n v lv force uart = emitIf ((n, numText n v), force \<or> v \<noteq> lv) uart"
  "length (txtText n t) < 64 \<Longrightarrow>
   HMI_sendTextIfChanged n t lt force uart = emitIf ((n, txtText n t), force \<or> t \<noteq> lt) uart"
  by (auto simp: HMI_sendNumericIfChanged_def HMI_sendTextIfChanged_def emitIf_def snprintf_def
      numText_def txtText_def)

definition commandOf :: "string \<times> string \<Rightarrow> bool" where
  "commandOf c \<longleftrightarrow> plainName (fst c) \<and> (\<exists>x. snd c = fst c @ CHR ''.'' # x)"

lemma shown_emitIf:
  "commandOf (m, w) \<Longrightarrow> plainName n \<Longrightarrow>
   shown n (emitIf ((m, w), b) uart) = (if n = m \<and> b then Some w else shown n uart)"
  using addresses_iff by (auto simp: emitIf_def commandOf_def shown_end shown_append)

lemma shown_other:
  "length cs = length bs \<Longrightarrow> list_all commandOf cs \<Longrightarrow> plainName n \<Longrightarrow> n \<notin> fst ` set cs \<Longrightarrow>
   shown n (fold emitIf (zip cs bs) uart) = shown n uart"
  by (induction cs bs arbitrary: uart rule: list_induct2) (auto simp: shown_emitIf)

lemma shown_fold:
  assumes "length cs = length bs" "list_all commandOf cs" "distinct (map fst cs)" "i < length cs"
  shows "shown (fst (cs ! i)) (fold emitIf (zip cs bs) uart) =
         (if bs ! i then Some (snd (cs ! i)) else shown (fst (cs ! i)) uart)"
  using assms
proof (induction cs bs arbitrary: i uart rule: list_induct2)
  case (Cons c cs b bs)
  obtain m w where c: "c = (m, w)" by fastforce
  have p: "commandOf (m, w)" "plainName m" using Cons.prems(1) by (auto simp: c commandOf_def)
  show ?case
  proof (cases i)
    case 0
    have "shown m (fold emitIf (zip cs bs) u) = shown m u" for u
      using shown_other[OF Cons.hyps] Cons.prems p by (simp add: c)
    then show ?thesis using shown_emitIf[OF p] by (simp add: c 0)
  next
    case (Suc j)
    have j: "j < length cs" using Cons.prems(3) Suc by simp
    have "commandOf (cs ! j)" using Cons.prems(1) j by (simp add: list_all_iff)
    moreover have "fst (cs ! j) \<noteq> m" using Cons.prems(2) j c by force
    ultimately have "shown (fst (cs ! j)) (emitIf (c, b) u) = shown (fst (cs ! j)) u" for u
      using shown_emitIf[OF p(1)] by (simp add: c commandOf_def)
    then show ?thesis using Cons.IH[OF _ _ j] Cons.prems by (simp add: Suc)
  qed
qed simp

lemma numText_length: "\<bar>v\<bar> < 10000000000 \<Longrightarrow> length c \<le> 30 \<Longrightarrow> length (numText c v) < 48"
  using length_show_sint[of v 10] by (simp add: numText_def)

lemma uint_small: "uint (w8 :: u8) < 10000000000" "uint (w16 :: u16) < 10000000000"
  using uint_lt2p[of w8] uint_lt2p[of w16] by simp_all

lemma sint_small: "\<bar>sint (w16 :: i16)\<bar> < 10000000000" "\<bar>sint (w32 :: i32)\<bar> < 10000000000"
  using sint_greater_eq[of w16] sint_less[of w16] sint_greater_eq[of w32] sint_less[of w32] by simp_all

lemma texts_short:
  "length (HMI_getStateText st) \<le> 5" "length (HMI_getValidityText a b) \<le> 7" "length (HMI_getContactorText c) \<le> 6"
  "HMI_formatErrorText f 16 = ''0x'' @ show_hex2 f" "length (show_hex2 f) = 2"
  by (auto simp: HMI_getStateText_def HMI_getValidityText_def HMI_getContactorText_def HMI_formatErrorText_def
      snprintf_def show_hex2_def Let_def split: HMI_VcuState.splits)

lemma txtText_length: "length v \<le> 8 \<Longrightarrow> length c \<le> 30 \<Longrightarrow> length (txtText c v) < 64"
  by (simp add: txtText_def)

lemma plain_names [simp]:
  "plainName ''speed''" "plainName ''bat''" "plainName ''rpm''" "plainName ''torque''" "plainName ''temp''"
  "plainName ''packv''" "plainName ''packa''" "plainName ''state''" "plainName ''motorErr''"
  "plainName ''valid''" "plainName ''contactor''"
  by (simp_all add: plainName_def)

text \<open>Which of the eleven fields differ, as the update decides it.\<close>

definition changes :: "HMI_DisplayData \<Rightarrow> HMI_DisplayData \<Rightarrow> bool list" where
  "changes d l =
    [uint (HMI_currentSpeed d) \<noteq> uint (HMI_currentSpeed l),
     uint (HMI_currentBattery d) \<noteq> uint (HMI_currentBattery l),
     uint (HMI_motorRpm d) \<noteq> uint (HMI_motorRpm l),
     sint (HMI_motorTorqueFeedback d) \<noteq> sint (HMI_motorTorqueFeedback l),
     sint (HMI_bmsTemperatureC d) \<noteq> sint (HMI_bmsTemperatureC l),
     uint (HMI_bmsPackVoltageDeciV d) \<noteq> uint (HMI_bmsPackVoltageDeciV l),
     sint (HMI_bmsPackCurrentCentiA d) \<noteq> sint (HMI_bmsPackCurrentCentiA l),
     HMI_getStateText (HMI_vcuState d) \<noteq> HMI_getStateText (HMI_vcuState l),
     ''0x'' @ show_hex2 (HMI_motorErrorFlags d) \<noteq> ''0x'' @ show_hex2 (HMI_motorErrorFlags l),
     HMI_getValidityText (HMI_motorDataValid d) (HMI_motorTimeoutActive d) \<noteq>
       HMI_getValidityText (HMI_motorDataValid l) (HMI_motorTimeoutActive l),
     HMI_getContactorText (HMI_contactorClosed d) \<noteq> HMI_getContactorText (HMI_contactorClosed l)]"

lemma updateScreen_fold:
  assumes "HMI_isInitialized h"
  shows "updateScreen d (h, uart) =
    (h\<lparr> HMI_lastScreenData := d, HMI_hasCachedScreen := True \<rparr>,
     fold emitIf (zip (screenCommands d)
       (map (\<lambda>b. \<not> HMI_hasCachedScreen h \<or> b) (changes d (HMI_lastScreenData h)))) uart)"
proof -
  have t: "length (HMI_getStateText st) \<le> 8" "length (HMI_getValidityText a b) \<le> 8"
    "length (HMI_getContactorText c) \<le> 8" "length (''0x'' @ show_hex2 f) \<le> 8" for st a b c f
    using texts_short(1)[of st] texts_short(2)[of a b] texts_short(3)[of c] texts_short(5)[of f] by auto
  note n = send_emitIf(1)[OF numText_length] and x = send_emitIf(2)[OF txtText_length]
  show ?thesis
    using assms
    by (simp add: updateScreen_def Let_def n x t uint_small sint_small texts_short(4,5)
        HMI_packVoltageToXfloat_def HMI_packCurrentToXfloat_def screenCommands_def changes_def)
qed

lemma screenCommands_ok:
  "list_all commandOf (screenCommands d)" "distinct (map fst (screenCommands d))"
  "length (screenCommands d) = 11" "length (changes d l) = 11"
  "map fst (screenCommands d) = map fst (screenCommands l)"
  by (simp_all add: screenCommands_def commandOf_def numText_def txtText_def changes_def)

lemma unchanged_same:
  assumes "i < 11" "\<not> changes d l ! i" shows "screenCommands d ! i = screenCommands l ! i"
proof -
  have "\<forall>i \<in> set [0..<11]. changes d l ! i \<or> screenCommands d ! i = screenCommands l ! i"
    by (simp add: upt_rec changes_def screenCommands_def HMI_packVoltageToXfloat_def HMI_packCurrentToXfloat_def)
  then show ?thesis using assms by auto
qed

definition mirrors :: "HMI_DisplayData \<Rightarrow> string list \<Rightarrow> bool" where
  "mirrors d uart \<longleftrightarrow> (\<forall>i < 11. shown (fst (screenCommands d ! i)) uart = Some (snd (screenCommands d ! i)))"

lemma updateScreen_mirrors:
  assumes "HMI_isInitialized h" "HMI_hasCachedScreen h \<Longrightarrow> mirrors (HMI_lastScreenData h) uart"
  shows "mirrors d (snd (updateScreen d (h, uart)))"
  unfolding mirrors_def updateScreen_fold[OF assms(1)] snd_conv
proof (intro allI impI)
  fix i :: nat assume i: "i < 11"
  let ?l = "HMI_lastScreenData h"
  show "shown (fst (screenCommands d ! i)) (fold emitIf (zip (screenCommands d)
          (map (\<lambda>b. \<not> HMI_hasCachedScreen h \<or> b) (changes d ?l))) uart) = Some (snd (screenCommands d ! i))"
    using shown_fold[of "screenCommands d" "map (\<lambda>b. \<not> HMI_hasCachedScreen h \<or> b) (changes d ?l)" i uart]
      screenCommands_ok(1,2,3)[of d] screenCommands_ok(4)[of d ?l] i assms(2) unchanged_same[OF i, of d ?l]
    by (auto simp: mirrors_def)
qed

lemma updateScreen_fields:
  "HMI_isInitialized h \<Longrightarrow> HMI_isInitialized (fst (updateScreen d (h, uart))) \<and>
     HMI_hasCachedScreen (fst (updateScreen d (h, uart))) \<and> HMI_lastScreenData (fst (updateScreen d (h, uart))) = d"
  by (simp add: updateScreen_fold)

text \<open>The screen follows the data: after any number of change-only updates from start-up,
  the last command sent for each of the eleven components is the complete command a full
  refresh with the latest data would send.\<close>

lemma screen_follows_data:
  assumes "HMI_isInitialized h" "\<not> HMI_hasCachedScreen h" "i < 11"
  shows "shown (fst (screenCommands d ! i)) (snd (fold updateScreen (ds @ [d]) (h, uart))) =
         Some (snd (screenCommands d ! i))"
proof -
  have "HMI_isInitialized (fst (fold updateScreen ds (h, uart))) \<and>
        (HMI_hasCachedScreen (fst (fold updateScreen ds (h, uart))) \<longrightarrow>
         mirrors (HMI_lastScreenData (fst (fold updateScreen ds (h, uart)))) (snd (fold updateScreen ds (h, uart))))"
  proof (induction ds rule: rev_induct)
    case (snoc x xs)
    then show ?case
      using updateScreen_fields[of "fst (fold updateScreen xs (h, uart))" x "snd (fold updateScreen xs (h, uart))"]
        updateScreen_mirrors[of "fst (fold updateScreen xs (h, uart))" "snd (fold updateScreen xs (h, uart))" x]
      by simp
  qed (use assms in simp)
  then have "mirrors d (snd (updateScreen d (fold updateScreen ds (h, uart))))"
    using updateScreen_mirrors[of "fst (fold updateScreen ds (h, uart))" "snd (fold updateScreen ds (h, uart))" d] by simp
  then show ?thesis using assms(3) by (simp add: mirrors_def)
qed

end
