(* ===== verification/Vehicle_Speed.thy ===== *)
theory Vehicle_Speed
  imports Complex_Main Vehicle_Data
begin

text \<open>
  The speed of the vehicle from the speed of the motor (lib/Telemetry/Telemetry.h)
  in the single-precision arithmetic the code uses.  A non-negative \<open>float\<close> is a
  pair of a mantissa and a binary exponent; products and quotients are rounded to
  24 significant bits, to nearest, ties to even.  The values of this computation
  stay far away from overflow and from subnormal numbers.
\<close>

subsection \<open>Single-precision numbers\<close>

datatype F32 = F32 (f_man: int) (f_exp: int)

function bitlen :: "int \<Rightarrow> nat" where
  "bitlen n = (if n \<le> 0 then 0 else Suc (bitlen (n div 2)))"
  by auto
termination by (relation "measure nat") auto

declare bitlen.simps [simp del]

definition nearest :: "nat \<Rightarrow> int \<Rightarrow> int" where
  "nearest k m = (let q = m div 2 ^ k; r = m mod 2 ^ k; h = 2 ^ (k - 1)
                  in if r > h \<or> r = h \<and> odd q then q + 1 else q)"

definition round24 :: "int \<Rightarrow> int \<Rightarrow> F32" where
  "round24 m e = (let k = bitlen m - 24 in if k = 0 then F32 m e else F32 (nearest k m) (e + int k))"

definition f32_of_int :: "int \<Rightarrow> F32" where
  "f32_of_int n = round24 n 0"

definition f32_mul :: "F32 \<Rightarrow> F32 \<Rightarrow> F32" where
  "f32_mul a b = round24 (f_man a * f_man b) (f_exp a + f_exp b)"

text \<open>The quotient of the mantissas is computed to at least 26 bits with a last bit
  that is set when the division leaves a remainder, which decides the rounding.\<close>

definition f32_div :: "F32 \<Rightarrow> F32 \<Rightarrow> F32" where
  "f32_div a b =
    (let n = f_man a * 2 ^ 50; q = n div f_man b
     in round24 (2 * q + (if n mod f_man b \<noteq> 0 then 1 else 0)) (f_exp a - f_exp b - 51))"

definition f32_ge_int :: "F32 \<Rightarrow> int \<Rightarrow> bool" where
  "f32_ge_int a k =
    (if f_exp a \<ge> 0 then f_man a * 2 ^ nat (f_exp a) \<ge> k else f_man a \<ge> k * 2 ^ nat (- f_exp a))"

definition f32_trunc :: "F32 \<Rightarrow> int" where
  "f32_trunc a =
    (if f_exp a \<ge> 0 then f_man a * 2 ^ nat (f_exp a) else f_man a div 2 ^ nat (- f_exp a))"

subsection \<open>The speed computation\<close>

definition TEL_SPD_X10_MAX :: int where "TEL_SPD_X10_MAX = 3000"

text \<open>The literals \<open>3.14159265f\<close>, \<open>0.56f\<close> and \<open>1.0f\<close> as the nearest floats.\<close>

definition PI_F :: F32 where "PI_F = F32 13176795 (- 22)"
definition WHEEL_DIAMETER_M :: F32 where "WHEEL_DIAMETER_M = F32 9395241 (- 24)"
definition GEAR_RATIO :: F32 where "GEAR_RATIO = F32 1 0"
definition MOTOR_RPM_IS_WHEEL_RPM :: bool where "MOTOR_RPM_IS_WHEEL_RPM = True"

definition speedX10 :: "u16 \<Rightarrow> F32 \<Rightarrow> F32 \<Rightarrow> bool \<Rightarrow> F32" where
  "speedX10 rpm wheelDiameterM gearRatio motorRpmIsWheelRpm =
    (let absRpm = f32_of_int (uint rpm);
         wheelRpm = (if motorRpmIsWheelRpm then absRpm else f32_div absRpm gearRatio);
         km_h = f32_div (f32_mul (f32_mul (f32_mul wheelRpm PI_F) wheelDiameterM) (F32 60 0)) (F32 1000 0)
     in f32_mul km_h (F32 10 0))"

definition rpmToSpeedKmhX10Impl :: "u16 \<Rightarrow> F32 \<Rightarrow> F32 \<Rightarrow> bool \<Rightarrow> u16" where
  "rpmToSpeedKmhX10Impl rpm wheelDiameterM gearRatio motorRpmIsWheelRpm =
    (let spd_x10 = speedX10 rpm wheelDiameterM gearRatio motorRpmIsWheelRpm
     in if f32_ge_int spd_x10 TEL_SPD_X10_MAX then of_int TEL_SPD_X10_MAX
        else of_int (f32_trunc spd_x10))"

definition rpmToSpeedKmhX10 :: "u16 \<Rightarrow> u16" where
  "rpmToSpeedKmhX10 rpm = rpmToSpeedKmhX10Impl rpm WHEEL_DIAMETER_M GEAR_RATIO MOTOR_RPM_IS_WHEEL_RPM"

subsection \<open>Rounding errors\<close>

definition f32_val :: "F32 \<Rightarrow> real" where
  "f32_val a = real_of_int (f_man a) * 2 powi f_exp a"

lemma bitlen_lower: "0 < n \<Longrightarrow> 2 ^ (bitlen n - 1) \<le> n"
proof (induction n rule: bitlen.induct)
  case (1 n)
  have b: "bitlen n = Suc (bitlen (n div 2))" using 1(2) by (simp add: bitlen.simps[of n])
  show ?case
  proof (cases "0 < n div 2")
    case True
    then have "0 < bitlen (n div 2)" by (simp add: bitlen.simps[of "n div 2"])
    then have p: "2 ^ bitlen (n div 2) = 2 * (2 ^ (bitlen (n div 2) - 1) :: int)"
      by (cases "bitlen (n div 2)") simp_all
    have "2 * x \<le> n" if "x \<le> n div 2" for x using that by linarith
    from this[OF 1(1)[OF _ True]] show ?thesis using 1(2) by (simp only: b diff_Suc_1 p)
  next
    case False
    then have "bitlen (n div 2) = 0" by (simp add: bitlen.simps[of "n div 2"])
    then show ?thesis using b 1(2) by simp
  qed
qed

text \<open>Dropping \<open>k\<close> bits moves a number by at most half a unit.\<close>

lemma nearest_error:
  assumes "0 < k"
  shows "\<bar>real_of_int (nearest k m) * 2 ^ k - real_of_int m\<bar> \<le> 2 ^ (k - 1)"
proof -
  obtain j where k: "k = Suc j" using assms by (cases k) simp_all
  define q r where "q = m div 2 ^ k" and "r = m mod 2 ^ k"
  have "m = q * 2 ^ k + r" unfolding q_def r_def by (rule div_mult_mod_eq[symmetric])
  then have mqr: "real_of_int m = real_of_int q * 2 ^ k + real_of_int r" by simp
  have "r < 2 ^ k" "0 \<le> r" by (simp_all add: r_def)
  then have rr: "real_of_int r \<le> 2 * 2 ^ j" "0 \<le> real_of_int r"
    using of_int_le_iff[of r "2 ^ k", where 'a = real] by (simp_all add: k)
  have n: "nearest k m = (if r > 2 ^ j \<or> r = 2 ^ j \<and> odd q then q + 1 else q)"
    by (simp add: nearest_def Let_def q_def r_def k)
  note n = n[unfolded k] and mqr = mqr[unfolded k]
  show ?thesis
  proof (cases "r > 2 ^ j \<or> r = 2 ^ j \<and> odd q")
    case True
    then have "(2::real) ^ j \<le> real_of_int r" using of_int_le_iff[of "2 ^ j" r, where 'a = real] by auto
    then show ?thesis using True mqr rr by (simp add: n k algebra_simps)
  next
    case False
    then have "real_of_int r \<le> (2::real) ^ j" using of_int_le_iff[of r "2 ^ j", where 'a = real] by auto
    then show ?thesis using False mqr rr by (auto simp: n k)
  qed
qed

lemma bitlen_half_unit:
  assumes "0 < bitlen m - 24"
  shows "(2::real) ^ (bitlen m - 24 - 1) \<le> real_of_int m / 2 ^ 24"
proof -
  have "0 < m" using assms by (cases "m \<le> 0") (simp_all add: bitlen.simps[of m])
  then have "2 ^ (bitlen m - 1) \<le> m" by (rule bitlen_lower)
  moreover have "bitlen m - 1 = 24 + (bitlen m - 24 - 1)" using assms by simp
  ultimately have "2 ^ 24 * 2 ^ (bitlen m - 24 - 1) \<le> m" by (simp only: power_add)
  then have "(2::real) ^ 24 * 2 ^ (bitlen m - 24 - 1) \<le> real_of_int m"
    using of_int_le_iff[of "2 ^ 24 * 2 ^ (bitlen m - 24 - 1)" m, where 'a = real]
    by (simp only: of_int_mult of_int_numeral of_int_power)
  then show ?thesis by simp
qed

lemma round24_error:
  "\<bar>f32_val (round24 m e) - real_of_int m * 2 powi e\<bar> \<le> \<bar>real_of_int m\<bar> * 2 powi e / 2 ^ 24"
proof (cases "bitlen m - 24 = 0")
  case True
  then show ?thesis by (simp add: round24_def f32_val_def)
next
  case False
  define k where "k = bitlen m - 24"
  have "0 < k" using False by (simp add: k_def)
  have pos: "0 < m" using False by (cases "m \<le> 0") (simp_all add: bitlen.simps[of m])
  have v: "f32_val (round24 m e) = real_of_int (nearest k m) * 2 ^ k * 2 powi e"
    using False by (simp add: round24_def f32_val_def k_def[symmetric] power_int_add Let_def)
  have "\<bar>real_of_int (nearest k m) * 2 ^ k - real_of_int m\<bar> \<le> real_of_int m / 2 ^ 24"
    using nearest_error[OF \<open>0 < k\<close>, of m] bitlen_half_unit[of m] \<open>0 < k\<close> by (simp add: k_def)
  then have "\<bar>real_of_int (nearest k m) * 2 ^ k - real_of_int m\<bar> * 2 powi e \<le> real_of_int m / 2 ^ 24 * 2 powi e"
    by (intro mult_right_mono) simp_all
  then show ?thesis using pos by (simp add: v abs_mult flip: left_diff_distrib)
qed

lemma nearest_nonneg: "0 \<le> m \<Longrightarrow> 0 \<le> nearest k m"
  by (simp add: nearest_def Let_def pos_imp_zdiv_nonneg_iff)

lemma round24_nonneg: "0 \<le> m \<Longrightarrow> 0 \<le> f_man (round24 m e)"
  by (simp add: round24_def Let_def nearest_nonneg)

text \<open>Each operation keeps a lower and an upper bound up to one relative rounding error;
  a quotient has a second one for the remainder.\<close>

lemma round24_bounds:
  assumes "0 \<le> m" "l \<le> real_of_int m * 2 powi e" "real_of_int m * 2 powi e \<le> h"
  shows "l * (1 - 1 / 2 ^ 24) \<le> f32_val (round24 m e) \<and> f32_val (round24 m e) \<le> h * (1 + 1 / 2 ^ 24)"
proof -
  have "\<bar>f32_val (round24 m e) - real_of_int m * 2 powi e\<bar> \<le> real_of_int m * 2 powi e / 2 ^ 24"
    using round24_error[of m e] assms(1) by simp
  then have "f32_val (round24 m e) - real_of_int m * 2 powi e \<le> real_of_int m * 2 powi e / 2 ^ 24"
    "real_of_int m * 2 powi e - f32_val (round24 m e) \<le> real_of_int m * 2 powi e / 2 ^ 24"
    by linarith+
  then show ?thesis using assms(2,3) by (simp add: field_simps)
qed

definition f32_in :: "F32 \<Rightarrow> real \<Rightarrow> real \<Rightarrow> bool" where
  "f32_in a l h \<longleftrightarrow> 0 \<le> f_man a \<and> l \<le> f32_val a \<and> f32_val a \<le> h"

lemma f32_mul_bounds:
  assumes "f32_in a l h" "0 \<le> f_man b"
  shows "f32_in (f32_mul a b) (l * f32_val b * (1 - 1 / 2 ^ 24)) (h * f32_val b * (1 + 1 / 2 ^ 24))"
proof -
  have p: "0 \<le> f32_val b" "0 \<le> f_man a * f_man b" using assms by (simp_all add: f32_val_def f32_in_def)
  have "real_of_int (f_man a * f_man b) * 2 powi (f_exp a + f_exp b) = f32_val a * f32_val b"
    by (simp add: f32_val_def power_int_add)
  then have "l * f32_val b \<le> real_of_int (f_man a * f_man b) * 2 powi (f_exp a + f_exp b)"
    "real_of_int (f_man a * f_man b) * 2 powi (f_exp a + f_exp b) \<le> h * f32_val b"
    using assms p by (simp_all add: f32_in_def mult_right_mono)
  from round24_bounds[OF p(2) this] round24_nonneg[OF p(2)] show ?thesis
    by (simp add: f32_in_def f32_mul_def)
qed

text \<open>The quotient with its sticky bit is twice the exact one up to one part in \<open>2 ^ 26\<close>.\<close>

lemma sticky_quotient:
  fixes a d :: int
  defines "n \<equiv> a * 2 ^ 50"
  assumes a: "0 \<le> a" and d: "0 < d" "d < 2 ^ 24"
  shows "\<bar>real_of_int (2 * (n div d) + (if n mod d \<noteq> 0 then 1 else 0)) * real_of_int d - 2 * real_of_int n\<bar>
         \<le> 2 * real_of_int n / 2 ^ 26"
proof (cases "a = 0")
  case False
  define M where "M = 2 * (n div d) + (if n mod d \<noteq> 0 then 1 else 0)"
  define Q R where "Q = n div d" and "R = n mod d"
  have "n = Q * d + R" unfolding Q_def R_def by (rule div_mult_mod_eq[symmetric])
  then have "M * d - 2 * n = (if R \<noteq> 0 then d else 0) - 2 * R"
    unfolding M_def Q_def[symmetric] R_def[symmetric] by (simp add: algebra_simps)
  moreover have Rb: "0 \<le> R" "R < d" using d(1) by (simp_all add: R_def)
  ultimately have "\<bar>M * d - 2 * n\<bar> \<le> d"
    using Rb by (auto simp: abs_le_iff)
  then have "\<bar>real_of_int M * real_of_int d - 2 * real_of_int n\<bar> \<le> real_of_int d"
    by (metis of_int_abs of_int_diff of_int_le_iff of_int_mult of_int_numeral)
  moreover have "d * 2 ^ 26 \<le> 2 * n" using False a d by (simp add: n_def)
  then have "real_of_int d \<le> 2 * real_of_int n / 2 ^ 26" by simp
  ultimately show ?thesis unfolding M_def by linarith
qed (simp add: n_def)

lemma f32_div_bounds:
  assumes "f32_in a l h" "0 < f_man b" "f_man b < 2 ^ 24"
  shows "f32_in (f32_div a b) (l / f32_val b * (1 - 1 / 2 ^ 26) * (1 - 1 / 2 ^ 24))
           (h / f32_val b * (1 + 1 / 2 ^ 26) * (1 + 1 / 2 ^ 24))"
proof -
  define n d where "n = f_man a * 2 ^ 50" and "d = f_man b"
  define M where "M = 2 * (n div d) + (if n mod d \<noteq> 0 then 1 else 0)"
  define e where "e = f_exp a - f_exp b - 51"
  have d: "0 < d" using assms by (simp add: d_def)
  have M0: "0 \<le> M" using assms by (simp add: M_def n_def d_def f32_in_def pos_imp_zdiv_nonneg_iff)
  have "\<bar>real_of_int M * real_of_int d - 2 * real_of_int n\<bar> \<le> 2 * real_of_int n / 2 ^ 26"
    using sticky_quotient[of "f_man a" "f_man b"] assms by (simp add: M_def n_def d_def f32_in_def)
  then have M: "real_of_int M * real_of_int d - 2 * real_of_int n \<le> 2 * real_of_int n / 2 ^ 26"
    "2 * real_of_int n - real_of_int M * real_of_int d \<le> 2 * real_of_int n / 2 ^ 26"
    by linarith+
  have v: "f32_val a / f32_val b = 2 * real_of_int n / real_of_int d * 2 powi e"
    by (simp add: f32_val_def n_def d_def e_def power_int_diff power_int_add field_simps)
  have x: "f32_val a / f32_val b * (1 - 1 / 2 ^ 26) \<le> real_of_int M * 2 powi e"
    "real_of_int M * 2 powi e \<le> f32_val a / f32_val b * (1 + 1 / 2 ^ 26)"
    using M d unfolding v by (simp_all add: field_simps)
  have p: "0 < f32_val b" using assms(2) by (simp add: f32_val_def)
  have "l / f32_val b * (1 - 1 / 2 ^ 26) \<le> real_of_int M * 2 powi e"
    "real_of_int M * 2 powi e \<le> h / f32_val b * (1 + 1 / 2 ^ 26)"
    using order_trans[OF _ x(1)] order_trans[OF x(2)] assms(1) p
    by (simp_all add: f32_in_def divide_right_mono)
  from round24_bounds[OF M0 this] round24_nonneg[OF M0] show ?thesis
    by (simp add: f32_in_def f32_div_def M_def n_def d_def e_def Let_def)
qed


subsection \<open>Accuracy of the speed\<close>

lemma f32_val_cases:
  "f32_val a = (if 0 \<le> f_exp a then real_of_int (f_man a) * 2 ^ nat (f_exp a)
                else real_of_int (f_man a) / 2 ^ nat (- f_exp a))"
  by (simp add: f32_val_def power_int_def power_one_over)

lemma f32_trunc_floor: "f32_trunc a = \<lfloor>f32_val a\<rfloor>"
proof (cases "0 \<le> f_exp a")
  case True
  have "real_of_int (f_man a) * 2 ^ nat (f_exp a) = real_of_int (f_man a * 2 ^ nat (f_exp a))" by simp
  then show ?thesis using True by (simp only: f32_trunc_def f32_val_cases if_True floor_of_int)
next
  case False
  have "real_of_int (f_man a) / 2 ^ nat (- f_exp a) = real_of_int (f_man a) / real_of_int (2 ^ nat (- f_exp a))"
    by simp
  then show ?thesis
    using False by (simp only: f32_trunc_def f32_val_cases if_False floor_divide_of_int_eq)
qed

lemma f32_ge_int_iff: "f32_ge_int a k \<longleftrightarrow> real_of_int k \<le> f32_val a"
proof -
  have "(k * 2 ^ j \<le> f_man a) = (real_of_int k \<le> real_of_int (f_man a) / 2 ^ j)" for j
    using of_int_le_iff[of "k * 2 ^ j" "f_man a", where 'a = real] by (simp add: pos_le_divide_eq)
  moreover have "(k \<le> f_man a * 2 ^ j) = (real_of_int k \<le> real_of_int (f_man a) * 2 ^ j)" for j
    using of_int_le_iff[of k "f_man a * 2 ^ j", where 'a = real] by simp
  ultimately show ?thesis by (simp add: f32_ge_int_def f32_val_cases)
qed

text \<open>The exact speed, in tenths of a kilometre per hour.\<close>

definition exactSpeedX10 :: "u16 \<Rightarrow> real" where
  "exactSpeedX10 rpm = real (unat rpm) * 3.14159265 * 0.56 * 60 / 1000 * 10"

lemma speedX10_error:
  fixes rpm :: u16
  defines "x \<equiv> f32_val (speedX10 rpm WHEEL_DIAMETER_M GEAR_RATIO MOTOR_RPM_IS_WHEEL_RPM)"
  shows "exactSpeedX10 rpm * (1 - 1 / 10 ^ 6) \<le> x" "x \<le> exactSpeedX10 rpm * (1 + 1 / 10 ^ 6)"
    "0 \<le> f_man (speedX10 rpm WHEEL_DIAMETER_M GEAR_RATIO MOTOR_RPM_IS_WHEEL_RPM)"
proof -
  let ?r = "real (unat rpm)"
  have r0: "0 \<le> uint rpm" "real_of_int (uint rpm) = ?r" by simp_all
  have v: "f32_val PI_F = 13176795 / 2 ^ 22" "f32_val WHEEL_DIAMETER_M = 9395241 / 2 ^ 24"
    "f32_val (F32 60 0) = 60" "f32_val (F32 1000 0) = 1000" "f32_val (F32 10 0) = 10"
    by (simp_all add: f32_val_cases PI_F_def WHEEL_DIAMETER_M_def)
  have m: "0 \<le> f_man PI_F" "0 \<le> f_man WHEEL_DIAMETER_M" by (simp_all add: PI_F_def WHEEL_DIAMETER_M_def)
  have a: "f32_in (f32_of_int (uint rpm)) (?r * (1 - 1 / 2 ^ 24)) (?r * (1 + 1 / 2 ^ 24))"
    using round24_bounds[of "uint rpm" ?r 0 ?r] round24_nonneg[of "uint rpm" 0] r0
    by (simp add: f32_in_def f32_of_int_def)
  note b = f32_mul_bounds[OF f32_div_bounds[OF f32_mul_bounds[OF f32_mul_bounds[OF
             f32_mul_bounds[OF a m(1)] m(2)], of "F32 60 0"], of "F32 1000 0"], of "F32 10 0"]
  show "exactSpeedX10 rpm * (1 - 1 / 10 ^ 6) \<le> x" "x \<le> exactSpeedX10 rpm * (1 + 1 / 10 ^ 6)"
    "0 \<le> f_man (speedX10 rpm WHEEL_DIAMETER_M GEAR_RATIO MOTOR_RPM_IS_WHEEL_RPM)"
    using b by (simp_all add: f32_in_def x_def v speedX10_def MOTOR_RPM_IS_WHEEL_RPM_def exactSpeedX10_def)
qed

text \<open>C27. The transmitted speed: for every motor speed the single-precision computation
  stays within the ground station's limit of 300.0 km/h, never overstates the exact speed
  by more than a hundredth of its unit, and understates it, up to that limit, by at most
  the truncation to an integer and a hundredth.\<close>

theorem speed_accurate:
  "uint (rpmToSpeedKmhX10 rpm) \<le> TEL_SPD_X10_MAX \<and>
   real_of_int (uint (rpmToSpeedKmhX10 rpm)) \<le> exactSpeedX10 rpm + 0.01 \<and>
   min 3000 (exactSpeedX10 rpm) - 1.01 < real_of_int (uint (rpmToSpeedKmhX10 rpm))"
proof -
  define X where "X = speedX10 rpm WHEEL_DIAMETER_M GEAR_RATIO MOTOR_RPM_IS_WHEEL_RPM"
  define R where "R = exactSpeedX10 rpm"
  have e: "R * (1 - 1 / 10 ^ 6) \<le> f32_val X" "f32_val X \<le> R * (1 + 1 / 10 ^ 6)" "0 \<le> f_man X"
    using speedX10_error[of rpm] by (simp_all add: X_def R_def)
  show ?thesis
  proof (cases "f32_ge_int X TEL_SPD_X10_MAX")
    case True
    then have "3000 \<le> f32_val X" by (simp add: f32_ge_int_iff TEL_SPD_X10_MAX_def)
    moreover have "uint (rpmToSpeedKmhX10 rpm) = 3000"
      using True by (simp add: rpmToSpeedKmhX10_def rpmToSpeedKmhX10Impl_def X_def TEL_SPD_X10_MAX_def)
    ultimately show ?thesis using e by (simp add: R_def[symmetric] TEL_SPD_X10_MAX_def)
  next
    case False
    then have lt: "f32_val X < 3000" by (simp add: f32_ge_int_iff TEL_SPD_X10_MAX_def)
    have fl: "0 \<le> \<lfloor>f32_val X\<rfloor>" "\<lfloor>f32_val X\<rfloor> < 3000"
      using lt e(3) by (simp_all add: f32_val_def floor_less_iff)
    then have u: "uint (rpmToSpeedKmhX10 rpm) = \<lfloor>f32_val X\<rfloor>"
      using False
      by (simp add: rpmToSpeedKmhX10_def rpmToSpeedKmhX10Impl_def X_def[symmetric] f32_trunc_floor
          uint_word_of_int_eq take_bit_int_eq_self)
    have R: "R < 3001" "min 3000 R \<le> R" using e(1) lt by simp_all
    have f: "real_of_int \<lfloor>f32_val X\<rfloor> \<le> f32_val X" "f32_val X < real_of_int \<lfloor>f32_val X\<rfloor> + 1"
      by linarith+
    have "f32_val X \<le> R + 1 / 100" "R - 1 / 100 \<le> f32_val X" using e(1,2) R(1) by (simp_all add: field_simps)
    then have "real_of_int \<lfloor>f32_val X\<rfloor> \<le> R + 1 / 100" "min 3000 R - 101 / 100 < real_of_int \<lfloor>f32_val X\<rfloor>"
      using f R(2) by linarith+
    then show ?thesis using fl by (simp add: u R_def[symmetric] TEL_SPD_X10_MAX_def)
  qed
qed

end
