(* ===== verification/Aks_System.thy ===== *)
theory Aks_System
  imports Vcu_Logic Can_Manager Display_Hmi Vehicle_Speed
begin

text \<open>
  The composition of src/main.cpp: the start-up sequence of \<open>app_main\<close>, one cycle of
  the CAN and VCU tasks, the touch commands of the HMI task, and the callbacks between
  the modules.  The shared one-element queue is \<open>None\<close> until it is created and then
  empty or the latest snapshot.  The CAN manager lives on the stack of its task:
  \<open>sys_can\<close> is \<open>None\<close> while there is no such object, and \<open>s_canForTorque\<close> says whether
  the pointer used by the torque sink has been set.  An operation that would follow a
  pointer to an object that does not exist returns \<open>None\<close>.
\<close>

record 'h System =
  sys_vcu :: "'h RelayManager Vcu"
  sys_can :: "CanManager option"
  s_canForTorque :: bool
  TEL_sensorDataQueue :: "TelemetryData option option"
  sys_hmi :: DisplayHMI

subsection \<open>Callbacks\<close>

definition HMI_mapVcuState :: "VcuState \<Rightarrow> HMI_VcuState" where
  "HMI_mapVcuState st =
    (case st of INIT \<Rightarrow> HMI_INIT | IDLE \<Rightarrow> HMI_IDLE | READY \<Rightarrow> HMI_READY | DRIVE \<Rightarrow> HMI_DRIVE
     | EMERGENCY_STOP \<Rightarrow> HMI_EMERGENCY_STOP | FAULT \<Rightarrow> HMI_FAULT)"

definition HMI_areAllContactorsClosed :: "'h RelayManager \<Rightarrow> bool" where
  "HMI_areAllContactorsClosed r \<longleftrightarrow>
     list_all (\<lambda>channel. getRelayState (of_nat channel) r) [0..<unat RELAY_TOTAL_CHANNELS]"

definition CAN_handleEvent :: "CAN_Event \<Rightarrow> 'r Vcu \<Rightarrow> 'r Vcu" where
  "CAN_handleEvent event v = (if event = CAN_FAULT_DETECTED then postEvent Ev_FAULT_DETECTED v else v)"

definition CAN_torqueSink :: "u16 \<Rightarrow> 'h System \<Rightarrow> 'h System option" where
  "CAN_torqueSink torque s =
    (if \<not> s_canForTorque s then Some s
     else case sys_can s of
            None \<Rightarrow> None
          | Some m \<Rightarrow> Some (s\<lparr> sys_can := Some (snd (sendTorqueCommand torque m)) \<rparr>))"

text \<open>The calls a tick makes on the torque sink, in order.\<close>

fun forwardTorque :: "VcuCall list \<Rightarrow> 'h System \<Rightarrow> 'h System option" where
  "forwardTorque [] s = Some s"
| "forwardTorque (TorqueCall t # cs) s =
    (case CAN_torqueSink t s of None \<Rightarrow> None | Some s' \<Rightarrow> forwardTorque cs s')"
| "forwardTorque (_ # cs) s = forwardTorque cs s"

subsection \<open>Start-up\<close>

definition app_main :: "'h SpiDriver \<Rightarrow> bool \<Rightarrow> bool \<Rightarrow> bool \<Rightarrow> 'h \<Rightarrow> 'h System option" where
  "app_main d eventQueueCreated dataMutexCreated sensorQueueCreated h =
    (let (ok, r) = RelayManager_begin d (RelayManager_new h)
     in if \<not> ok then None
        else let v = VcuLogic_init (relayActuatorAdapter d) eventQueueCreated dataMutexCreated (vcu_boot r);
                 v = setTorqueSink True v
             in if \<not> sensorQueueCreated then None
                else Some \<lparr> sys_vcu = v, sys_can = None, s_canForTorque = False,
                            TEL_sensorDataQueue = Some None, sys_hmi = DisplayHMI_new \<rparr>)"

text \<open>The answers of the driver during \<open>CanManager::begin\<close>.\<close>

type_synonym CanBoot = "bool \<times> (bool \<times> bool \<times> bool) \<times> (bool \<times> bool \<times> bool) \<times> (bool \<times> bool \<times> bool) \<times> bool \<times> bool"

definition vTask_CAN_start :: "CanBoot \<Rightarrow> 'h System \<Rightarrow> 'h System" where
  "vTask_CAN_start ans s =
    (case ans of (mutexCreated, try500, try125, try250, fallbackInstalled, fallbackStarted) \<Rightarrow>
       let m = setEventCallback True CanManager_new;
           s = s\<lparr> s_canForTorque := True \<rparr>;
           (ok, m) = CanManager_begin mutexCreated try500 try125 try250 fallbackInstalled fallbackStarted m
       in s\<lparr> sys_can := (if ok then Some m else None) \<rparr>)"

subsection \<open>Task cycles\<close>

definition publish :: "64 word \<Rightarrow> CanManager \<Rightarrow> TelemetryData" where
  "publish timeUs m =
    (let d = getTelemetryData m;
         d = d\<lparr> TEL_speedKmhX10 := rpmToSpeedKmhX10 (TEL_motorRpm d) \<rparr>
     in d\<lparr> TEL_timestampMs := ucast (timeUs div 1000) \<rparr>)"

definition vTask_CAN_cycle :: "RxEnv \<Rightarrow> 64 word \<Rightarrow> 'h System \<Rightarrow> 'h System" where
  "vTask_CAN_cycle env timeUs s =
    (case sys_can s of
       None \<Rightarrow> s
     | Some m \<Rightarrow>
         let m' = processRxMessages env m;
             raised = drop (length (can_events m)) (can_events m');
             s = s\<lparr> sys_can := Some m', sys_vcu := fold CAN_handleEvent raised (sys_vcu s) \<rparr>
         in if TEL_sensorDataQueue s = None then s
            else s\<lparr> TEL_sensorDataQueue := Some (Some (publish timeUs m')) \<rparr>)"

definition vTask_VCU_cycle :: "'h SpiDriver \<Rightarrow> 'h System \<Rightarrow> 'h System option" where
  "vTask_VCU_cycle d s =
    (let v = (case TEL_sensorDataQueue s of
                Some (Some TEL_data) \<Rightarrow> setTelemetryData TEL_data (sys_vcu s)
              | _ \<Rightarrow> sys_vcu s)
     in case run (relayActuatorAdapter d) v of
          None \<Rightarrow> None
        | Some v' \<Rightarrow> forwardTorque (drop (length (vcu_calls v)) (vcu_calls v')) (s\<lparr> sys_vcu := v' \<rparr>))"

definition HMI_command :: "u8 \<Rightarrow> 'r Vcu \<Rightarrow> 'r Vcu" where
  "HMI_command c v =
    (if c = HMI_CMD_START then postEvent Ev_START_REQUEST v
     else if c = HMI_CMD_RESET then postEvent Ev_RESET v
     else if c = HMI_CMD_EMERGENCY_STOP then postEvent Ev_EMERGENCY_STOP v
     else if c = HMI_CMD_DRIVE_ENABLE then postEvent Ev_DRIVE_ENABLE v
     else v)"

definition vTask_HMI_touch :: "u8 list \<Rightarrow> 'h System \<Rightarrow> 'h System" where
  "vTask_HMI_touch rx s =
    (let (cmd, _, h) = readTouchCommand rx (sys_hmi s)
     in s\<lparr> sys_hmi := h, sys_vcu := (case cmd of None \<Rightarrow> sys_vcu s | Some c \<Rightarrow> HMI_command c (sys_vcu s)) \<rparr>)"

subsection \<open>Interleavings\<close>

text \<open>Any interleaving of the tasks after a complete start-up.  The display may come up with
  any outcome, and the hardware behind the relay driver may change between cycles.\<close>

inductive sys_reach :: "'h SpiDriver \<Rightarrow> 'h System \<Rightarrow> bool" for d where
  sys_boot: "app_main d True True True h = Some s \<Longrightarrow> sys_reach d s"
| sys_can_start: "sys_reach d s \<Longrightarrow> \<not> s_canForTorque s \<Longrightarrow> sys_reach d (vTask_CAN_start ans s)"
| sys_can_cycle: "sys_reach d s \<Longrightarrow> sys_reach d (vTask_CAN_cycle env timeUs s)"
| sys_vcu_cycle: "sys_reach d s \<Longrightarrow> vTask_VCU_cycle d s = Some s' \<Longrightarrow> sys_reach d s'"
| sys_touch: "sys_reach d s \<Longrightarrow> sys_reach d (vTask_HMI_touch rx s)"
| sys_display: "sys_reach d s \<Longrightarrow> sys_reach d (s\<lparr> sys_hmi := h \<rparr>)"
| sys_hw: "sys_reach d s \<Longrightarrow> rmDisturb (relayObj (sys_vcu s)) r \<Longrightarrow>
    sys_reach d (s\<lparr> sys_vcu := (sys_vcu s)\<lparr> relayObj := r \<rparr> \<rparr>)"

abbreviation vreach :: "'h SpiDriver \<Rightarrow> 'h RelayManager Vcu \<Rightarrow> bool" where
  "vreach d \<equiv> vcu_reach (relayActuatorAdapter d) s_initialized rmDisturb"

lemma begin_initialized:
  "RelayManager_begin d r = (True, r') \<Longrightarrow> s_initialized r'"
  by (auto simp: RelayManager_begin_def Let_def split: prod.splits if_splits)

lemma forwardTorque_fields:
  "forwardTorque cs s = Some s' \<Longrightarrow> sys_vcu s' = sys_vcu s \<and> TEL_sensorDataQueue s' = TEL_sensorDataQueue s \<and>
     s_canForTorque s' = s_canForTorque s \<and> (sys_can s' = None \<longleftrightarrow> sys_can s = None) \<and> sys_hmi s' = sys_hmi s"
  by (induction cs s rule: forwardTorque.induct)
     (auto simp: CAN_torqueSink_def split: option.splits if_splits)

lemma forwardTorque_total:
  "s_canForTorque s \<Longrightarrow> sys_can s \<noteq> None \<Longrightarrow> \<exists>s'. forwardTorque cs s = Some s'"
  by (induction cs s rule: forwardTorque.induct) (auto simp: CAN_torqueSink_def)

lemma reach_handleEvents: "vreach d v \<Longrightarrow> vreach d (fold CAN_handleEvent es v)"
  by (induction es arbitrary: v) (auto simp: CAN_handleEvent_def intro: vcu_reach.intros)

lemma reach_command: "vreach d v \<Longrightarrow> vreach d (HMI_command c v)"
  by (auto simp: HMI_command_def intro: vcu_reach.intros)

lemma sys_reach_vcu: "sys_reach d s \<Longrightarrow> vreach d (sys_vcu s)"
proof (induction rule: sys_reach.induct)
  case (sys_boot h s)
  then show ?case
    by (auto simp: app_main_def split: prod.splits if_splits intro!: reach_sink reach_init dest: begin_initialized)
next
  case (sys_vcu_cycle s s')
  then show ?case
    by (auto simp: vTask_VCU_cycle_def Let_def dest!: forwardTorque_fields split: option.splits
        intro: reach_tick reach_tel)
qed (auto simp: vTask_CAN_start_def vTask_CAN_cycle_def vTask_HMI_touch_def Let_def case_prod_beta
       split: option.splits intro: reach_handleEvents reach_command reach_hw)

subsection \<open>What every reachable system state satisfies\<close>

definition canStatic :: "CanManager \<Rightarrow> bool \<times> bool \<times> bool" where
  "canStatic m = (isInitialized m, s_mutex m, CAN_eventCallback m)"

lemma notify_static [keeps]: "canStatic (notifyFaultIfNeeded p c m) = canStatic m"
  by (simp add: canStatic_def)

lemma handlers_static [keeps]:
  "canStatic (handleMotorStatus tick msg m) = canStatic m" "canStatic (handleLbBmsE000 tick msg m) = canStatic m"
  "canStatic (handleLbBmsE001 tick msg m) = canStatic m" "canStatic (handleCharger1806E5F4 tick msg m) = canStatic m"
  "canStatic (handleCellGroup k parse tick msg m) = canStatic m" "canStatic (handleLbBmsStub msg m) = canStatic m"
  by (simp_all add: handleMotorStatus_def handleLbBmsE000_def handleLbBmsE001_def handleCharger1806E5F4_def
      handleCellGroup_def handleLbBmsStub_def Let_def case_prod_beta canStatic_def split: option.splits)

lemma remote_static: "canStatic (m\<lparr> CAN_rxRemoteFrameCount := n \<rparr>) = canStatic m"
  by (simp add: canStatic_def)

lemma dispatch_static [keeps]: "canStatic (dispatch tick msg m) = canStatic m"
  by (cases rule: dispatch_cases[of msg tick m]) (simp_all add: handlers_static remote_static)

lemma handleAll_static [keeps]: "canStatic (handleAll fs m) = canStatic m"
  by (induction fs arbitrary: m) (auto simp: keeps)

lemma updates_static [keeps]:
  "canStatic (updateMotorStatusValidity t m) = canStatic m" "canStatic (updateBmsValidity t m) = canStatic m"
  "canStatic (updateCellVoltageValidity t m) = canStatic m" "canStatic (updateChargerValidity t m) = canStatic m"
  "canStatic (handleAlerts a t m) = canStatic m"
  by (simp_all add: updateMotorStatusValidity_def updateBmsValidity_def updateCellVoltageValidity_def
      updateChargerValidity_def handleAlerts_def Let_def canStatic_def)

lemma processRx_static: "canStatic (processRxMessages env m) = canStatic m"
  by (simp add: processRxMessages_def Let_def keeps drain_handleAll split: option.splits)

definition can_ok :: "'h System \<Rightarrow> bool" where
  "can_ok s \<longleftrightarrow> TEL_sensorDataQueue s \<noteq> None \<and>
     (\<forall>m. sys_can s = Some m \<longrightarrow> canStatic m = (True, True, True) \<and> s_canForTorque s)"

lemma torque_static: "canStatic (snd (sendTorqueCommand t m)) = canStatic m"
  by (simp add: sendTorqueCommand_def canStatic_def)

lemma sink_can: "CAN_torqueSink t s = Some s' \<Longrightarrow> can_ok s \<Longrightarrow> can_ok s'"
  by (auto simp: CAN_torqueSink_def can_ok_def torque_static split: option.splits if_splits)

lemma forwardTorque_can:
  "forwardTorque cs s = Some s' \<Longrightarrow> can_ok s \<Longrightarrow> can_ok s'"
  by (induction cs s rule: forwardTorque.induct) (auto split: option.splits dest: sink_can)

lemma start_static:
  "CanManager_begin a b c e f g (setEventCallback True CanManager_new) = (True, m) \<Longrightarrow> canStatic m = (True, True, True)"
  by (auto simp: CanManager_begin_def setEventCallback_def CanManager_new_def canStatic_def Let_def
      split: if_splits option.splits)

lemma sys_reach_can: "sys_reach d s \<Longrightarrow> can_ok s"
proof (induction rule: sys_reach.induct)
  case (sys_boot h s)
  then show ?case by (auto simp: app_main_def can_ok_def split: prod.splits if_splits)
next
  case (sys_can_start s ans)
  obtain a b c e f g where ans: "ans = (a, b, c, e, f, g)" by (metis prod_cases6)
  show ?case
    using sys_can_start start_static[of a b c e f g]
    by (auto simp: vTask_CAN_start_def ans can_ok_def split: prod.splits)
next
  case (sys_can_cycle s env timeUs)
  then show ?case by (auto simp: vTask_CAN_cycle_def can_ok_def Let_def processRx_static split: option.splits)
next
  case (sys_vcu_cycle s s')
  then obtain v cs where "forwardTorque cs (s\<lparr> sys_vcu := v \<rparr>) = Some s'"
    by (auto simp: vTask_VCU_cycle_def Let_def split: option.splits)
  moreover have "can_ok (s\<lparr> sys_vcu := v \<rparr>)" using sys_vcu_cycle.IH by (simp add: can_ok_def)
  ultimately show ?case by (rule forwardTorque_can)
qed (simp_all add: can_ok_def vTask_HMI_touch_def Let_def case_prod_beta)

subsection \<open>Shutdown of a live vehicle\<close>

lemma run_data:
  "run A v = Some v' \<Longrightarrow> s_TEL_latestData v' = s_TEL_latestData v \<and> s_TEL_dataMutex v' = s_TEL_dataMutex v"
  by (auto simp: run_eq split: if_splits)

text \<open>Ten ticks after a stop state has been entered with a persisting hazard, the bank is open.\<close>

lemma entered_opens:
  assumes "s_state v = FAULT \<or> s_state v = EMERGENCY_STOP" "s_stateTimer v = 0" "noBypass v" "s_relays v"
    and "queue_ok (s_eventQueue v)" "hasCriticalCondition (s_TEL_latestData v) (s_state v)" "n = 9 \<or> n = 10"
  shows "\<exists>v'. runs A n v = Some v' \<and> s_state v' = s_state v \<and> stopOpened v'"
proof -
  obtain q where q: "s_eventQueue v = Some q" "length q < 9"
    using assms(5) by (auto simp: queue_ok_def split: option.splits)
  have "stuckStop v" using assms by (auto simp: stuckStop_def)
  moreover have "unat (s_stateTimer v) + 20 * n < 2 ^ 32" using assms(2,7) by auto
  ultimately show ?thesis using stuck_runs[of v q n A] q assms(7) by auto
qed

lemma live_shutdown:
  assumes "vcu_struct v" "s_state v = READY \<or> s_state v = DRIVE"
    and crit: "\<And>st. st \<noteq> IDLE \<Longrightarrow> hasCriticalCondition (s_TEL_latestData v) st"
  shows "\<exists>v'. runs A 11 v = Some v' \<and> (s_state v' = FAULT \<or> s_state v' = EMERGENCY_STOP) \<and> stopOpened v'"
proof -
  have st: "s_relays v" "queue_ok (s_eventQueue v)" using assms(1) by (simp_all add: vcu_struct_def)
  have s11: "runs A 11 v = (case run A v of None \<Rightarrow> None | Some w \<Rightarrow> runs A 10 w)" for v :: "'a Vcu"
    using runs.simps(2)[of A 10 v] by simp
  have s10: "runs A 10 v = (case run A v of None \<Rightarrow> None | Some w \<Rightarrow> runs A 9 w)" for v :: "'a Vcu"
    using runs.simps(2)[of A 9 v] by simp
  note e = entered_opens[where A = A]
  consider (double) "s_eStopPending v" "s_faultPending v" | (estop) "s_eStopPending v" "\<not> s_faultPending v"
    | (fault) "\<not> s_eStopPending v" "s_faultPending v" | (hazard) "\<not> s_eStopPending v" "\<not> s_faultPending v"
    by blast
  then show ?thesis
  proof cases
    case double
    let ?w = "transitionTo EMERGENCY_STOP ((ticked v)\<lparr> s_faultPending := True \<rparr>)"
    let ?x = "transitionTo FAULT (ticked ?w)"
    have r: "run A v = Some ?w" "run A ?w = Some ?x" using double assms(2) by (auto simp: run_eq)
    show ?thesis using e[of ?x 9] st crit[of FAULT] by (auto simp: s11 s10 r noBypass_def)
  next
    case estop
    let ?w = "transitionTo EMERGENCY_STOP ((ticked v)\<lparr> s_faultPending := False \<rparr>)"
    have r: "run A v = Some ?w" using estop assms(2) by (auto simp: run_eq)
    show ?thesis using e[of ?w 10] st crit[of EMERGENCY_STOP] by (auto simp: s11 r noBypass_def)
  next
    case fault
    let ?w = "transitionTo FAULT (ticked v)"
    have r: "run A v = Some ?w" using fault assms(2) by (auto simp: run_eq)
    show ?thesis using e[of ?w 10] st crit[of FAULT] by (auto simp: s11 r noBypass_def)
  next
    case hazard
    let ?w = "transitionTo FAULT (verified A v)"
    have "mustFault A v" using assms(2) crit by (auto simp: mustFault_def)
    then have r: "run A v = Some ?w" using hazard st(1) by (simp add: run_eq)
    show ?thesis using e[of ?w 10] st crit[of FAULT] by (auto simp: s11 r noBypass_def)
  qed
qed

text \<open>Several VCU cycles in a row.\<close>

fun vcuCycles :: "'h SpiDriver \<Rightarrow> nat \<Rightarrow> 'h System \<Rightarrow> 'h System option" where
  "vcuCycles d 0 s = Some s"
| "vcuCycles d (Suc n) s = (case vTask_VCU_cycle d s of None \<Rightarrow> None | Some s' \<Rightarrow> vcuCycles d n s')"

lemma cycles_runs:
  assumes "runs (relayActuatorAdapter d) n (sys_vcu s) = Some v'"
    and "TEL_sensorDataQueue s = Some (Some tel)" "s_TEL_latestData (sys_vcu s) = tel"
    and "s_canForTorque s" "sys_can s \<noteq> None"
  shows "\<exists>s'. vcuCycles d n s = Some s' \<and> sys_vcu s' = v'"
  using assms
proof (induction n arbitrary: s)
  case (Suc n)
  obtain v1 where v1: "run (relayActuatorAdapter d) (sys_vcu s) = Some v1" "runs (relayActuatorAdapter d) n v1 = Some v'"
    using Suc.prems(1) by (auto split: option.splits)
  have same: "setTelemetryData tel (sys_vcu s) = sys_vcu s"
    using Suc.prems(3) by (cases "sys_vcu s") (simp add: setTelemetryData_def)
  let ?s = "s\<lparr> sys_vcu := v1 \<rparr>"
  obtain s1 where s1: "forwardTorque (drop (length (vcu_calls (sys_vcu s))) (vcu_calls v1)) ?s = Some s1"
    using forwardTorque_total[of ?s] Suc.prems(4,5) by auto
  have "vTask_VCU_cycle d s = Some s1" by (simp add: vTask_VCU_cycle_def Suc.prems(2) same v1(1) s1)
  moreover have "\<exists>s'. vcuCycles d n s1 = Some s' \<and> sys_vcu s' = v'"
    using Suc.IH[of s1] forwardTorque_fields[OF s1] v1 run_data[OF v1(1)] Suc.prems by simp
  ultimately show ?case by simp
qed simp

lemma cycle_publishes:
  assumes "can_ok s" "sys_can s = Some m"
  shows "TEL_sensorDataQueue (vTask_CAN_cycle env timeUs s) = Some (Some (publish timeUs (processRxMessages env m)))"
    "sys_can (vTask_CAN_cycle env timeUs s) = Some (processRxMessages env m)"
    "s_canForTorque (vTask_CAN_cycle env timeUs s)"
    "sys_vcu (vTask_CAN_cycle env timeUs s) =
       fold CAN_handleEvent (drop (length (can_events m)) (can_events (processRxMessages env m))) (sys_vcu s)"
  using assms by (auto simp: vTask_CAN_cycle_def can_ok_def Let_def)

lemma handleEvents_state [simp]: "s_state (fold CAN_handleEvent es v) = s_state v"
  by (induction es arbitrary: v) (auto simp: CAN_handleEvent_def postEvent_def split: option.splits)

lemma publish_fields [simp]:
  "TEL_bmsTimeoutActive (publish t m) = TEL_bmsTimeoutActive (s_telemetryData m)"
  "TEL_bmsDataValid (publish t m) = TEL_bmsDataValid (s_telemetryData m)"
  by (simp_all add: publish_def getTelemetryData_def Let_def)

text \<open>The first cycle behaves as if the snapshot had been handed over before.\<close>

lemma cycle_handover:
  assumes "TEL_sensorDataQueue s = Some (Some tel)"
  shows "vTask_VCU_cycle d (s\<lparr> sys_vcu := setTelemetryData tel (sys_vcu s) \<rparr>) = vTask_VCU_cycle d s"
proof -
  have "setTelemetryData tel (setTelemetryData tel v) = setTelemetryData tel v" for v :: "'a RelayManager Vcu"
    by (simp add: setTelemetryData_def)
  then show ?thesis using assms by (simp add: vTask_VCU_cycle_def Let_def split: option.split)
qed

lemma timeout_opens:
  assumes "sys_reach d s" "TEL_sensorDataQueue s = Some (Some tel)" "TEL_bmsTimeoutActive tel"
    and "s_canForTorque s" "sys_can s \<noteq> None" "s_state (sys_vcu s) = READY \<or> s_state (sys_vcu s) = DRIVE"
  shows "\<exists>s'. vcuCycles d 11 s = Some s' \<and>
    (s_state (sys_vcu s') = FAULT \<or> s_state (sys_vcu s') = EMERGENCY_STOP) \<and> s_relayState (relayObj (sys_vcu s')) = 0"
proof -
  let ?A = "relayActuatorAdapter d"
  let ?v = "setTelemetryData tel (sys_vcu s)"
  let ?s = "s\<lparr> sys_vcu := ?v \<rparr>"
  have r: "vreach d ?v" using sys_reach_vcu[OF assms(1)] by (rule reach_tel)
  have st: "vcu_struct ?v" "vcu_struct (sys_vcu s)"
    using reach_struct[OF r] reach_struct[OF sys_reach_vcu[OF assms(1)]] .
  have v: "s_state ?v = s_state (sys_vcu s)" "s_TEL_latestData ?v = tel"
    using st(2) by (simp_all add: setTelemetryData_def vcu_struct_def)
  have crit: "hasCriticalCondition (s_TEL_latestData ?v) st" if "st \<noteq> IDLE" for st
    using that assms(3) v(2) by (simp add: hasCriticalCondition_def)
  obtain v' where v': "runs ?A 11 ?v = Some v'" "s_state v' = FAULT \<or> s_state v' = EMERGENCY_STOP" "stopOpened v'"
    using live_shutdown[OF st(1) _ crit, of ?A] v(1) assms(6) by auto
  obtain s' where s': "vcuCycles d 11 ?s = Some s'" "sys_vcu s' = v'"
    using cycles_runs[of d 11 ?s v' tel] v' v assms(2,4,5) by auto
  have "vcuCycles d (Suc 10) ?s = vcuCycles d (Suc 10) s" by (simp only: vcuCycles.simps cycle_handover[OF assms(2)])
  then have "vcuCycles d 11 s = Some s'" using s'(1) by simp
  moreover have "rm.bank_inv v'" by (rule rm.reach_bank[OF runs_reach[OF r v'(1)]])
  then have "s_relayState (relayObj v') = 0"
    using v'(2,3) by (auto simp: rm.bank_inv_def stopOpened_def rmOpen_def)
  ultimately show ?thesis using s'(2) v'(2) by blast
qed

subsection \<open>Properties of the whole system\<close>

text \<open>C4. Loss of the battery opens the contactors, end to end: in any reachable state of the
  system in READY or DRIVE, if a CAN cycle receives no complete 0xE000 frame and the last one
  is 500 ms old or older, then eleven VCU cycles later, with no other task running in between,
  the vehicle is in FAULT or EMERGENCY_STOP and all ten contactors are commanded open, whatever
  events and pending requests there are.  The loss of 0xE001 alone is not covered.\<close>

theorem battery_loss_opens_contactors:
  assumes "sys_reach d s" "sys_can s = Some m" "CAN_hasSeen_BmsE000 m"
    and "s_state (sys_vcu s) = READY \<or> s_state (sys_vcu s) = DRIVE"
    and "\<forall>(msg, tick) \<in> set (received CAN_RX_DRAIN_MAX (env_rx env)). \<not> accepted CAN_ID_LB_BMS_E000 msg"
    and "env_bmsTick env - CAN_lastBmsE000Tick m \<ge> 50"
  shows "\<exists>s'. vcuCycles d 11 (vTask_CAN_cycle env timeUs s) = Some s' \<and>
    (s_state (sys_vcu s') = FAULT \<or> s_state (sys_vcu s') = EMERGENCY_STOP) \<and>
    s_relayState (relayObj (sys_vcu s')) = 0"
proof -
  let ?fs = "received CAN_RX_DRAIN_MAX (env_rx env)"
  have ok: "can_ok s" by (rule sys_reach_can[OF assms(1)])
  then have m: "isInitialized m" "s_mutex m" using assms(2) by (simp_all add: can_ok_def canStatic_def)
  have "lastTick CAN_ID_LB_BMS_E000 fs t = t" if "\<forall>(msg, tick) \<in> set fs. \<not> accepted CAN_ID_LB_BMS_E000 msg" for fs t
    using that by (induction fs arbitrary: t) (auto simp: lastTick_def)
  from this[OF assms(5)] have "TEL_bmsTimeoutActive (s_telemetryData (processRxMessages env m))"
    using bms_cycle[OF m refl refl refl refl refl refl] assms(3,6) by simp
  then show ?thesis
    using timeout_opens[OF sys_can_cycle[OF assms(1)], of env timeUs] cycle_publishes[OF ok assms(2), of env timeUs] assms(4)
    by auto
qed

text \<open>A system that has been started, has seen healthy battery frames and is in READY.\<close>

definition startFrame :: "u8 list" where
  "startFrame = [HMI_HEADER, HMI_CMD_START, NOT HMI_CMD_START]"

definition healthyEnv :: RxEnv where
  "healthyEnv = quietEnv 10 [(frame_of_words CAN_ID_LB_BMS_E000 0 768 5000 5000, 5),
                             (frame_of_words CAN_ID_LB_BMS_E001 33000 33100 33050 0x1919, 5)]"

definition bootSystem :: "FakeSpi System" where
  "bootSystem = \<lparr> sys_vcu = bootVcu, sys_can = None, s_canForTorque = False, TEL_sensorDataQueue = Some None,
     sys_hmi = DisplayHMI_new \<rparr>"

definition canBoot :: CanBoot where
  "canBoot = (True, (True, True, True), (False, False, False), (False, False, False), False, False)"

definition dataSystem :: "FakeSpi System" where
  "dataSystem = (vTask_CAN_cycle healthyEnv 0 (vTask_CAN_start canBoot bootSystem))\<lparr> sys_hmi := readyHmi \<rparr>"

lemma bootSystem_reach: "sys_reach fakeSpi bootSystem"
proof -
  have "RelayManager_begin fakeSpi (RelayManager_new \<lparr> s_regs = (\<lambda>_. 0xFF), s_writes = [] \<rparr>) = (True, fakeBooted)"
    by (simp add: fakeBooted_def begin_fake)
  then have "app_main fakeSpi True True True \<lparr> s_regs = (\<lambda>_. 0xFF), s_writes = [] \<rparr> = Some bootSystem"
    by (simp add: app_main_def bootSystem_def bootVcu_def)
  then show ?thesis by (rule sys_boot)
qed

lemma canStart_fields:
  "sys_can (vTask_CAN_start canBoot bootSystem) = Some canReady"
  "sys_vcu (vTask_CAN_start canBoot bootSystem) = bootVcu"
  by (simp_all add: vTask_CAN_start_def canBoot_def CanManager_begin_def setEventCallback_def CanManager_new_def
      canReady_def bootSystem_def)

lemma dataSystem_reach: "sys_reach fakeSpi dataSystem"
  unfolding dataSystem_def
  by (intro sys_display sys_can_cycle sys_can_start bootSystem_reach) (simp add: bootSystem_def)

lemma healthy_cycle:
  "isReadyEntryPermitted (publish 0 (processRxMessages healthyEnv canReady))"
  "can_events (processRxMessages healthyEnv canReady) = []"
  "CAN_hasSeen_BmsE000 (processRxMessages healthyEnv canReady)"
  "CAN_lastBmsE000Tick (processRxMessages healthyEnv canReady) = 5"
  "CAN_bmsPackFaultFlags (processRxMessages healthyEnv canReady) = 0"
  by code_simp+

abbreviation "healthyCan \<equiv> processRxMessages healthyEnv canReady"

lemma dataSystem_fields:
  "sys_vcu dataSystem = bootVcu" "sys_can dataSystem = Some healthyCan" "s_canForTorque dataSystem"
  "TEL_sensorDataQueue dataSystem = Some (Some (publish 0 healthyCan))" "sys_hmi dataSystem = readyHmi"
proof -
  have ok: "can_ok (vTask_CAN_start canBoot bootSystem)"
    by (rule sys_reach_can[OF sys_can_start[OF bootSystem_reach]]) (simp add: bootSystem_def)
  note c = cycle_publishes[OF ok canStart_fields(1), of healthyEnv 0]
  show "sys_vcu dataSystem = bootVcu" "sys_can dataSystem = Some healthyCan" "s_canForTorque dataSystem"
    "TEL_sensorDataQueue dataSystem = Some (Some (publish 0 healthyCan))" "sys_hmi dataSystem = readyHmi"
    using c by (simp_all add: dataSystem_def healthy_cycle(2) canStart_fields)
qed

definition armedVcu :: "FakeSpi RelayManager Vcu" where
  "armedVcu = setTelemetryData (publish 0 healthyCan) (postEvent Ev_START_REQUEST bootVcu)"

lemma armedVcu_fields [simp]:
  "s_state armedVcu = IDLE" "s_eventQueue armedVcu = Some [Ev_START_REQUEST]" "s_relays armedVcu"
  "s_eStopPending armedVcu = False" "s_faultPending armedVcu = False" "relayObj armedVcu = relayObj idleVcu"
  "s_TEL_latestData armedVcu = publish 0 healthyCan" "s_uptimeMs armedVcu = 0"
  by (simp_all add: armedVcu_def idleVcu_def bootVcu_def setTelemetryData_def setTorqueSink_def postEvent_def
      VcuLogic_init_def vcu_boot_def callAllOff_def Let_def transitionTo_def)

text \<open>The torque sink changes nothing of the CAN manager but the flag that throttles its log.\<close>

lemma sink_only_logs:
  "CAN_torqueSink t s = Some s' \<Longrightarrow> sys_can s = Some m \<Longrightarrow> \<exists>b. sys_can s' = Some (m\<lparr> CAN_torqueSkipLogged := b \<rparr>)"
  by (cases m) (auto simp: CAN_torqueSink_def sendTorqueCommand_def split: if_splits)

lemma forwardTorque_only_logs:
  "forwardTorque cs s = Some s' \<Longrightarrow> sys_can s = Some m \<Longrightarrow> \<exists>b. sys_can s' = Some (m\<lparr> CAN_torqueSkipLogged := b \<rparr>)"
proof (induction cs s arbitrary: m rule: forwardTorque.induct)
  case (1 s)
  then show ?case by (cases m) auto
next
  case (2 t cs s)
  then obtain s1 where s1: "CAN_torqueSink t s = Some s1" "forwardTorque cs s1 = Some s'"
    by (auto split: option.splits)
  obtain b where "sys_can s1 = Some (m\<lparr> CAN_torqueSkipLogged := b \<rparr>)" using sink_only_logs[OF s1(1) "2.prems"(2)] by blast
  from "2.IH"[OF s1 this] show ?case by simp
qed auto

lemma readySystem_exists:
  obtains s m where "sys_reach fakeSpi s" "sys_can s = Some m" "CAN_hasSeen_BmsE000 m"
    "CAN_lastBmsE000Tick m = 5" "CAN_bmsPackFaultFlags m = 0" "s_state (sys_vcu s) = READY" "sys_hmi s = readyHmi\<lparr> pendingCmd := HMI_CMD_START \<rparr>"
proof -
  let ?t = "vTask_HMI_touch startFrame dataSystem"
  have touch: "readTouchCommand startFrame readyHmi = (Some HMI_CMD_START, [], readyHmi\<lparr> pendingCmd := HMI_CMD_START \<rparr>)"
    using touchLoop_frame[of readyHmi HMI_CMD_START "[]"]
    by (simp add: readTouchCommand_def startFrame_def HMI_CMD_START_def)
  have t: "sys_vcu ?t = postEvent Ev_START_REQUEST bootVcu" "sys_can ?t = Some healthyCan" "s_canForTorque ?t"
    "TEL_sensorDataQueue ?t = Some (Some (publish 0 healthyCan))" "sys_hmi ?t = readyHmi\<lparr> pendingCmd := HMI_CMD_START \<rparr>"
    by (simp_all add: vTask_HMI_touch_def dataSystem_fields touch HMI_command_def)
  obtain v' where v': "run fakeAct armedVcu = Some v'" using run_total armedVcu_fields(3) by blast
  have "\<not> mustFault fakeAct armedVcu" using permitted_not_critical[OF healthy_cycle(1)] by (simp add: mustFault_def)
  then have st: "s_state v' = READY"
    using run_state[OF v'] healthy_cycle(1)
    by (simp add: runEvents_state handleStateEvent_state relayActuatorAdapter_def hasActuatorFault_def
        verifyIfDue_def idle_relay)
  obtain s' where s': "forwardTorque (drop (length (vcu_calls armedVcu)) (vcu_calls v')) (?t\<lparr> sys_vcu := v' \<rparr>) = Some s'"
    using forwardTorque_total[of "?t\<lparr> sys_vcu := v' \<rparr>"] t by auto
  have c: "vTask_VCU_cycle fakeSpi ?t = Some s'"
    using v' s' by (simp add: vTask_VCU_cycle_def t armedVcu_def)
  have "sys_reach fakeSpi s'" by (rule sys_vcu_cycle[OF sys_touch[OF dataSystem_reach] c])
  moreover obtain b where "sys_can s' = Some (healthyCan\<lparr> CAN_torqueSkipLogged := b \<rparr>)"
    using forwardTorque_only_logs[OF s'] t(2) by auto
  ultimately show thesis using that forwardTorque_fields[OF s'] st t healthy_cycle by simp
qed

theorem battery_loss_opens_contactors_witness:
  "\<exists>s m s'. sys_can s = Some m \<and> s_state (sys_vcu s) = READY \<and>
     vcuCycles fakeSpi 11 (vTask_CAN_cycle (quietEnv 55 []) 0 s) = Some s' \<and>
     s_relayState (relayObj (sys_vcu s')) = 0"
proof -
  obtain s m where s: "sys_reach fakeSpi s" "sys_can s = Some m" "CAN_hasSeen_BmsE000 m"
    "CAN_lastBmsE000Tick m = 5" "s_state (sys_vcu s) = READY"
    using readySystem_exists by blast
  then show ?thesis using battery_loss_opens_contactors[of fakeSpi s m "quietEnv 55 []" 0] by auto
qed

subsection \<open>Faults raised by the CAN side\<close>

text \<open>Events are only ever added, and only fault events.\<close>

definition raises :: "CanManager \<Rightarrow> CanManager \<Rightarrow> bool" where
  "raises m m' \<longleftrightarrow> (\<exists>es. can_events m' = can_events m @ es \<and> set es \<subseteq> {CAN_FAULT_DETECTED})"

lemma raises_refl [simp]: "raises m m" and raises_trans: "raises m m' \<Longrightarrow> raises m' m'' \<Longrightarrow> raises m m''"
  by (auto simp: raises_def)

lemma raises_same: "can_events m' = can_events m \<Longrightarrow> raises m m'"
  by (simp add: raises_def)

lemma notify_raises: "can_events m0 = can_events m \<Longrightarrow> raises m (notifyFaultIfNeeded p c m0)"
  by (simp add: notifyFaultIfNeeded_def raises_def)

lemma dispatch_raises: "raises m (dispatch tick msg m)"
proof (cases rule: dispatch_cases[of msg tick m])
  case e000
  then show ?thesis
    by (auto simp: handleLbBmsE000_def Let_def split: option.split intro: notify_raises)
next
  case motor
  then show ?thesis
    by (auto simp: handleMotorStatus_def Let_def case_prod_beta split: option.split intro: notify_raises)
qed (auto simp: handleLbBmsE001_def handleCharger1806E5F4_def handleCellGroup_def Let_def
       split: option.split intro: raises_same)

lemma handleAll_raises: "raises m (handleAll fs m)"
proof (induction fs arbitrary: m)
  case (Cons f fs)
  obtain msg tick where "f = (msg, tick)" by fastforce
  then show ?case using raises_trans[OF dispatch_raises Cons.IH] by simp
qed simp

lemma updates_events [simp]:
  "can_events (updateMotorStatusValidity t m) = can_events m" "can_events (updateBmsValidity t m) = can_events m"
  "can_events (updateCellVoltageValidity t m) = can_events m" "can_events (updateChargerValidity t m) = can_events m"
  "can_events (handleAlerts a t m) = can_events m"
  by (simp_all add: updateMotorStatusValidity_def updateBmsValidity_def updateCellVoltageValidity_def
      updateChargerValidity_def handleAlerts_def Let_def)

lemma alerts_flags [simp]: "CAN_bmsPackFaultFlags (handleAlerts a t m) = CAN_bmsPackFaultFlags m"
  by (simp add: handleAlerts_def Let_def)

lemma processRx_events:
  assumes "isInitialized m"
  shows "can_events (processRxMessages env m) = can_events (handleAll (received CAN_RX_DRAIN_MAX (env_rx env))
           (case env_alerts env of None \<Rightarrow> m | Some a \<Rightarrow> handleAlerts a (env_alertTick env) m))"
  using assms by (simp add: processRxMessages_def Let_def drain_handleAll)

lemma handleEvents_fault:
  assumes "set es \<subseteq> {CAN_FAULT_DETECTED}" "es \<noteq> []" "s_eventQueue v \<noteq> None"
  shows "s_faultPending (fold CAN_handleEvent es v)"
proof -
  obtain es' where es: "es = CAN_FAULT_DETECTED # es'" using assms(1,2) by (cases es) auto
  have keep: "s_faultPending w \<Longrightarrow> s_faultPending (fold CAN_handleEvent es' w)" for w :: "'a Vcu"
    by (induction es' arbitrary: w) (auto simp: CAN_handleEvent_def postEvent_def split: option.splits)
  show ?thesis using assms(3) keep by (auto simp: es CAN_handleEvent_def postEvent_def)
qed

lemma sys_queue: "sys_reach d s \<Longrightarrow> s_eventQueue (sys_vcu s) \<noteq> None"
  using reach_struct[OF sys_reach_vcu, of d s] by (auto simp: vcu_struct_def queue_ok_def split: option.splits)

lemma run_pending_fault:
  assumes "s_faultPending v" "s_state v \<noteq> FAULT"
  shows "\<exists>v'. run A v = Some v' \<and> vcu_calls v' = vcu_calls v \<and>
    (s_state v' = FAULT \<or> s_state v' = EMERGENCY_STOP \<and> s_faultPending v')"
  using assms by (cases "s_eStopPending v \<and> s_state v \<noteq> EMERGENCY_STOP") (auto simp: run_eq)

text \<open>A pending request is served by the next VCU cycle, which then makes no call on the sink.\<close>

text \<open>The state a VCU cycle runs on: the snapshot of the shared queue handed over.\<close>

definition handed :: "'h System \<Rightarrow> 'h RelayManager Vcu" where
  "handed s = (case TEL_sensorDataQueue s of Some (Some t) \<Rightarrow> setTelemetryData t (sys_vcu s) | _ \<Rightarrow> sys_vcu s)"

lemma handed_fields [simp]:
  "s_faultPending (handed s) = s_faultPending (sys_vcu s)" "s_eStopPending (handed s) = s_eStopPending (sys_vcu s)"
  "s_state (handed s) = s_state (sys_vcu s)" "vcu_calls (handed s) = vcu_calls (sys_vcu s)"
  "s_eventQueue (handed s) = s_eventQueue (sys_vcu s)" "s_stateTimer (handed s) = s_stateTimer (sys_vcu s)"
  "s_relays (handed s) = s_relays (sys_vcu s)" "s_torqueSink (handed s) = s_torqueSink (sys_vcu s)"
  "relayObj (handed s) = relayObj (sys_vcu s)" "stopOpened (handed s) = stopOpened (sys_vcu s)"
  "noBypass (handed s) = noBypass (sys_vcu s)" "headIsReset (handed s) = headIsReset (sys_vcu s)"
  by (simp_all add: handed_def setTelemetryData_def stopOpened_def noBypass_def headIsReset_def split: option.split)

lemma silent_cycle:
  assumes "run (relayActuatorAdapter d) (handed s) = Some v'" "vcu_calls v' = vcu_calls (sys_vcu s)"
  shows "vTask_VCU_cycle d s = Some (s\<lparr> sys_vcu := v' \<rparr>)"
proof -
  have "vcu_calls (handed s) = vcu_calls (sys_vcu s)" by simp
  then show ?thesis using assms by (simp add: vTask_VCU_cycle_def handed_def[symmetric] del: handed_fields)
qed

lemma pending_fault_cycle:
  assumes "s_faultPending (sys_vcu s)" "s_state (sys_vcu s) \<noteq> FAULT"
  shows "\<exists>s'. vTask_VCU_cycle d s = Some s' \<and>
    (s_state (sys_vcu s') = FAULT \<or> s_state (sys_vcu s') = EMERGENCY_STOP \<and> s_faultPending (sys_vcu s'))"
  using run_pending_fault[of "handed s" "relayActuatorAdapter d"] silent_cycle[of d s] assms by auto

lemma pending_estop_cycle:
  assumes "s_eStopPending (sys_vcu s)" "s_state (sys_vcu s) \<noteq> EMERGENCY_STOP"
  shows "\<exists>s'. vTask_VCU_cycle d s = Some s' \<and> s_state (sys_vcu s') = EMERGENCY_STOP"
  using silent_cycle[of d s] assms by (simp add: run_eq)

text \<open>Starting without a reported violation, the first violating 0xE000 frame raises a fault.\<close>

definition packViolation :: "twai_message \<Rightarrow> bool" where
  "packViolation msg \<longleftrightarrow> accepted CAN_ID_LB_BMS_E000 msg \<and> (word_at msg 2 \<le> 600 \<or> word_at msg 2 \<ge> 876)"

lemma dispatch_violation:
  assumes "canStatic m = (True, True, True)" "CAN_bmsPackFaultFlags m = 0" "packViolation msg"
  shows "can_events (dispatch tick msg m) = can_events m @ [CAN_FAULT_DETECTED]"
  using pack_fault_edge[OF _ _ _ _ _ _ refl refl, of m msg tick] assms
  by (auto simp: accepted_def canStatic_def packViolation_def)

lemma notify_flags [simp]: "CAN_bmsPackFaultFlags (notifyFaultIfNeeded p c m) = CAN_bmsPackFaultFlags m"
  by (simp add: notifyFaultIfNeeded_def)

lemma dispatch_no_violation:
  assumes "canStatic m = (True, True, True)" "CAN_bmsPackFaultFlags m = 0" "\<not> packViolation msg"
  shows "CAN_bmsPackFaultFlags (dispatch tick msg m) = 0"
proof (cases "accepted CAN_ID_LB_BMS_E000 msg")
  case True
  then show ?thesis
    using pack_fault_edge[OF _ _ _ _ _ _ refl refl, of m msg tick] assms
    by (auto simp: accepted_def canStatic_def packViolation_def packFaultFlags_eq)
next
  case False
  then show ?thesis using assms(2)
    by (cases rule: dispatch_cases[of msg tick m])
       (auto simp: accepted_def handleLbBmsE000_def parseLbBmsE000_def handleLbBmsE001_def handleCharger1806E5F4_def
          handleCellGroup_def handleMotorStatus_def Let_def case_prod_beta split: option.splits)
qed

lemma violation_raises:
  assumes "canStatic m = (True, True, True)" "CAN_bmsPackFaultFlags m = 0" "\<exists>(msg, tick) \<in> set fs. packViolation msg"
  shows "\<exists>es. can_events (handleAll fs m) = can_events m @ es \<and> es \<noteq> [] \<and> set es \<subseteq> {CAN_FAULT_DETECTED}"
  using assms
proof (induction fs arbitrary: m)
  case (Cons f fs)
  obtain msg tick where f: "f = (msg, tick)" by fastforce
  let ?m = "dispatch tick msg m"
  have st: "canStatic ?m = (True, True, True)" using Cons.prems(1) by (simp add: keeps)
  show ?case
  proof (cases "packViolation msg")
    case True
    then show ?thesis
      using dispatch_violation[OF Cons.prems(1,2) True, of tick] handleAll_raises[of ?m fs] by (auto simp: f raises_def)
  next
    case False
    then have "\<exists>es. can_events (handleAll fs ?m) = can_events ?m @ es \<and> es \<noteq> [] \<and> set es \<subseteq> {CAN_FAULT_DETECTED}"
      using Cons.IH[OF st dispatch_no_violation[OF Cons.prems(1,2)]] Cons.prems(3) by (auto simp: f)
    then show ?thesis using dispatch_raises[of m tick msg] by (auto simp: f raises_def)
  qed
qed simp

text \<open>C5. A pack voltage outside its limits stops the vehicle, end to end: in a reachable state that is
  not FAULT and in which the last pack voltage was within its limits (no violation flag is
  set), when any of the frames a CAN cycle handles is a complete 0xE000 frame with 60.0 V or
  less or 87.6 V or more, then the VCU cycle that follows ends in FAULT, or in EMERGENCY_STOP
  with the fault still pending.  A violation that persists is reported once, on its edge.\<close>

theorem pack_fault_stops_vehicle:
  assumes "sys_reach d s" "sys_can s = Some m" "CAN_bmsPackFaultFlags m = 0" "s_state (sys_vcu s) \<noteq> FAULT"
    and "(msg, tick) \<in> set (received CAN_RX_DRAIN_MAX (env_rx env))" "accepted CAN_ID_LB_BMS_E000 msg"
    and "word_at msg 2 \<le> 600 \<or> word_at msg 2 \<ge> 876"
  shows "\<exists>s'. vTask_VCU_cycle d (vTask_CAN_cycle env timeUs s) = Some s' \<and>
    (s_state (sys_vcu s') = FAULT \<or> s_state (sys_vcu s') = EMERGENCY_STOP \<and> s_faultPending (sys_vcu s'))"
proof -
  have ok: "can_ok s" by (rule sys_reach_can[OF assms(1)])
  then have m: "canStatic m = (True, True, True)" using assms(2) by (simp add: can_ok_def)
  define m0 where "m0 = (case env_alerts env of None \<Rightarrow> m | Some a \<Rightarrow> handleAlerts a (env_alertTick env) m)"
  have m0: "canStatic m0 = (True, True, True)" "can_events m0 = can_events m" "CAN_bmsPackFaultFlags m0 = 0"
    using m assms(3) by (simp_all add: m0_def keeps split: option.splits)
  have "\<exists>(msg, tick) \<in> set (received CAN_RX_DRAIN_MAX (env_rx env)). packViolation msg"
    using assms(5-7) by (auto simp: packViolation_def)
  then obtain es where "can_events (processRxMessages env m) = can_events m @ es" "es \<noteq> []" "set es \<subseteq> {CAN_FAULT_DETECTED}"
    using violation_raises[OF m0(1,3)] processRx_events[of m env] m m0(2) by (auto simp: m0_def canStatic_def)
  moreover have "s_eventQueue (sys_vcu s) \<noteq> None"
    by (rule sys_queue[OF assms(1)])
  ultimately have "s_faultPending (sys_vcu (vTask_CAN_cycle env timeUs s))"
    using handleEvents_fault cycle_publishes(4)[OF ok assms(2)] by simp
  then show ?thesis
    using pending_fault_cycle[of "vTask_CAN_cycle env timeUs s" d] assms(4) cycle_publishes(4)[OF ok assms(2)] by simp
qed

theorem pack_fault_stops_vehicle_witness:
  "\<exists>s s'. s_state (sys_vcu s) = READY \<and>
     vTask_VCU_cycle fakeSpi (vTask_CAN_cycle (quietEnv 8 [(frame_of_words CAN_ID_LB_BMS_E000 0 900 0 0, 7)]) 0 s) = Some s' \<and>
     s_state (sys_vcu s') \<noteq> READY"
proof -
  obtain s m where s: "sys_reach fakeSpi s" "sys_can s = Some m" "CAN_bmsPackFaultFlags m = 0" "s_state (sys_vcu s) = READY"
    using readySystem_exists by blast
  then show ?thesis
    using pack_fault_stops_vehicle[of fakeSpi s m "frame_of_words CAN_ID_LB_BMS_E000 0 900 0 0" 7
        "quietEnv 8 [(frame_of_words CAN_ID_LB_BMS_E000 0 900 0 0, 7)]" 0]
    by (auto simp: accepted_def word_le_nat_alt)
qed

subsection \<open>The emergency stop button\<close>

text \<open>C6. The emergency stop button works, end to end: in any reachable state other than
  EMERGENCY_STOP, with the display initialised and its decoder idle, when the bytes from the
  display contain an emergency stop frame with no header byte before it, the VCU cycle that
  follows is in EMERGENCY_STOP, whatever the queue and the telemetry are.  A stray header
  before the frame would swallow it.\<close>

theorem touch_estop_stops_vehicle:
  assumes "sys_reach d s" "HMI_isInitialized (sys_hmi s)" "rxState (sys_hmi s) = 0" "HMI_HEADER \<notin> set pre"
    and "s_state (sys_vcu s) \<noteq> EMERGENCY_STOP"
  shows "\<exists>s'. vTask_VCU_cycle d (vTask_HMI_touch
           (pre @ [HMI_HEADER, HMI_CMD_EMERGENCY_STOP, NOT HMI_CMD_EMERGENCY_STOP] @ rest) s) = Some s' \<and>
         s_state (sys_vcu s') = EMERGENCY_STOP"
proof -
  let ?rx = "pre @ [HMI_HEADER, HMI_CMD_EMERGENCY_STOP, NOT HMI_CMD_EMERGENCY_STOP] @ rest"
  have q: "s_eventQueue (sys_vcu s) \<noteq> None"
    by (rule sys_queue[OF assms(1)])
  have "fst (readTouchCommand ?rx (sys_hmi s)) = Some HMI_CMD_EMERGENCY_STOP"
    using touchLoop_skip[OF assms(3,4)] touchLoop_frame[OF assms(3), of HMI_CMD_EMERGENCY_STOP rest] assms(2)
    by (simp add: readTouchCommand_def del: touchLoop.simps) (simp add: HMI_CMD_EMERGENCY_STOP_def)
  then have t: "sys_vcu (vTask_HMI_touch ?rx s) = postEvent Ev_EMERGENCY_STOP (sys_vcu s)"
    by (simp add: vTask_HMI_touch_def Let_def case_prod_beta HMI_command_def HMI_CMD_EMERGENCY_STOP_def
        HMI_CMD_START_def HMI_CMD_RESET_def)
  have "s_eStopPending (sys_vcu (vTask_HMI_touch ?rx s))" "s_state (sys_vcu (vTask_HMI_touch ?rx s)) \<noteq> EMERGENCY_STOP"
    unfolding t using q assms(5) by (auto simp: postEvent_def)
  then show ?thesis by (rule pending_estop_cycle)
qed

theorem touch_estop_stops_vehicle_witness:
  "\<exists>s s'. s_state (sys_vcu s) = READY \<and>
     vTask_VCU_cycle fakeSpi (vTask_HMI_touch ([9] @ [HMI_HEADER, HMI_CMD_EMERGENCY_STOP, NOT HMI_CMD_EMERGENCY_STOP] @ []) s) = Some s' \<and>
     s_state (sys_vcu s') = EMERGENCY_STOP"
proof -
  obtain s m where s: "sys_reach fakeSpi s" "s_state (sys_vcu s) = READY" "sys_hmi s = readyHmi\<lparr> pendingCmd := HMI_CMD_START \<rparr>"
    using readySystem_exists by metis
  then show ?thesis using touch_estop_stops_vehicle[of fakeSpi s "[9]" "[]"] by (auto simp: HMI_HEADER_def)
qed

subsection \<open>No telemetry, no power\<close>

context relay_actuator
begin

lemma periodic_stays_open:
  assumes "bankOpen (relayObj v)" "s_state v \<noteq> READY"
  shows "bankOpen (relayObj (runPeriodic A v))"
  using assms
  by (cases "s_state v")
     (auto simp: runPeriodic_def handleIdle_def handleDrive_def handleEmergencyStop_relay handleFault_relay allOff_opens)

lemma events_stay_open:
  assumes "bankOpen (relayObj v)" "s_state v \<noteq> READY" "\<not> isReadyEntryPermitted (s_TEL_latestData v)"
  shows "bankOpen (relayObj (runEvents A v))"
proof -
  have h: "bankOpen (relayObj (runPeriodic A (handleStateEvent A e (v\<lparr> s_eventQueue := q \<rparr>))))" for e q
    using assms by (intro periodic_stays_open) (auto simp: handleStateEvent_state)
  show ?thesis
    using assms h periodic_stays_open[OF assms(1,2)]
    by (auto simp: runEvents_def pollEvent_eq clear_bank split: option.splits list.splits)
qed

lemma run_stays_open:
  assumes "bankOpen (relayObj v)" "s_state v \<noteq> READY" "s_state v \<noteq> DRIVE"
    and "\<not> isReadyEntryPermitted (s_TEL_latestData v)" "run A v = Some v'"
  shows "bankOpen (relayObj v') \<and> s_state v' \<noteq> READY \<and> s_state v' \<noteq> DRIVE"
proof -
  have "bankOpen (relayObj (runEvents A (updateWarningLog (verified A v))))"
    using assms by (intro events_stay_open) (simp_all add: verify_bank)
  then have "bankOpen (relayObj v')"
    using assms(1,5) by (auto simp: run_eq verify_bank split: if_splits)
  moreover have "s_state v' \<noteq> READY \<and> s_state v' \<noteq> DRIVE"
    using run_state[OF assms(5)] assms(2-4)
    by (auto simp: runEvents_state handleStateEvent_state split: option.splits list.splits)
  ultimately show ?thesis by blast
qed

end

definition unpowered :: "'h System \<Rightarrow> bool" where
  "unpowered s \<longleftrightarrow> s_TEL_latestData (sys_vcu s) = TelemetryData_zero \<and> s_state (sys_vcu s) \<noteq> READY \<and>
     s_state (sys_vcu s) \<noteq> DRIVE \<and> rmOpen (relayObj (sys_vcu s))"

lemma zero_not_permitted: "\<not> isReadyEntryPermitted TelemetryData_zero"
  by (simp add: isReadyEntryPermitted_def TelemetryData_zero_def)

lemma post_keeps [simp]:
  "s_TEL_latestData (postEvent e v) = s_TEL_latestData v" "s_state (postEvent e v) = s_state v"
  "relayObj (postEvent e v) = relayObj v"
  by (simp_all add: postEvent_def split: option.split)

lemma command_keeps [simp]:
  "s_TEL_latestData (HMI_command c v) = s_TEL_latestData v" "s_state (HMI_command c v) = s_state v"
  "relayObj (HMI_command c v) = relayObj v"
  by (simp_all add: HMI_command_def)

lemma sys_reach_unpowered: "sys_reach d s \<Longrightarrow> TEL_sensorDataQueue s = Some None \<Longrightarrow> unpowered s"
proof (induction rule: sys_reach.induct)
  case (sys_boot h s)
  then show ?case
    by (auto simp: app_main_def unpowered_def setTorqueSink_def VcuLogic_init_def Let_def vcu_boot_def callAllOff_def
        rm.allOff_opens split: prod.splits if_splits)
next
  case (sys_vcu_cycle s s')
  then obtain v cs where v: "run (relayActuatorAdapter d) (sys_vcu s) = Some v" "forwardTorque cs (s\<lparr> sys_vcu := v \<rparr>) = Some s'"
    "TEL_sensorDataQueue s = Some None"
    by (auto simp: vTask_VCU_cycle_def Let_def dest!: forwardTorque_fields split: option.splits)
  then have "unpowered s" using sys_vcu_cycle.IH by blast
  then show ?case
    using rm.run_stays_open[of "sys_vcu s", OF _ _ _ _ v(1)] run_data[OF v(1)] forwardTorque_fields[OF v(2)]
    by (simp add: unpowered_def zero_not_permitted)
next
  case (sys_can_cycle s env timeUs)
  then show ?case by (auto simp: vTask_CAN_cycle_def Let_def split: option.splits if_splits)
next
  case (sys_hw s r)
  then show ?case using rm.disturb_keeps(1) by (auto simp: unpowered_def)
qed (auto simp: unpowered_def vTask_CAN_start_def vTask_HMI_touch_def Let_def case_prod_beta split: option.splits)

text \<open>C7. No power without telemetry: as long as the CAN task has published nothing, in particular
  when the CAN bus could not be started, no interleaving of ticks, touch commands and hardware
  disturbances reaches READY or DRIVE, and all ten contactors stay commanded open.\<close>

theorem no_telemetry_no_power:
  assumes "sys_reach d s" "TEL_sensorDataQueue s = Some None"
  shows "s_state (sys_vcu s) \<noteq> READY \<and> s_state (sys_vcu s) \<noteq> DRIVE \<and> s_relayState (relayObj (sys_vcu s)) = 0"
  using sys_reach_unpowered[OF assms] by (simp add: unpowered_def rmOpen_def)

theorem no_telemetry_no_power_witness:
  "s_relayState (relayObj (sys_vcu (vTask_HMI_touch startFrame (bootSystem\<lparr> sys_hmi := readyHmi \<rparr>)))) = 0"
  using no_telemetry_no_power[OF sys_touch[OF sys_display[OF bootSystem_reach]], of startFrame readyHmi]
  by (simp add: vTask_HMI_touch_def Let_def case_prod_beta bootSystem_def)

subsection \<open>A CAN bus that does not start\<close>

lemma periodic_sink [simp]: "s_torqueSink (runPeriodic A v) = s_torqueSink v"
  by (simp add: runPeriodic_def handleIdle_def handleReady_def handleDrive_def handleEmergencyStop_def handleFault_def
      requestZeroTorque_def callAllOff_def callAllOn_def Let_def split: VcuState.split)

lemma events_keep_sink [simp]: "s_torqueSink (runEvents A v) = s_torqueSink v"
proof -
  have "s_torqueSink (handleStateEvent A e v) = s_torqueSink v" for e v
    by (simp add: handleStateEvent_def startRequest_def Let_def split: VcuState.splits)
  then show ?thesis by (simp add: runEvents_def pollEvent_eq Let_def split: option.splits list.splits)
qed

lemma run_sink: "run A v = Some v' \<Longrightarrow> s_torqueSink v' = s_torqueSink v"
  by (auto simp: run_eq split: if_splits)

lemma post_sink [simp]: "s_torqueSink (postEvent e v) = s_torqueSink v"
  by (simp add: postEvent_def split: option.split)

lemma events_sink [simp]: "s_torqueSink (fold CAN_handleEvent es v) = s_torqueSink v"
  by (induction es arbitrary: v) (simp_all add: CAN_handleEvent_def)

text \<open>The sink set by \<open>app_main\<close> stays set.\<close>

lemma sys_reach_sink: "sys_reach d s \<Longrightarrow> s_torqueSink (sys_vcu s)"
proof (induction rule: sys_reach.induct)
  case (sys_vcu_cycle s s')
  then obtain v cs where "run (relayActuatorAdapter d) (handed s) = Some v" "forwardTorque cs (s\<lparr> sys_vcu := v \<rparr>) = Some s'"
    by (auto simp: vTask_VCU_cycle_def handed_def[symmetric] Let_def split: option.splits)
  then show ?case using sys_vcu_cycle.IH forwardTorque_fields run_sink by fastforce
qed (auto simp: app_main_def setTorqueSink_def vTask_CAN_start_def vTask_CAN_cycle_def vTask_HMI_touch_def
       HMI_command_def Let_def case_prod_beta split: prod.splits option.splits if_splits)

lemma failed_start_fields:
  assumes "\<not> fst (CanManager_begin mutexCreated t500 t125 t250 fbInstalled fbStarted (setEventCallback True CanManager_new))"
  shows "vTask_CAN_start (mutexCreated, t500, t125, t250, fbInstalled, fbStarted) s = s\<lparr> s_canForTorque := True, sys_can := None \<rparr>"
  using assms by (simp add: vTask_CAN_start_def Let_def case_prod_beta)

lemma dangling_cycle:
  assumes "s_canForTorque s" "sys_can s = None" "s_state (sys_vcu s) = FAULT \<or> s_state (sys_vcu s) = EMERGENCY_STOP"
    and "s_stateTimer (sys_vcu s) = 0" "\<not> stopOpened (sys_vcu s)" "noBypass (sys_vcu s)" "\<not> headIsReset (sys_vcu s)"
    and "queue_ok (s_eventQueue (sys_vcu s))" "s_relays (sys_vcu s)" "s_torqueSink (sys_vcu s)"
  shows "vTask_VCU_cycle d s = None"
proof -
  obtain v' where v': "run (relayActuatorAdapter d) (handed s) = Some v'"
    "vcu_calls v' = vcu_calls (handed s) @ [TorqueCall 0, AllOffCall False]"
    using shutdown_calls[of "handed s" "relayActuatorAdapter d"] assms by auto
  then show ?thesis
    using assms(1,2)
    by (simp add: vTask_VCU_cycle_def handed_def[symmetric] CAN_torqueSink_def del: handed_fields)
qed

lemma estop_entry:
  assumes "vcu_struct (sys_vcu s)" "s_eStopPending (sys_vcu s)" "\<not> s_faultPending (sys_vcu s)"
    and "s_state (sys_vcu s) \<noteq> EMERGENCY_STOP" "\<not> headIsReset (sys_vcu s)" "s_torqueSink (sys_vcu s)"
    and "s_canForTorque s" "sys_can s = None"
  shows "\<exists>s'. vTask_VCU_cycle d s = Some s' \<and> s_state (sys_vcu s') = EMERGENCY_STOP \<and> vTask_VCU_cycle d s' = None"
proof -
  let ?v = "transitionTo EMERGENCY_STOP ((ticked (handed s))\<lparr> s_faultPending := False \<rparr>)"
  have q: "queue_ok (s_eventQueue (sys_vcu s))" "s_relays (sys_vcu s)" using assms(1) by (simp_all add: vcu_struct_def)
  have "run (relayActuatorAdapter d) (handed s) = Some ?v" using assms(2-4) by (simp add: run_eq)
  then have "vTask_VCU_cycle d s = Some (s\<lparr> sys_vcu := ?v \<rparr>)" by (rule silent_cycle) simp
  moreover have "\<not> headIsReset ?v" using assms(5) handed_fields(12)[of s] by (simp add: headIsReset_def)
  then have "vTask_VCU_cycle d (s\<lparr> sys_vcu := ?v \<rparr>) = None"
    using assms q by (intro dangling_cycle) (simp_all add: stopOpened_def noBypass_def)
  ultimately show ?thesis by simp
qed

text \<open>C40. A dangling torque sink: when the start of the CAN bus fails, in whatever way the driver
  answers, the task deletes itself but the pointer to the CAN manager on its stack stays set.
  An emergency stop frame from the display (initialised, decoder idle) then brings the VCU into
  EMERGENCY_STOP in its next cycle, if it is not there already; and if no fault is pending and
  no RESET heads the queue, the cycle after that asks for zero torque through the pointer and
  follows it to an object that no longer exists.\<close>

theorem failed_can_start_dangles:
  assumes "sys_reach d s" "\<not> s_canForTorque s"
    and "\<not> fst (CanManager_begin mutexCreated t500 t125 t250 fbInstalled fbStarted (setEventCallback True CanManager_new))"
    and "HMI_isInitialized (sys_hmi s)" "rxState (sys_hmi s) = 0"
    and "s_state (sys_vcu s) \<noteq> EMERGENCY_STOP" "\<not> s_faultPending (sys_vcu s)" "\<not> headIsReset (sys_vcu s)"
  shows "\<exists>s'. vTask_VCU_cycle d (vTask_HMI_touch [HMI_HEADER, HMI_CMD_EMERGENCY_STOP, NOT HMI_CMD_EMERGENCY_STOP]
             (vTask_CAN_start (mutexCreated, t500, t125, t250, fbInstalled, fbStarted) s)) = Some s' \<and>
           s_state (sys_vcu s') = EMERGENCY_STOP \<and> vTask_VCU_cycle d s' = None"
proof -
  let ?s1 = "vTask_CAN_start (mutexCreated, t500, t125, t250, fbInstalled, fbStarted) s"
  let ?rx = "[HMI_HEADER, HMI_CMD_EMERGENCY_STOP, NOT HMI_CMD_EMERGENCY_STOP]"
  let ?s2 = "vTask_HMI_touch ?rx ?s1"
  have r2: "sys_reach d ?s2" by (rule sys_touch[OF sys_can_start[OF assms(1,2)]])
  have s1: "?s1 = s\<lparr> s_canForTorque := True, sys_can := None \<rparr>" by (rule failed_start_fields[OF assms(3)])
  have "fst (readTouchCommand ?rx (sys_hmi s)) = Some HMI_CMD_EMERGENCY_STOP"
    using touchLoop_frame[OF assms(5), of HMI_CMD_EMERGENCY_STOP "[]"] assms(4)
    by (simp add: readTouchCommand_def del: touchLoop.simps) (simp add: HMI_CMD_EMERGENCY_STOP_def)
  then have s2: "sys_vcu ?s2 = postEvent Ev_EMERGENCY_STOP (sys_vcu s)" "s_canForTorque ?s2" "sys_can ?s2 = None"
    by (simp_all add: s1 vTask_HMI_touch_def Let_def case_prod_beta HMI_command_def HMI_CMD_EMERGENCY_STOP_def
        HMI_CMD_START_def HMI_CMD_RESET_def)
  have p: "sys_vcu ?s2 = (sys_vcu s)\<lparr> s_eStopPending := True \<rparr>"
    unfolding s2(1) using sys_queue[OF assms(1)] by (auto simp: postEvent_def)
  show ?thesis
    by (rule estop_entry) (use assms(6-8) p s2(2,3) sys_reach_sink[OF assms(1)] reach_struct[OF sys_reach_vcu[OF r2]]
        in \<open>simp_all add: headIsReset_def\<close>)
qed

definition noCanBoot :: CanBoot where
  "noCanBoot = (True, (False, False, False), (False, False, False), (False, False, False), False, False)"

lemma bootVcu_fields:
  "s_eventQueue bootVcu = Some []" "s_relays bootVcu" "s_torqueSink bootVcu" "s_state bootVcu = IDLE" "s_faultPending bootVcu = False"
  by (simp_all add: bootVcu_def setTorqueSink_def VcuLogic_init_def vcu_boot_def callAllOff_def Let_def)

theorem failed_can_start_dangles_witness:
  "\<exists>s'. vTask_VCU_cycle fakeSpi (vTask_HMI_touch [HMI_HEADER, HMI_CMD_EMERGENCY_STOP, NOT HMI_CMD_EMERGENCY_STOP]
          (vTask_CAN_start noCanBoot (bootSystem\<lparr> sys_hmi := readyHmi \<rparr>))) = Some s' \<and>
        s_state (sys_vcu s') = EMERGENCY_STOP \<and> vTask_VCU_cycle fakeSpi s' = None"
  unfolding noCanBoot_def
  by (rule failed_can_start_dangles[OF sys_display[OF bootSystem_reach]])
     (simp_all add: bootSystem_def bootVcu_fields headIsReset_def CanManager_begin_def setEventCallback_def CanManager_new_def)

end
