(* ===== verification/Vehicle_Spec.thy ===== *)
theory Vehicle_Spec
  imports Aks_System
begin

text \<open>
  An abstract specification of the vehicle, and the proof that the composed firmware
  implements it.  The specification knows five modes, whether the contactors are commanded
  closed, and the snapshot the vehicle decides on; it has no queues, flags, timers, tasks or
  registers.  The locale \<open>refinement\<close> is the general argument: when every step of a
  reachable concrete state is a step of the specification or invisible to it, then runs are
  runs of the specification and its invariants hold of the code.
\<close>

subsection \<open>Refinement of one transition system by another\<close>

locale refinement =
  fixes cinit :: "'c \<Rightarrow> bool" and cstep :: "'c \<Rightarrow> 'c \<Rightarrow> bool"
    and ainit :: "'a \<Rightarrow> bool" and astep :: "'a \<Rightarrow> 'a \<Rightarrow> bool"
    and absf :: "'c \<Rightarrow> 'a" and creach :: "'c \<Rightarrow> bool"
  assumes init_reach: "cinit c \<Longrightarrow> creach c"
    and step_reach: "creach c \<Longrightarrow> cstep c c' \<Longrightarrow> creach c'"
    and init_abs: "cinit c \<Longrightarrow> ainit (absf c)"
    and step_abs: "creach c \<Longrightarrow> cstep c c' \<Longrightarrow> absf c' = absf c \<or> astep (absf c) (absf c')"
begin

lemma run_reach:
  assumes "cstep\<^sup>*\<^sup>* c c'" "cinit c"
  shows "creach c'"
  using assms by (induction rule: rtranclp_induct) (auto intro: init_reach step_reach)

lemma run_refines:
  assumes "cstep\<^sup>*\<^sup>* c c'" "cinit c"
  shows "astep\<^sup>*\<^sup>* (absf c) (absf c')"
  using assms
proof (induction rule: rtranclp_induct)
  case (step c1 c2)
  have "absf c2 = absf c1 \<or> astep (absf c1) (absf c2)"
    using step_abs[OF run_reach[OF step.hyps(1) step.prems] step.hyps(2)] .
  then show ?case using step by auto
qed simp

lemma invariant_transfers:
  assumes "\<And>a. ainit a \<Longrightarrow> P a" "\<And>a a'. P a \<Longrightarrow> astep a a' \<Longrightarrow> P a'"
    and "cstep\<^sup>*\<^sup>* c c'" "cinit c"
  shows "P (absf c')"
proof -
  have "P a'" if "astep\<^sup>*\<^sup>* a a'" "P a" for a a'
    using that by (induction rule: rtranclp_induct) (auto intro: assms(2))
  then show ?thesis using run_refines[OF assms(3,4)] assms(1)[OF init_abs[OF assms(4)]] by blast
qed

end

subsection \<open>The specification\<close>

datatype Mode = Standby | Armed | Driving | Stopping | Stopped

record Vehicle =
  veh_mode :: Mode
  veh_closed :: bool
  veh_snap :: TelemetryData

abbreviation Veh :: "Mode \<Rightarrow> bool \<Rightarrow> TelemetryData \<Rightarrow> Vehicle" where
  "Veh m c t \<equiv> \<lparr> veh_mode = m, veh_closed = c, veh_snap = t \<rparr>"

text \<open>What makes a snapshot dangerous in a mode: losing the bus is no danger in standby.\<close>

definition hazard :: "Mode \<Rightarrow> TelemetryData \<Rightarrow> bool" where
  "hazard m t = hasCriticalCondition t (if m = Standby then IDLE else FAULT)"

text \<open>A step may take over a new snapshot and decides on it.  Contactors close in \<open>arm\<close> and
  open in \<open>open_bank\<close>, nowhere else; the vehicle stays in standby, armed or driving only
  while there is no hazard.  A reset may come before the contactors have opened and then
  leaves them closed, as the code does (theory \<open>Vcu_Hazards\<close>).\<close>

inductive veh_step :: "Vehicle \<Rightarrow> Vehicle \<Rightarrow> bool" where
  hold: "m \<in> {Standby, Armed, Driving} \<Longrightarrow> \<not> hazard m t' \<Longrightarrow> veh_step (Veh m c t) (Veh m c t')"
| hold_stop: "m \<in> {Stopping, Stopped} \<Longrightarrow> veh_step (Veh m c t) (Veh m c t')"
| arm: "isReadyEntryPermitted t' \<Longrightarrow> veh_step (Veh Standby c t) (Veh Armed True t')"
| drive: "\<not> hazard Armed t' \<Longrightarrow> veh_step (Veh Armed c t) (Veh Driving c t')"
| stop: "veh_step (Veh m c t) (Veh Stopping c t')"
| open_bank: "veh_step (Veh Stopping c t) (Veh Stopped False t')"
| reset: "m \<in> {Stopping, Stopped} \<Longrightarrow> \<not> hazard m t' \<Longrightarrow> veh_step (Veh m c t) (Veh Standby c t')"

inductive_cases veh_stepE: "veh_step a a'"

definition veh_init :: "Vehicle \<Rightarrow> bool" where
  "veh_init a \<longleftrightarrow> a = Veh Standby False TelemetryData_zero"

text \<open>The invariant of the specification: with power whenever armed or driving, never when stopped.\<close>

definition veh_safe :: "Vehicle \<Rightarrow> bool" where
  "veh_safe a \<longleftrightarrow> (veh_mode a \<in> {Armed, Driving} \<longrightarrow> veh_closed a) \<and> (veh_mode a = Stopped \<longrightarrow> \<not> veh_closed a)"

lemma veh_safe_init: "veh_init a \<Longrightarrow> veh_safe a"
  by (simp add: veh_init_def veh_safe_def)

lemma veh_safe_step: "veh_safe a \<Longrightarrow> veh_step a a' \<Longrightarrow> veh_safe a'"
  by (auto simp: veh_safe_def elim: veh_step.cases)

subsection \<open>The firmware as a transition system\<close>

inductive sys_step :: "'h SpiDriver \<Rightarrow> 'h System \<Rightarrow> 'h System \<Rightarrow> bool" for d where
  step_can_start: "\<not> s_canForTorque s \<Longrightarrow> sys_step d s (vTask_CAN_start ans s)"
| step_can: "sys_step d s (vTask_CAN_cycle env timeUs s)"
| step_vcu: "vTask_VCU_cycle d s = Some s' \<Longrightarrow> sys_step d s s'"
| step_touch: "sys_step d s (vTask_HMI_touch rx s)"
| step_display: "sys_step d s (s\<lparr> sys_hmi := h \<rparr>)"
| step_hw: "rmDisturb (relayObj (sys_vcu s)) r \<Longrightarrow> sys_step d s (s\<lparr> sys_vcu := (sys_vcu s)\<lparr> relayObj := r \<rparr> \<rparr>)"

definition sys_init :: "'h SpiDriver \<Rightarrow> 'h System \<Rightarrow> bool" where
  "sys_init d s \<longleftrightarrow> (\<exists>h. app_main d True True True h = Some s)"

lemma sys_step_reach: "sys_reach d s \<Longrightarrow> sys_step d s s' \<Longrightarrow> sys_reach d s'"
  by (auto elim!: sys_step.cases intro: sys_reach.intros)

lemma sys_reach_run: "sys_reach d s \<Longrightarrow> \<exists>s0. sys_init d s0 \<and> (sys_step d)\<^sup>*\<^sup>* s0 s"
  by (induction rule: sys_reach.induct)
     (auto simp: sys_init_def intro: rtranclp.rtrancl_into_rtrancl sys_step.intros)

subsection \<open>The abstraction\<close>

definition mode_of :: "'r Vcu \<Rightarrow> Mode" where
  "mode_of v = (case s_state v of
       INIT \<Rightarrow> Standby | IDLE \<Rightarrow> Standby | READY \<Rightarrow> Armed | DRIVE \<Rightarrow> Driving
     | EMERGENCY_STOP \<Rightarrow> if s_relaysOpenedInEstop v then Stopped else Stopping
     | FAULT \<Rightarrow> if s_relaysOpenedInFault v then Stopped else Stopping)"

definition vehicle_of :: "'h RelayManager Vcu \<Rightarrow> Vehicle" where
  "vehicle_of v = Veh (mode_of v) (s_relayState (relayObj v) \<noteq> 0) (s_TEL_latestData v)"


lemma vehicle_of_eq:
  "vehicle_of v = Veh m c t \<longleftrightarrow> mode_of v = m \<and> (s_relayState (relayObj v) \<noteq> 0) = c \<and> s_TEL_latestData v = t"
  by (simp add: vehicle_of_def)

lemma critical_not_idle: "st \<noteq> IDLE \<Longrightarrow> hasCriticalCondition t st = hasCriticalCondition t FAULT"
  by (simp add: hasCriticalCondition_def)

lemma mode_transition [simp]:
  "mode_of (transitionTo EMERGENCY_STOP v) = Stopping" "mode_of (transitionTo FAULT v) = Stopping"
  "mode_of (transitionTo IDLE v) = Standby"
  by (simp_all add: mode_of_def)

lemmas handlers_keep = handlers_ctl[unfolded vcu_ctl_def prod.inject]

lemma adapter_shadow [simp]:
  "s_relayState (act_verifyIfDue (relayActuatorAdapter d) t r) = s_relayState r"
  "s_relayState (act_clearActuatorFault (relayActuatorAdapter d) r) = s_relayState r"
  "s_relayState (act_allOff (relayActuatorAdapter d) silent r) = 0"
  "s_initialized r \<Longrightarrow> s_relayState (act_allOn (relayActuatorAdapter d) r) = ALL_CLOSED"
  by (simp_all add: relayActuatorAdapter_def ALL_CLOSED_def)

lemma bank_inv_closed:
  "rm.bank_inv v \<Longrightarrow> s_state v = READY \<or> s_state v = DRIVE \<Longrightarrow> s_relayState (relayObj v) = ALL_CLOSED"
  "rm.bank_inv v \<Longrightarrow> mode_of v = Stopped \<Longrightarrow> s_relayState (relayObj v) = 0"
  "rm.bank_inv v \<Longrightarrow> s_initialized (relayObj v)"
  by (auto simp: rm.bank_inv_def rmClosed_def rmOpen_def mode_of_def split: VcuState.splits if_splits)

text \<open>One handler call in a stop state: the bank is opened, or nothing visible happens.\<close>

lemma stop_handler_step:
  assumes "s_state v = FAULT \<or> s_state v = EMERGENCY_STOP" "rm.bank_inv v"
  shows "veh_step (vehicle_of v\<lparr> veh_snap := t \<rparr>) (vehicle_of (runPeriodic (relayActuatorAdapter d) v))"
proof -
  let ?w = "runPeriodic (relayActuatorAdapter d) v"
  have "mode_of ?w = mode_of v \<and> s_relayState (relayObj ?w) = s_relayState (relayObj v) \<or>
      mode_of v = Stopping \<and> mode_of ?w = Stopped \<and> s_relayState (relayObj ?w) = 0"
    using assms(1) bank_inv_closed(2)[OF assms(2)]
    by (auto simp: mode_of_def runPeriodic_def handleFault_relay handleEmergencyStop_relay handlers_keep
        split: if_splits)
  then consider (kept) "mode_of ?w = mode_of v" "s_relayState (relayObj ?w) = s_relayState (relayObj v)"
    | (opened) "mode_of v = Stopping" "mode_of ?w = Stopped" "s_relayState (relayObj ?w) = 0"
    by blast
  then show ?thesis
  proof cases
    case kept
    moreover have "mode_of v \<in> {Stopping, Stopped}" using assms(1) by (auto simp: mode_of_def)
    ultimately show ?thesis using hold_stop[of "mode_of v"] by (simp add: vehicle_of_def)
  next
    case opened
    then show ?thesis using open_bank by (simp add: vehicle_of_def)
  qed
qed


text \<open>The event phase of a tick that found no reason to stop.\<close>

lemma stop_events_step:
  assumes "s_state v = FAULT \<or> s_state v = EMERGENCY_STOP" "rm.bank_inv v" "queue_ok (s_eventQueue v)"
  shows "veh_step (vehicle_of v\<lparr> veh_snap := t \<rparr>) (vehicle_of (runEvents (relayActuatorAdapter d) v))"
proof -
  let ?A = "relayActuatorAdapter d"
  have m: "mode_of v \<in> {Stopping, Stopped}" using assms(1) by (auto simp: mode_of_def)
  have p: "rm.bank_inv (popped v)" "vehicle_of (popped v) = vehicle_of v"
    using assms(2) by (simp_all add: rm.bank_inv_def vehicle_of_def mode_of_def split: VcuState.splits)
  note ev = stop_events[of v ?A, OF _ assms(3)]
  consider (tick) "\<not> headIsReset v" | (rejected) "headIsReset v" "hasCriticalCondition (s_TEL_latestData v) (s_state v)"
    | (accepted) "headIsReset v" "\<not> hasCriticalCondition (s_TEL_latestData v) (s_state v)" by blast
  then show ?thesis
  proof cases
    case tick
    then show ?thesis using stop_handler_step[of "popped v" t d] ev(1) p assms(1) by auto
  next
    case rejected
    then have "runEvents ?A v = popped v" using ev(2) assms(1) by blast
    then show ?thesis using hold_stop[OF m] p(2) by (simp add: vehicle_of_def)
  next
    case accepted
    then have "\<not> hazard (mode_of v) (s_TEL_latestData v)"
      using m assms(1) critical_not_idle[of "s_state v"] by (auto simp: hazard_def)
    from reset[OF m this] show ?thesis
      using ev(3) accepted assms(1) by (auto simp: vehicle_of_def)
  qed
qed

lemma live_periodic:
  assumes "s_state v = IDLE \<or> s_state v = READY \<or> s_state v = DRIVE"
  shows "mode_of (runPeriodic A v) = mode_of v"
    "relayObj (runPeriodic A v) = (if s_state v = READY \<and> s_stateTimer v \<le> 20 then act_allOn A (relayObj v) else relayObj v)"
  using assms by (auto simp: runPeriodic_def mode_of_def handleIdle_def handleDrive_def handleReady_relay handlers_keep)

text \<open>The state handler of an event enters READY with its timer at zero.\<close>

lemma event_enters_ready:
  "s_state v = IDLE \<Longrightarrow> s_state (handleStateEvent A e v) = READY \<Longrightarrow> s_stateTimer (handleStateEvent A e v) = 0"
  by (simp add: handleStateEvent_def startRequest_def Let_def split: if_splits)

lemma live_event_moves:
  fixes v :: "'h RelayManager Vcu"
  assumes "s_state v = IDLE \<or> s_state v = READY \<or> s_state v = DRIVE" "rm.bank_inv v"
  shows "let w = runPeriodic (relayActuatorAdapter d) (handleStateEvent (relayActuatorAdapter d) e v);
             powered = (\<lambda>v :: 'h RelayManager Vcu. s_relayState (relayObj v) \<noteq> 0) in
    mode_of w = mode_of v \<and> powered w = powered v \<or>
    mode_of v = Standby \<and> mode_of w = Armed \<and> powered w \<and> isReadyEntryPermitted (s_TEL_latestData v) \<or>
    mode_of v = Armed \<and> mode_of w = Driving \<and> powered w = powered v"
proof -
  let ?A = "relayActuatorAdapter d"
  let ?x = "handleStateEvent ?A e v"
  have x: "s_state ?x = IDLE \<or> s_state ?x = READY \<or> s_state ?x = DRIVE"
    using assms(1) by (auto simp: handleStateEvent_state)
  have i: "s_initialized (relayObj v)" by (rule bank_inv_closed(3)[OF assms(2)])
  consider (same) "s_state ?x = s_state v" | (arm) "s_state v = IDLE" "s_state ?x = READY" "isReadyEntryPermitted (s_TEL_latestData v)"
    | (drive) "s_state v = READY" "s_state ?x = DRIVE"
    using handleStateEvent_state[of ?A e v] by presburger
  then show ?thesis
  proof cases
    case same
    then have "mode_of ?x = mode_of v" using assms(1) by (auto simp: mode_of_def)
    then show ?thesis
      using live_periodic[OF x, of ?A] same i bank_inv_closed(1)[OF assms(2)] by (auto simp: ALL_CLOSED_def Let_def)
  next
    case arm
    then show ?thesis
      using live_periodic[OF x, of ?A] i event_enters_ready[of v ?A e] by (simp add: mode_of_def ALL_CLOSED_def)
  next
    case drive
    then show ?thesis using live_periodic[OF x, of ?A] by (simp add: mode_of_def)
  qed
qed

lemma live_events_step:
  assumes "s_state v = IDLE \<or> s_state v = READY \<or> s_state v = DRIVE" "rm.bank_inv v" "queue_ok (s_eventQueue v)"
    and "\<not> hasCriticalCondition (s_TEL_latestData v) (s_state v)"
  shows "veh_step (vehicle_of v\<lparr> veh_snap := t \<rparr>) (vehicle_of (runEvents (relayActuatorAdapter d) v))"
proof -
  let ?A = "relayActuatorAdapter d"
  let ?w = "runEvents ?A v"
  have m: "mode_of v \<in> {Standby, Armed, Driving}" "\<not> hazard (mode_of v) (s_TEL_latestData v)"
    using assms(1,4) critical_not_idle[of "s_state v"] by (auto simp: mode_of_def hazard_def)
  have "mode_of ?w = mode_of v \<and> (s_relayState (relayObj ?w) \<noteq> 0) = (s_relayState (relayObj v) \<noteq> 0) \<or>
    mode_of v = Standby \<and> mode_of ?w = Armed \<and> s_relayState (relayObj ?w) \<noteq> 0 \<and> isReadyEntryPermitted (s_TEL_latestData v) \<or>
    mode_of v = Armed \<and> mode_of ?w = Driving \<and> (s_relayState (relayObj ?w) \<noteq> 0) = (s_relayState (relayObj v) \<noteq> 0)"
  proof (cases "s_eventQueue v = Some []")
    case True
    then have "?w = runPeriodic ?A v" by (simp add: runEvents_def pollEvent_eq)
    then show ?thesis
      using live_periodic[OF assms(1), of ?A] bank_inv_closed[OF assms(2)] by (auto simp: ALL_CLOSED_def)
  next
    case False
    then obtain e q where q: "s_eventQueue v = Some (e # q)" "e \<noteq> Ev_EMERGENCY_STOP" "e \<noteq> Ev_FAULT_DETECTED"
      using assms(3) by (auto simp: queue_ok_def neq_Nil_conv split: option.splits)
    let ?v = "v\<lparr> s_eventQueue := Some q \<rparr>"
    have "?w = runPeriodic ?A (handleStateEvent ?A e ?v)"
      using q assms(1) by (auto simp: runEvents_def pollEvent_eq)
    moreover have "rm.bank_inv ?v" "mode_of ?v = mode_of v"
      using assms(2) by (simp_all add: rm.bank_inv_def mode_of_def cong: VcuState.case_cong)
    ultimately show ?thesis using live_event_moves[of ?v d e] assms(1) by (simp add: Let_def)
  qed
  then show ?thesis
    using hold[OF m] arm[of "s_TEL_latestData v"] drive[of "s_TEL_latestData v"] m
    by (auto simp: vehicle_of_def)
qed


text \<open>A tick of a reachable machine is a step of the specification.\<close>

lemma run_veh_step:
  assumes "run (relayActuatorAdapter d) v = Some v'" "vcu_struct v" "rm.bank_inv v"
  shows "veh_step (vehicle_of v\<lparr> veh_snap := t \<rparr>) (vehicle_of v')"
proof -
  let ?A = "relayActuatorAdapter d"
  let ?w = "updateWarningLog (verified ?A v)"
  have w: "rm.bank_inv ?w" "queue_ok (s_eventQueue ?w)" "vehicle_of ?w = vehicle_of v"
    using assms(2,3)
    by (simp_all add: rm.bank_inv_def rm.actuator_simps vcu_struct_def vehicle_of_def mode_of_def cong: VcuState.case_cong)
  have st: "s_state v \<noteq> INIT" using assms(2) by (simp add: vcu_struct_def)
  show ?thesis
  proof (cases "v' = runEvents ?A ?w \<and> \<not> mustFault ?A v")
    case True
    then have "s_state v = IDLE \<or> s_state v = READY \<or> s_state v = DRIVE \<Longrightarrow>
        \<not> hasCriticalCondition (s_TEL_latestData ?w) (s_state ?w)" by (auto simp: mustFault_def)
    then show ?thesis
      using True st w live_events_step[of ?w t d] stop_events_step[of ?w t d] by (cases "s_state v") auto
  next
    case False
    then have "mode_of v' = Stopping \<and> s_relayState (relayObj v') = s_relayState (relayObj v) \<and>
        s_TEL_latestData v' = s_TEL_latestData v"
      using assms(1) by (auto simp: run_eq split: if_splits)
    then show ?thesis using stop by (simp add: vehicle_of_def)
  qed
qed

subsection \<open>The firmware implements the specification\<close>

abbreviation vehicle :: "'h System \<Rightarrow> Vehicle" where "vehicle s \<equiv> vehicle_of (sys_vcu s)"

lemma vehicle_post [simp]: "vehicle_of (postEvent e v) = vehicle_of v"
  by (simp add: vehicle_of_def mode_of_def postEvent_def cong: VcuState.case_cong split: option.split)

lemma vehicle_command [simp]: "vehicle_of (HMI_command c v) = vehicle_of v"
  by (simp add: HMI_command_def)

lemma vehicle_events [simp]: "vehicle_of (fold CAN_handleEvent es v) = vehicle_of v"
  by (induction es arbitrary: v) (auto simp: CAN_handleEvent_def)

lemma vcu_cycle_step:
  assumes "sys_reach d s" "vTask_VCU_cycle d s = Some s'"
  shows "veh_step (vehicle s) (vehicle s')"
proof -
  have r: "vreach d (handed s)"
    using sys_reach_vcu[OF assms(1)] by (auto simp: handed_def intro: reach_tel split: option.split)
  obtain v' cs where v': "run (relayActuatorAdapter d) (handed s) = Some v'" "forwardTorque cs (s\<lparr> sys_vcu := v' \<rparr>) = Some s'"
    using assms(2) by (auto simp: vTask_VCU_cycle_def Let_def handed_def[symmetric] split: option.splits)
  have "vehicle s = vehicle_of (handed s)\<lparr> veh_snap := s_TEL_latestData (sys_vcu s) \<rparr>"
    by (simp add: vehicle_of_def mode_of_def handed_def setTelemetryData_def cong: VcuState.case_cong split: option.split)
  then show ?thesis
    using run_veh_step[OF v'(1) reach_struct[OF r] rm.reach_bank[OF r]] forwardTorque_fields[OF v'(2)] by simp
qed

lemma sys_veh_step:
  assumes "sys_reach d s" "sys_step d s s'"
  shows "vehicle s' = vehicle s \<or> veh_step (vehicle s) (vehicle s')"
  using assms(2)
proof cases
  case step_vcu
  then show ?thesis using vcu_cycle_step[OF assms(1)] by blast
next
  case (step_hw r)
  then show ?thesis
    using rmDisturb_fields(1)[of "relayObj (sys_vcu s)" r] by (simp add: vehicle_of_def mode_of_def cong: VcuState.case_cong)
qed (auto simp: vTask_CAN_start_def vTask_CAN_cycle_def vTask_HMI_touch_def Let_def case_prod_beta split: option.split)

lemma app_main_vehicle: "app_main d True True True h = Some s \<Longrightarrow> veh_init (vehicle s)"
  by (auto simp: app_main_def veh_init_def vehicle_of_def mode_of_def setTorqueSink_def VcuLogic_init_def vcu_boot_def
      callAllOff_def Let_def split: prod.splits if_splits)

interpretation veh: refinement "sys_init d" "sys_step d" veh_init veh_step vehicle "sys_reach d"
proof unfold_locales
  fix s s' :: "'a System"
  show "sys_init d s \<Longrightarrow> sys_reach d s" by (auto simp: sys_init_def intro: sys_boot)
  show "sys_init d s \<Longrightarrow> veh_init (vehicle s)" by (auto simp: sys_init_def intro: app_main_vehicle)
  show "sys_reach d s \<Longrightarrow> sys_step d s s' \<Longrightarrow> sys_reach d s'" by (rule sys_step_reach)
  show "sys_reach d s \<Longrightarrow> sys_step d s s' \<Longrightarrow> vehicle s' = vehicle s \<or> veh_step (vehicle s) (vehicle s')"
    by (rule sys_veh_step)
qed

text \<open>The bank is always commanded as a whole.\<close>

context relay_actuator
begin

definition whole :: "'r Vcu \<Rightarrow> bool" where "whole v \<longleftrightarrow> bankOpen (relayObj v) \<or> bankClosed (relayObj v)"

lemma runPeriodic_whole: "usable (relayObj v) \<Longrightarrow> whole v \<Longrightarrow> whole (runPeriodic A v)"
  by (cases "s_state v")
     (auto simp: whole_def runPeriodic_def handleIdle_def handleDrive_def handleReady_relay handleEmergencyStop_relay
        handleFault_relay actuator_simps)

lemma runEvents_whole: "usable (relayObj v) \<Longrightarrow> whole v \<Longrightarrow> whole (runEvents A v)"
proof -
  assume v: "usable (relayObj v)" "whole v"
  have "whole (runPeriodic A (handleStateEvent A e (v\<lparr> s_eventQueue := q \<rparr>)))" for e q
    by (rule runPeriodic_whole) (use v in \<open>simp_all add: whole_def\<close>)
  then show ?thesis
    using v runPeriodic_whole[OF v]
    by (auto simp: runEvents_def pollEvent_eq whole_def actuator_simps split: option.splits list.splits)
qed

lemma run_whole:
  assumes "run A v = Some v'" "usable (relayObj v)" "whole v"
  shows "whole v'"
proof -
  have "whole (runEvents A (updateWarningLog (verified A v)))"
    by (rule runEvents_whole) (use assms in \<open>simp_all add: whole_def actuator_simps\<close>)
  then show ?thesis using assms by (auto simp: run_eq whole_def actuator_simps split: if_splits)
qed

lemma reach_whole: "vcu_reach A usable disturb v \<Longrightarrow> whole v"
proof (induction rule: vcu_reach.induct)
  case (reach_tick v v')
  then show ?case using run_whole reach_bank[OF reach_tick.hyps(1)] by (auto simp: bank_inv_def)
next
  case (reach_hw v r)
  then show ?case using disturb_keeps by (simp add: whole_def)
qed (simp_all add: whole_def VcuLogic_init_def callAllOff_def Let_def allOff_opens setTorqueSink_def postEvent_def
       setTelemetryData_def split: option.split)

end

text \<open>C2. The firmware implements the vehicle specification: every run of the composed tasks from a
  complete start-up is, through the abstraction, a run of the five-mode specification.  Each
  task step is one specification step or invisible, so contactors are commanded closed only
  when the vehicle is armed on a permitted snapshot and open only in a stop, the vehicle
  leaves standby, armed and driving when its snapshot is hazardous, and a reset needs a
  snapshot without hazard.  The bank is always commanded as a whole, is closed while armed or
  driving and open when stopped.\<close>

theorem vehicle_refines_spec:
  assumes "app_main d True True True h = Some s0" "(sys_step d)\<^sup>*\<^sup>* s0 s"
  shows "vehicle s0 = Veh Standby False TelemetryData_zero \<and> veh_step\<^sup>*\<^sup>* (vehicle s0) (vehicle s) \<and>
    (\<forall>s'. sys_step d s s' \<longrightarrow> vehicle s' = vehicle s \<or> veh_step (vehicle s) (vehicle s')) \<and>
    veh_safe (vehicle s) \<and> s_relayState (relayObj (sys_vcu s)) \<in> {0, ALL_CLOSED}"
proof (intro conjI)
  have i: "sys_init d s0" using assms(1) by (auto simp: sys_init_def)
  have r: "sys_reach d s" by (rule veh.run_reach[OF assms(2) i])
  show "vehicle s0 = Veh Standby False TelemetryData_zero"
    using app_main_vehicle[OF assms(1)] by (simp add: veh_init_def)
  show "veh_step\<^sup>*\<^sup>* (vehicle s0) (vehicle s)" by (rule veh.run_refines[OF assms(2) i])
  show "\<forall>s'. sys_step d s s' \<longrightarrow> vehicle s' = vehicle s \<or> veh_step (vehicle s) (vehicle s')"
    using sys_veh_step[OF r] by blast
  show "veh_safe (vehicle s)"
    by (rule veh.invariant_transfers[of veh_safe, OF _ _ assms(2) i]) (rule veh_safe_init veh_safe_step; assumption)+
  show "s_relayState (relayObj (sys_vcu s)) \<in> {0, ALL_CLOSED}"
    using rm.reach_whole[OF sys_reach_vcu[OF r]] by (auto simp: rm.whole_def rmOpen_def rmClosed_def)
qed

theorem vehicle_refines_spec_witness:
  "\<exists>s :: FakeSpi System. veh_mode (vehicle s) = Armed \<and> veh_closed (vehicle s) \<and>
     veh_step\<^sup>*\<^sup>* (Veh Standby False TelemetryData_zero) (vehicle s)"
proof -
  obtain s where s: "sys_reach fakeSpi s" "s_state (sys_vcu s) = READY" using readySystem_exists by metis
  then obtain s0 h where "app_main fakeSpi True True True h = Some s0" "(sys_step fakeSpi)\<^sup>*\<^sup>* s0 s"
    using sys_reach_run[OF s(1)] by (auto simp: sys_init_def)
  from vehicle_refines_spec[OF this] show ?thesis
    using s(2) by (intro exI[of _ s]) (auto simp: veh_safe_def vehicle_of_def mode_of_def)
qed

end
