(* ===== verification/Vehicle_Start.thy ===== *)
theory Vehicle_Start
  imports Vehicle_Spec
begin

text \<open>
  The other side of the safety properties: a healthy vehicle does start.  From the bytes of
  the display over the state machine and the relay driver to the pins of the port expander,
  for every chip that meets the laws of the locale \<open>mcp23s17\<close>.
\<close>

subsection \<open>Ticks that arm and that release the drive\<close>

lemma arm_tick:
  assumes "s_state v = IDLE" "s_eventQueue v = Some [Ev_START_REQUEST]" "noBypass v" "s_relays v"
    and "isReadyEntryPermitted (s_TEL_latestData v)"
    and "r = act_verifyIfDue A (s_uptimeMs v + 20) (relayObj v)" "\<not> act_hasActuatorFault A r"
  shows "\<exists>v'. run A v = Some v' \<and> s_state v' = READY \<and> relayObj v' = act_allOn A r \<and>
    vcu_calls v' = vcu_calls v @ [AllOnCall] \<and> s_eventQueue v' = Some [] \<and> noBypass v'"
proof -
  have "\<not> mustFault A v" using assms(1,5) permitted_not_critical by (auto simp: mustFault_def)
  then have "run A v = Some (runEvents A (updateWarningLog (verified A v)))"
    using assms(1,3,4) by (auto simp: run_eq noBypass_def)
  moreover have "s_state (runEvents A (updateWarningLog (verified A v))) = READY"
    "relayObj (runEvents A (updateWarningLog (verified A v))) = act_allOn A r"
    "vcu_calls (runEvents A (updateWarningLog (verified A v))) = vcu_calls v @ [AllOnCall]"
    using assms
    by (simp_all add: runEvents_def pollEvent_eq handleStateEvent_def startRequest_def getTelemetrySnapshot_def Let_def
        runPeriodic_def handleReady_def callAllOn_def)
  ultimately show ?thesis using assms(2,3) by (auto simp: runEvents_queue noBypass_def)
qed

lemma drive_tick:
  assumes "s_state v = READY" "s_eventQueue v = Some [Ev_DRIVE_ENABLE]" "noBypass v" "s_relays v"
    and "\<not> hasCriticalCondition (s_TEL_latestData v) READY"
    and "r = act_verifyIfDue A (s_uptimeMs v + 20) (relayObj v)" "\<not> act_hasActuatorFault A r"
  shows "\<exists>v'. run A v = Some v' \<and> s_state v' = DRIVE \<and> relayObj v' = r \<and> vcu_calls v' = vcu_calls v"
proof -
  have "\<not> mustFault A v" using assms by (simp add: mustFault_def)
  then have "run A v = Some (runEvents A (updateWarningLog (verified A v)))"
    using assms(1,3,4) by (auto simp: run_eq noBypass_def)
  then show ?thesis using assms
    by (simp add: runEvents_def pollEvent_eq handleStateEvent_def runPeriodic_def handleDrive_def)
qed

subsection \<open>A relay driver in order\<close>

definition relaySound :: "('h \<Rightarrow> u8 \<Rightarrow> u8) \<Rightarrow> ('h \<Rightarrow> bool) \<Rightarrow> 'h RelayManager \<Rightarrow> bool" where
  "relaySound reg ok r \<longleftrightarrow> s_initialized r \<and> s_spiDev r \<and> ok (chip r) \<and>
     regs_match (reg (chip r)) (s_relayState r) \<and> \<not> s_actuatorFault r"

definition powered :: "('h \<Rightarrow> u8 \<Rightarrow> u8) \<Rightarrow> 'h RelayManager \<Rightarrow> bool" where
  "powered reg r \<longleftrightarrow> (\<forall>n < 10. pinLow (reg (chip r)) n)"

context mcp23s17
begin

lemma relaySound_eq:
  "relaySound reg ok r \<longleftrightarrow> s_initialized r \<and> working r \<and> matches r \<and> \<not> s_actuatorFault r"
  by (auto simp: relaySound_def working_def matches_def)

lemma verifyIfDue_sound:
  assumes "relaySound reg ok r"
  shows "relaySound reg ok (verifyIfDue d t r)"
proof -
  have q: "relaySound reg ok (r\<lparr> s_lastVerifyMs := t \<rparr>)" using assms by (simp add: relaySound_def)
  then have "relaySound reg ok (snd (verifyOutputs d (r\<lparr> s_lastVerifyMs := t \<rparr>)))"
    using verifyOutputs_working[of "r\<lparr> s_lastVerifyMs := t \<rparr>"] initialized_keeps
    by (simp add: relaySound_eq verifyOutputs_fault)
  then show ?thesis using assms by (auto simp: verifyIfDue_def relaySound_def)
qed

lemma allOn_sound:
  assumes "relaySound reg ok r"
  shows "relaySound reg ok (allOn d r)"
  using assms allOn_working[of r] command_no_fault(1)[of r] by (simp add: relaySound_eq)

lemma allClosed_powered:
  assumes "relaySound reg ok r" "s_relayState r = ALL_CLOSED"
  shows "powered reg r"
  using assms regs_match_pin[of "reg (chip r)" "s_relayState r"]
  by (auto simp: powered_def relaySound_def ALL_CLOSED_bit)

end


subsection \<open>From the display to the pins\<close>

abbreviation touchFrame :: "u8 \<Rightarrow> u8 list" where "touchFrame c \<equiv> [HMI_HEADER, c, NOT c]"

lemma touch_frame:
  assumes "HMI_isInitialized (sys_hmi s)" "rxState (sys_hmi s) = 0" "c \<noteq> 0" "c \<noteq> 0xFF"
  shows "vTask_HMI_touch (touchFrame c) s =
    s\<lparr> sys_hmi := (sys_hmi s)\<lparr> pendingCmd := c, rxState := 0 \<rparr>, sys_vcu := HMI_command c (sys_vcu s) \<rparr>"
  using assms touchLoop_frame[of "sys_hmi s" c "[]"]
  by (simp add: vTask_HMI_touch_def readTouchCommand_def del: touchLoop.simps)

lemma cycle_of_run:
  assumes "run (relayActuatorAdapter d) (handed s) = Some v'" "vcu_calls v' = vcu_calls (handed s) @ cs"
    and "cs = [] \<or> cs = [AllOnCall]"
  shows "vTask_VCU_cycle d s = Some (s\<lparr> sys_vcu := v' \<rparr>)"
  using assms by (auto simp: vTask_VCU_cycle_def handed_def[symmetric] simp del: handed_fields)

lemma handed_data:
  "s_TEL_dataMutex (sys_vcu s) \<Longrightarrow> TEL_sensorDataQueue s = Some (Some tel) \<Longrightarrow> s_TEL_latestData (handed s) = tel"
  "s_TEL_dataMutex (handed s) = s_TEL_dataMutex (sys_vcu s)"
  by (simp_all add: handed_def setTelemetryData_def split: option.split)

text \<open>One command on the display and the cycle after it.\<close>

lemma start_cycle:
  assumes "mcp23s17 d reg ok" "relaySound reg ok (relayObj (sys_vcu s))" "vcu_struct (sys_vcu s)"
    and "HMI_isInitialized (sys_hmi s)" "rxState (sys_hmi s) = 0"
    and "TEL_sensorDataQueue s = Some (Some tel)" "isReadyEntryPermitted tel"
    and "s_state (sys_vcu s) = IDLE" "s_eventQueue (sys_vcu s) = Some []" "noBypass (sys_vcu s)"
  shows "\<exists>v'. vTask_VCU_cycle d (vTask_HMI_touch (touchFrame HMI_CMD_START) s) =
      Some (s\<lparr> sys_hmi := (sys_hmi s)\<lparr> pendingCmd := HMI_CMD_START, rxState := 0 \<rparr>, sys_vcu := v' \<rparr>) \<and>
    s_state v' = READY \<and> s_eventQueue v' = Some [] \<and> noBypass v' \<and>
    relaySound reg ok (relayObj v') \<and> s_relayState (relayObj v') = ALL_CLOSED"
proof -
  let ?A = "relayActuatorAdapter d"
  let ?s = "vTask_HMI_touch (touchFrame HMI_CMD_START) s"
  have t: "?s = s\<lparr> sys_hmi := (sys_hmi s)\<lparr> pendingCmd := HMI_CMD_START, rxState := 0 \<rparr>,
      sys_vcu := postEvent Ev_START_REQUEST (sys_vcu s) \<rparr>"
    using touch_frame[OF assms(4,5), of HMI_CMD_START] by (simp add: HMI_command_def HMI_CMD_START_def)
  have p: "postEvent Ev_START_REQUEST (sys_vcu s) = (sys_vcu s)\<lparr> s_eventQueue := Some [Ev_START_REQUEST] \<rparr>"
    using assms(9) by (simp add: postEvent_def)
  define r where "r = verifyIfDue d (s_uptimeMs (handed ?s) + 20) (relayObj (sys_vcu s))"
  have r: "relaySound reg ok r" unfolding r_def by (rule mcp23s17.verifyIfDue_sound[OF assms(1,2)])
  have "s_TEL_latestData (handed ?s) = tel"
    by (rule handed_data(1)) (use assms(3,6) in \<open>simp_all add: t p vcu_struct_def\<close>)
  then obtain v' where v': "run ?A (handed ?s) = Some v'" "s_state v' = READY" "relayObj v' = allOn d r"
      "vcu_calls v' = vcu_calls (handed ?s) @ [AllOnCall]" "s_eventQueue v' = Some []" "noBypass v'"
    using arm_tick[of "handed ?s" r ?A] assms(3,7-10) r
    by (auto simp: t p r_def relayActuatorAdapter_def hasActuatorFault_def relaySound_def vcu_struct_def noBypass_def)
  have "vTask_VCU_cycle d ?s = Some (?s\<lparr> sys_vcu := v' \<rparr>)" by (rule cycle_of_run[OF v'(1,4)]) simp
  moreover have "relaySound reg ok (allOn d r)" by (rule mcp23s17.allOn_sound[OF assms(1) r])
  moreover have "s_initialized r" using r by (simp add: relaySound_def)
  ultimately show ?thesis using v' t by auto
qed

lemma drive_cycle:
  assumes "mcp23s17 d reg ok" "relaySound reg ok (relayObj (sys_vcu s))" "vcu_struct (sys_vcu s)"
    and "HMI_isInitialized (sys_hmi s)" "rxState (sys_hmi s) = 0"
    and "TEL_sensorDataQueue s = Some (Some tel)" "\<not> hasCriticalCondition tel READY"
    and "s_state (sys_vcu s) = READY" "s_eventQueue (sys_vcu s) = Some []" "noBypass (sys_vcu s)"
  shows "\<exists>s'. vTask_VCU_cycle d (vTask_HMI_touch (touchFrame HMI_CMD_DRIVE_ENABLE) s) = Some s' \<and>
    s_state (sys_vcu s') = DRIVE \<and> relaySound reg ok (relayObj (sys_vcu s')) \<and>
    s_relayState (relayObj (sys_vcu s')) = s_relayState (relayObj (sys_vcu s))"
proof -
  let ?A = "relayActuatorAdapter d"
  let ?s = "vTask_HMI_touch (touchFrame HMI_CMD_DRIVE_ENABLE) s"
  have t: "?s = s\<lparr> sys_hmi := (sys_hmi s)\<lparr> pendingCmd := HMI_CMD_DRIVE_ENABLE, rxState := 0 \<rparr>,
      sys_vcu := postEvent Ev_DRIVE_ENABLE (sys_vcu s) \<rparr>"
    using touch_frame[OF assms(4,5), of HMI_CMD_DRIVE_ENABLE]
    by (simp add: HMI_command_def HMI_CMD_DRIVE_ENABLE_def HMI_CMD_START_def HMI_CMD_RESET_def HMI_CMD_EMERGENCY_STOP_def)
  have p: "postEvent Ev_DRIVE_ENABLE (sys_vcu s) = (sys_vcu s)\<lparr> s_eventQueue := Some [Ev_DRIVE_ENABLE] \<rparr>"
    using assms(9) by (simp add: postEvent_def)
  define r where "r = verifyIfDue d (s_uptimeMs (handed ?s) + 20) (relayObj (sys_vcu s))"
  have r: "relaySound reg ok r" unfolding r_def by (rule mcp23s17.verifyIfDue_sound[OF assms(1,2)])
  have "s_TEL_latestData (handed ?s) = tel"
    by (rule handed_data(1)) (use assms(3,6) in \<open>simp_all add: t p vcu_struct_def\<close>)
  then obtain v' where v': "run ?A (handed ?s) = Some v'" "s_state v' = DRIVE" "relayObj v' = r"
      "vcu_calls v' = vcu_calls (handed ?s) @ []"
    using drive_tick[of "handed ?s" r ?A] assms(3,7-10) r
    by (auto simp: t p r_def relayActuatorAdapter_def hasActuatorFault_def relaySound_def vcu_struct_def noBypass_def)
  have "vTask_VCU_cycle d ?s = Some (?s\<lparr> sys_vcu := v' \<rparr>)" by (rule cycle_of_run[OF v'(1,4)]) simp
  then show ?thesis using v' r by (auto simp: r_def)
qed

text \<open>C3. A healthy vehicle starts and drives, from the display to the pins: in a reachable system in
  IDLE with nothing pending, the registers of the port expander as commanded and a published
  snapshot that permits READY, a START frame from the display leads to READY in the next VCU
  cycle with all ten contactor pins driven, and a DRIVE frame then leads to DRIVE in the cycle
  after it, the pins still driven.\<close>

theorem healthy_vehicle_starts:
  assumes "mcp23s17 d reg ok" "sys_reach d s" "relaySound reg ok (relayObj (sys_vcu s))"
    and "HMI_isInitialized (sys_hmi s)" "rxState (sys_hmi s) = 0"
    and "TEL_sensorDataQueue s = Some (Some tel)" "isReadyEntryPermitted tel" "\<not> hasCriticalCondition tel READY"
    and "s_state (sys_vcu s) = IDLE" "s_eventQueue (sys_vcu s) = Some []" "noBypass (sys_vcu s)"
  shows "\<exists>s1 s2. vTask_VCU_cycle d (vTask_HMI_touch (touchFrame HMI_CMD_START) s) = Some s1 \<and>
    s_state (sys_vcu s1) = READY \<and> powered reg (relayObj (sys_vcu s1)) \<and>
    vTask_VCU_cycle d (vTask_HMI_touch (touchFrame HMI_CMD_DRIVE_ENABLE) s1) = Some s2 \<and>
    s_state (sys_vcu s2) = DRIVE \<and> powered reg (relayObj (sys_vcu s2))"
proof -
  have st: "vcu_struct (sys_vcu s)" by (rule reach_struct[OF sys_reach_vcu[OF assms(2)]])
  obtain v' where v': "vTask_VCU_cycle d (vTask_HMI_touch (touchFrame HMI_CMD_START) s) =
      Some (s\<lparr> sys_hmi := (sys_hmi s)\<lparr> pendingCmd := HMI_CMD_START, rxState := 0 \<rparr>, sys_vcu := v' \<rparr>)"
      "s_state v' = READY" "s_eventQueue v' = Some []" "noBypass v'"
      "relaySound reg ok (relayObj v')" "s_relayState (relayObj v') = ALL_CLOSED"
    using start_cycle[OF assms(1,3) st assms(4-7,9-11)] by blast
  define s1 where "s1 = s\<lparr> sys_hmi := (sys_hmi s)\<lparr> pendingCmd := HMI_CMD_START, rxState := 0 \<rparr>, sys_vcu := v' \<rparr>"
  have "sys_reach d s1" unfolding s1_def by (rule sys_vcu_cycle[OF sys_touch[OF assms(2)] v'(1)])
  then have "vcu_struct (sys_vcu s1)" by (rule reach_struct[OF sys_reach_vcu])
  then obtain s2 where s2: "vTask_VCU_cycle d (vTask_HMI_touch (touchFrame HMI_CMD_DRIVE_ENABLE) s1) = Some s2"
      "s_state (sys_vcu s2) = DRIVE" "relaySound reg ok (relayObj (sys_vcu s2))" "s_relayState (relayObj (sys_vcu s2)) = ALL_CLOSED"
    using drive_cycle[OF assms(1), of s1 tel] assms(4,6,8) v' by (auto simp: s1_def)
  have "powered reg (relayObj (sys_vcu s1))" "powered reg (relayObj (sys_vcu s2))"
    using mcp23s17.allClosed_powered[OF assms(1)] v'(5,6) s2(3,4) by (simp_all add: s1_def)
  then show ?thesis using v'(1,2) s2(1,2) by (auto simp: s1_def)
qed

theorem healthy_vehicle_starts_witness:
  "\<exists>s1 s2. vTask_VCU_cycle fakeSpi (vTask_HMI_touch (touchFrame HMI_CMD_START) dataSystem) = Some s1 \<and>
    powered s_regs (relayObj (sys_vcu s1)) \<and>
    vTask_VCU_cycle fakeSpi (vTask_HMI_touch (touchFrame HMI_CMD_DRIVE_ENABLE) s1) = Some s2 \<and>
    s_state (sys_vcu s2) = DRIVE"
proof -
  have c: "\<not> hasCriticalCondition (publish 0 healthyCan) READY" by code_simp
  have "relayObj bootVcu = relayObj idleVcu" by (simp add: idleVcu_def setTelemetryData_def)
  then have r: "relaySound s_regs (\<lambda>_. True) (relayObj bootVcu)"
    by (simp add: idle_relay relaySound_def regs_match_def verifyRegs_def expectedRegs_def hw_bytes_open[simplified] cfg)
  have v: "s_state bootVcu = IDLE" "noBypass bootVcu"
    by (simp_all add: bootVcu_def setTorqueSink_def VcuLogic_init_def vcu_boot_def callAllOff_def Let_def noBypass_def)
  show ?thesis
    using healthy_vehicle_starts[OF fake.mcp23s17_axioms dataSystem_reach, of "publish 0 healthyCan"]
      r v c healthy_cycle(1) by (auto simp: dataSystem_fields bootVcu_fields)
qed

end
