(* ===== verification/Aks_Types.thy ===== *)
theory Aks_Types
  imports Aks_System
begin

text \<open>
  The shape and range of the telemetry wherever it is held: in the CAN manager, in the shared
  queue and in the copy of the VCU.  The readers of the cell array, the display and the frame
  printer, index it by constants up to 23.
\<close>

definition tel_typed :: "TelemetryData \<Rightarrow> bool" where
  "tel_typed d \<longleftrightarrow> tel_wf d \<and> list_all (\<lambda>c. unat c \<le> 6553) (TEL_bmsCellVoltages d)"

lemma tel_typed_zero [simp]: "tel_typed TelemetryData_zero"
  by (simp add: tel_typed_def) (simp add: TelemetryData_zero_def list_all_iff)

lemma tel_typed_cells:
  "TEL_bmsCellVoltages d = TEL_bmsCellVoltages d' \<Longrightarrow> tel_typed d \<longleftrightarrow> tel_typed d'"
  by (simp add: tel_typed_def tel_wf_def)

definition can_typed :: "CanManager \<Rightarrow> bool" where
  "can_typed m \<longleftrightarrow> cell_inv m \<and> tel_typed (s_telemetryData m)"

lemma can_typed_cong: "cellPart m = cellPart m' \<Longrightarrow> can_typed m = can_typed m'"
  using cell_inv_cong[of m m'] tel_typed_cells[of "s_telemetryData m" "s_telemetryData m'"] by (simp add: can_typed_def cellPart_def)

lemma handleCellGroup_typed:
  assumes "can_typed m" "k < 6"
  shows "can_typed (handleCellGroup k (parseCellGroup (4 * k)) tick msg m)"
proof (cases "parseCellGroup (4 * k) msg TelemetryData_zero")
  case None
  then show ?thesis using assms(1) by (simp add: handleCellGroup_def)
next
  case (Some parsed)
  let ?m = "handleCellGroup k (parseCellGroup (4 * k)) tick msg m"
  let ?z = "TEL_bmsCellVoltages TelemetryData_zero"
  have l: "length ?z = 24" "length (TEL_bmsCellVoltages (s_telemetryData m)) = 24"
    using assms(1) tel_wf_zero by (simp_all add: can_typed_def tel_typed_def tel_wf_def)
  have cells: "TEL_bmsCellVoltages (s_telemetryData ?m) =
      copyCells (4 * k) (TEL_bmsCellVoltages parsed) (TEL_bmsCellVoltages (s_telemetryData m))"
    using Some by (simp add: handleCellGroup_def Let_def)
  have "unat (TEL_bmsCellVoltages (s_telemetryData ?m) ! i) \<le> 6553" if "i < 24" for i
    using parseCellGroup_nth[OF Some, of i] that l assms cell_raw_bound
    by (simp add: cells copyCells_nth can_typed_def tel_typed_def list_all_length)
  moreover have "cell_inv ?m" using assms handleCellGroup_inv by (simp add: can_typed_def)
  ultimately show ?thesis by (simp add: can_typed_def tel_typed_def cell_inv_def tel_wf_def list_all_length)
qed

lemma handleAll_typed: "can_typed m \<Longrightarrow> can_typed (handleAll fs m)"
proof (induction fs arbitrary: m)
  case (Cons f fs)
  obtain msg tick where f: "f = (msg, tick)" by (cases f)
  have "can_typed (dispatch tick msg m)"
  proof (cases rule: dispatch_cases[of msg tick m])
    case (cell k)
    then show ?thesis using handleCellGroup_typed[OF Cons.prems] by simp
  qed (use Cons.prems cellPart_keeps[THEN can_typed_cong] in auto)
  then show ?case using Cons.IH by (simp add: f)
qed simp

lemma updateCell_typed: "can_typed m \<Longrightarrow> can_typed (updateCellVoltageValidity now m)"
  using updateCell_inv[of m now]
  by (auto simp: can_typed_def updateCellVoltageValidity_def tel_typed_def tel_wf_def Let_def)

lemma processRx_typed:
  assumes "can_typed m" "isInitialized m"
  shows "can_typed (processRxMessages env m)"
proof -
  have "can_typed (case env_alerts env of None \<Rightarrow> m | Some a \<Rightarrow> handleAlerts a (env_alertTick env) m)"
    using assms cellPart_keeps(6)[THEN can_typed_cong] by (simp split: option.splits)
  then have "can_typed (drained env m)" by (simp add: drained_def handleAll_typed)
  then show ?thesis
    using cellPart_keeps(7-9)[THEN can_typed_cong] updateCell_typed by (simp add: processRx_eq[OF assms(2)])
qed

lemma start_typed:
  "CanManager_begin a b c e f g (setEventCallback True CanManager_new) = (True, m) \<Longrightarrow> can_typed m"
  by (auto simp: CanManager_begin_def setEventCallback_def CanManager_new_def can_typed_def cell_inv_def
      TelemetryData_zero_def tel_typed_def tel_wf_def list_all_iff Let_def split: if_splits option.splits)

definition sys_typed :: "'h System \<Rightarrow> bool" where
  "sys_typed s \<longleftrightarrow> (case sys_can s of None \<Rightarrow> True | Some m \<Rightarrow> can_typed m) \<and>
     (case TEL_sensorDataQueue s of Some (Some d) \<Rightarrow> tel_typed d | _ \<Rightarrow> True) \<and>
     tel_typed (s_TEL_latestData (sys_vcu s))"

lemma torque_typed: "can_typed (snd (sendTorqueCommand t m)) = can_typed m"
  by (rule can_typed_cong) (simp add: sendTorqueCommand_def cellPart_def)

lemma forwardTorque_typed:
  "forwardTorque cs s = Some s' \<Longrightarrow> sys_typed s \<Longrightarrow> sys_typed s'"
  by (induction cs s rule: forwardTorque.induct)
     (auto simp: CAN_torqueSink_def sys_typed_def torque_typed split: option.splits if_splits)

lemma events_data [simp]:
  "s_TEL_latestData (fold CAN_handleEvent es v) = s_TEL_latestData v"
  "s_TEL_latestData (HMI_command c v) = s_TEL_latestData v"
proof -
  have p: "s_TEL_latestData (postEvent ev v) = s_TEL_latestData v" for ev and v :: "'a Vcu"
    by (simp add: postEvent_def split: option.splits)
  show "s_TEL_latestData (fold CAN_handleEvent es v) = s_TEL_latestData v"
    by (induction es arbitrary: v) (simp_all add: CAN_handleEvent_def p)
  show "s_TEL_latestData (HMI_command c v) = s_TEL_latestData v" by (simp add: HMI_command_def p)
qed

lemma publish_typed: "tel_typed (publish t m) = tel_typed (s_telemetryData m)"
  by (rule tel_typed_cells) (simp add: publish_def getTelemetryData_def Let_def)

text \<open>C9. The telemetry is well-typed in every reachable state of the system, whatever arrives on the
  bus and however the tasks interleave: the data of the CAN manager, the snapshot in the shared
  queue and the copy of the VCU all hold exactly 24 cells of at most 6553 mV, and the CAN manager
  calls its cells valid exactly when all six cell frames have been seen.\<close>

theorem telemetry_typed:
  assumes "sys_reach d s"
  shows "sys_typed s"
  using assms
proof (induction rule: sys_reach.induct)
  case (sys_boot h s)
  then show ?case
    by (auto simp: app_main_def sys_typed_def setTorqueSink_def VcuLogic_init_def vcu_boot_def callAllOff_def Let_def
        split: prod.splits if_splits)
next
  case (sys_can_start s ans)
  obtain a b c e f g where ans: "ans = (a, b, c, e, f, g)" by (metis prod_cases6)
  show ?case
    using sys_can_start.IH start_typed[of a b c e f g]
    by (auto simp: vTask_CAN_start_def ans sys_typed_def split: prod.splits)
next
  case (sys_can_cycle s env timeUs)
  have "can_typed (processRxMessages env m)" if "sys_can s = Some m" for m
    using processRx_typed[of m env] sys_reach_can[OF sys_can_cycle.hyps] sys_can_cycle.IH that
    by (simp add: sys_typed_def can_ok_def canStatic_def)
  then show ?case using sys_can_cycle.IH
    by (auto simp: vTask_CAN_cycle_def sys_typed_def Let_def publish_typed can_typed_def split: option.splits)
next
  case (sys_vcu_cycle s s')
  obtain v v' where v: "run (relayActuatorAdapter d) v = Some v'" "tel_typed (s_TEL_latestData v)"
    "forwardTorque (drop (length (vcu_calls v)) (vcu_calls v')) (s\<lparr> sys_vcu := v' \<rparr>) = Some s'"
    using sys_vcu_cycle.IH sys_vcu_cycle.hyps(2)
    by (auto simp: vTask_VCU_cycle_def Let_def sys_typed_def setTelemetryData_def split: option.splits if_splits)
  have "sys_typed (s\<lparr> sys_vcu := v' \<rparr>)" using sys_vcu_cycle.IH v(2) run_data[OF v(1)] by (simp add: sys_typed_def)
  then show ?case using forwardTorque_typed[OF v(3)] by blast
next
  case (sys_touch s rx)
  then show ?case by (auto simp: sys_typed_def vTask_HMI_touch_def Let_def case_prod_beta split: option.splits)
qed (simp_all add: sys_typed_def)

theorem telemetry_typed_witness: "sys_typed dataSystem"
  by (rule telemetry_typed[OF dataSystem_reach])

end
