(* ===== verification/E22_Config.thy ===== *)
theory E22_Config
  imports Aks_Prelude
begin

text \<open>
  The register commands of the E22 radio module: include/E22Regs.h and
  lib/E22Config/E22Config.cpp.  A command builder returns the bytes it puts into the
  caller's buffer, whose length is the returned size; the buffer is given by its size, or
  \<open>None\<close> for a null pointer, and a buffer that is too small gives no bytes.  A response is
  the content of the caller's buffer and the number of bytes claimed to be valid.
\<close>

definition E22_CMD_WRITE :: u8 where [cfg]: "E22_CMD_WRITE = 0xC0"
definition E22_CMD_READ :: u8 where [cfg]: "E22_CMD_READ = 0xC1"
definition E22_CMD_WRITE_TEMP :: u8 where [cfg]: "E22_CMD_WRITE_TEMP = 0xC2"
definition E22_REG_ADDR_CRYPT_H :: u8 where [cfg]: "E22_REG_ADDR_CRYPT_H = 0x07"
definition E22_REG_BLOCK_START :: u8 where [cfg]: "E22_REG_BLOCK_START = 0x00"
definition E22_REG_BLOCK_LEN :: u8 where [cfg]: "E22_REG_BLOCK_LEN = 0x09"
definition E22_CFG_CRYPT_H :: u8 where [cfg]: "E22_CFG_CRYPT_H = 0x5A"
definition E22_CFG_CRYPT_L :: u8 where [cfg]: "E22_CFG_CRYPT_L = 0x3C"
definition E22_CRYPT_KEY :: u16 where [cfg]: "E22_CRYPT_KEY = 0x5A3C"

record E22RegValues =
  addh :: u8
  addl :: u8
  netid :: u8
  reg0 :: u8
  reg1 :: u8
  reg2 :: u8
  reg3 :: u8

definition E22_CONTRACT_REGS :: E22RegValues where
  "E22_CONTRACT_REGS = \<lparr> addh = 0x00, addl = 0x00, netid = 0x00, reg0 = 0x64, reg1 = 0x00, reg2 = 0x17, reg3 = 0x00 \<rparr>"

definition e22_buildReadAllCommand :: "nat option \<Rightarrow> u8 list" where
  "e22_buildReadAllCommand outBuf =
    (case outBuf of
       None \<Rightarrow> []
     | Some outBufSize \<Rightarrow>
         if outBufSize < 3 then [] else [E22_CMD_READ, E22_REG_BLOCK_START, E22_REG_BLOCK_LEN])"

definition e22_buildWriteCommand :: "E22RegValues \<Rightarrow> nat option \<Rightarrow> u8 list" where
  "e22_buildWriteCommand regs outBuf =
    (let total = 3 + unat E22_REG_BLOCK_LEN in
     case outBuf of
       None \<Rightarrow> []
     | Some outBufSize \<Rightarrow>
         if outBufSize < total then []
         else [E22_CMD_WRITE, E22_REG_BLOCK_START, E22_REG_BLOCK_LEN, addh regs, addl regs, netid regs,
               reg0 regs, reg1 regs, reg2 regs, reg3 regs, E22_CFG_CRYPT_H, E22_CFG_CRYPT_L])"

definition e22_buildWriteCryptTempCommand :: "nat option \<Rightarrow> u8 list" where
  "e22_buildWriteCryptTempCommand outBuf =
    (case outBuf of
       None \<Rightarrow> []
     | Some outBufSize \<Rightarrow>
         if outBufSize < 5 then []
         else [E22_CMD_WRITE_TEMP, E22_REG_ADDR_CRYPT_H, 0x02, E22_CFG_CRYPT_H, E22_CFG_CRYPT_L])"

definition e22_isErrorResponse :: "u8 list option \<Rightarrow> u32 \<Rightarrow> bool" where
  "e22_isErrorResponse resp respLen =
    (case resp of
       None \<Rightarrow> False
     | Some r \<Rightarrow> if respLen < 3 then False else r ! 0 = 0xFF \<and> r ! 1 = 0xFF \<and> r ! 2 = 0xFF)"

definition e22_parseRegResponse :: "u8 list option \<Rightarrow> u32 \<Rightarrow> E22RegValues option" where
  "e22_parseRegResponse resp respLen =
    (let expected = 3 + ucast E22_REG_BLOCK_LEN in
     case resp of
       None \<Rightarrow> None
     | Some r \<Rightarrow>
         if respLen < expected then None
         else if r ! 0 \<noteq> E22_CMD_READ then None
         else if r ! 1 \<noteq> E22_REG_BLOCK_START then None
         else if r ! 2 \<noteq> E22_REG_BLOCK_LEN then None
         else Some \<lparr> addh = r ! 3, addl = r ! 4, netid = r ! 5, reg0 = r ! 6, reg1 = r ! 7, reg2 = r ! 8, reg3 = r ! 9 \<rparr>)"

definition e22_regsEqual :: "E22RegValues \<Rightarrow> E22RegValues \<Rightarrow> bool" where
  "e22_regsEqual a b \<longleftrightarrow> addh a = addh b \<and> addl a = addl b \<and> netid a = netid b \<and> reg0 a = reg0 b \<and>
     reg1 a = reg1 b \<and> reg2 a = reg2 b \<and> reg3 a = reg3 b"

subsection \<open>Commands and responses\<close>

lemma regsEqual_iff [simp]: "e22_regsEqual a b \<longleftrightarrow> a = b"
  by (cases a; cases b) (auto simp: e22_regsEqual_def)

text \<open>The register block as the module stores and sends it; the module answers a read and
  confirms a write with the read header.\<close>

definition regBlock :: "E22RegValues \<Rightarrow> u8 \<Rightarrow> u8 \<Rightarrow> u8 list" where
  "regBlock r cryptH cryptL = [addh r, addl r, netid r, reg0 r, reg1 r, reg2 r, reg3 r, cryptH, cryptL]"

definition regAnswer :: "E22RegValues \<Rightarrow> u8 \<Rightarrow> u8 \<Rightarrow> u8 list" where
  "regAnswer r cryptH cryptL = E22_CMD_READ # E22_REG_BLOCK_START # E22_REG_BLOCK_LEN # regBlock r cryptH cryptL"

lemma length_regAnswer [simp]: "length (regAnswer r a b) = 12"
  by (simp add: regAnswer_def regBlock_def)

lemma readCommand:
  "e22_buildReadAllCommand (Some 3) = [E22_CMD_READ, E22_REG_BLOCK_START, E22_REG_BLOCK_LEN]"
  by (simp add: e22_buildReadAllCommand_def)

lemma writeCommand:
  "e22_buildWriteCommand r (Some 12) = E22_CMD_WRITE # E22_REG_BLOCK_START # E22_REG_BLOCK_LEN #
     regBlock r E22_CFG_CRYPT_H E22_CFG_CRYPT_L"
  by (simp add: e22_buildWriteCommand_def regBlock_def E22_REG_BLOCK_LEN_def)

lemma cryptCommand:
  "e22_buildWriteCryptTempCommand (Some 5) =
     [E22_CMD_WRITE_TEMP, E22_REG_ADDR_CRYPT_H, 2, E22_CFG_CRYPT_H, E22_CFG_CRYPT_L]"
  by (simp add: e22_buildWriteCryptTempCommand_def)

lemma parse_regAnswer: "12 \<le> n \<Longrightarrow> e22_parseRegResponse (Some (regAnswer r a b @ rest)) n = Some r"
  by (simp add: e22_parseRegResponse_def regAnswer_def regBlock_def E22_REG_BLOCK_LEN_def)

lemma answer_no_error: "\<not> e22_isErrorResponse (Some (regAnswer r a b @ rest)) n"
  by (simp add: e22_isErrorResponse_def regAnswer_def E22_CMD_READ_def)

lemma crypt_key_bytes: "be16 E22_CFG_CRYPT_H E22_CFG_CRYPT_L = E22_CRYPT_KEY"
  by (simp add: be16_def cfg)

end
