(* ===== verification/Lora_Link.thy ===== *)
theory Lora_Link
  imports E22_Config
begin

text \<open>
  The boot configuration of the radio, lib/LoraLink/LoraLink.cpp, over the hardware
  interface \<open>ILoraHal\<close> of LoraLink.h: a record of its virtual methods over a hardware state
  \<open>'h\<close>.  \<open>uartRead\<close> gives the returned count and the bytes it stored.  The polling loop of
  \<open>waitAuxReady\<close> ends only because time passes, so it is a partial function; \<open>None\<close> is a
  loop that does not end.  The configuration has no result in the code; the outcome it logs
  last is its result here.
\<close>

record 'h ILoraHal =
  hal_setModePins :: "int \<Rightarrow> int \<Rightarrow> 'h \<Rightarrow> 'h"
  hal_isAuxReady :: "'h \<Rightarrow> bool \<times> 'h"
  hal_auxRawLevel :: "'h \<Rightarrow> int \<times> 'h"
  hal_uartFlush :: "'h \<Rightarrow> 'h"
  hal_uartWrite :: "u8 list \<Rightarrow> 'h \<Rightarrow> int \<times> 'h"
  hal_uartRead :: "nat \<Rightarrow> u32 \<Rightarrow> 'h \<Rightarrow> (int \<times> u8 list) \<times> 'h"
  hal_delayMs :: "u32 \<Rightarrow> 'h \<Rightarrow> 'h"
  hal_nowMs :: "'h \<Rightarrow> 64 word \<times> 'h"
  hal_feedWatchdog :: "'h \<Rightarrow> 'h"
  hal_hexDumpE22 :: "u8 list \<Rightarrow> int \<Rightarrow> 'h \<Rightarrow> 'h"

definition LORA_MODE_NORMAL_M0_LEVEL :: int where [cfg]: "LORA_MODE_NORMAL_M0_LEVEL = 0"
definition LORA_MODE_NORMAL_M1_LEVEL :: int where [cfg]: "LORA_MODE_NORMAL_M1_LEVEL = 0"
definition LORA_MODE_CONFIG_M0_LEVEL :: int where [cfg]: "LORA_MODE_CONFIG_M0_LEVEL = 0"
definition LORA_MODE_CONFIG_M1_LEVEL :: int where [cfg]: "LORA_MODE_CONFIG_M1_LEVEL = 1"
definition LORA_AUX_MODE_TIMEOUT_MS :: u32 where [cfg]: "LORA_AUX_MODE_TIMEOUT_MS = 500"
definition LORA_AUX_CFG_TIMEOUT_MS :: u32 where [cfg]: "LORA_AUX_CFG_TIMEOUT_MS = 2000"
definition LORA_CFG_READ_TIMEOUT_MS :: u32 where [cfg]: "LORA_CFG_READ_TIMEOUT_MS = 500"

partial_function (option) auxLoop :: "'h ILoraHal \<Rightarrow> 64 word \<Rightarrow> u32 \<Rightarrow> 'h \<Rightarrow> (bool \<times> 'h) option" where
  "auxLoop hal t0 timeoutMs h =
    (case hal_nowMs hal h of (now, h) \<Rightarrow>
       if now - t0 < ucast timeoutMs
       then (case hal_isAuxReady hal h of (ready, h) \<Rightarrow>
               if ready then Some (True, h) else auxLoop hal t0 timeoutMs (hal_delayMs hal 10 h))
       else Some (False, h))"

definition waitAuxReady :: "'h ILoraHal \<Rightarrow> u32 \<Rightarrow> 'h \<Rightarrow> (bool \<times> 'h) option" where
  "waitAuxReady hal timeoutMs h = (case hal_nowMs hal h of (t0, h) \<Rightarrow> auxLoop hal t0 timeoutMs h)"

text \<open>A read into a zero-initialised local array: the count, the array, the new state.\<close>

definition rxArray :: "nat \<Rightarrow> int \<Rightarrow> u8 list \<Rightarrow> u8 list" where
  "rxArray len n bytes =
    (let stored = take (min len (nat n)) bytes in stored @ replicate (len - length stored) 0)"

definition readReply :: "'h ILoraHal \<Rightarrow> nat \<Rightarrow> 'h \<Rightarrow> int \<times> u8 list \<times> 'h" where
  "readReply hal len h =
    (case hal_uartRead hal len LORA_CFG_READ_TIMEOUT_MS h of ((n, bytes), h) \<Rightarrow> (n, rxArray len n bytes, h))"

datatype E22Outcome =
  AUX_TIMEOUT | CRYPT_REJECTED | CRYPT_NO_ANSWER | CRYPT_WRITTEN
  | FLASH_TIMEOUT | WRITE_REJECTED | WRITE_VERIFIED | WRITE_MISMATCH

definition cryptRefresh :: "'h ILoraHal \<Rightarrow> 'h \<Rightarrow> E22Outcome \<times> 'h" where
  "cryptRefresh hal h =
    (let h = hal_uartFlush hal h;
         h = snd (hal_uartWrite hal (e22_buildWriteCryptTempCommand (Some 5)) h);
         (cryptRespLen, cryptResp, h) = readReply hal 5 h;
         h = hal_hexDumpE22 hal cryptResp (if cryptRespLen > 0 then cryptRespLen else 0) h
     in (if cryptRespLen > 0 \<and> e22_isErrorResponse (Some cryptResp) (of_int cryptRespLen) then CRYPT_REJECTED
         else if cryptRespLen \<le> 0 then CRYPT_NO_ANSWER else CRYPT_WRITTEN, h))"

definition confirmOutcome :: "int \<Rightarrow> u8 list \<Rightarrow> E22Outcome" where
  "confirmOutcome confirmLen confirm =
    (if confirmLen > 0 \<and> e22_isErrorResponse (Some confirm) (of_int confirmLen) then WRITE_REJECTED
     else case e22_parseRegResponse (Some confirm) (of_int confirmLen) of
            Some written \<Rightarrow> if e22_regsEqual written E22_CONTRACT_REGS then WRITE_VERIFIED else WRITE_MISMATCH
          | None \<Rightarrow> WRITE_MISMATCH)"

definition writeContract :: "'h ILoraHal \<Rightarrow> 'h \<Rightarrow> (E22Outcome \<times> 'h) option" where
  "writeContract hal h =
    (let h = hal_uartFlush hal h;
         h = snd (hal_uartWrite hal (e22_buildWriteCommand E22_CONTRACT_REGS (Some (3 + unat E22_REG_BLOCK_LEN))) h);
         h = hal_delayMs hal 50 h
     in case waitAuxReady hal LORA_AUX_CFG_TIMEOUT_MS h of
          None \<Rightarrow> None
        | Some (flashDone, h) \<Rightarrow>
            if \<not> flashDone then Some (FLASH_TIMEOUT, h)
            else let (confirmLen, confirm, h) = readReply hal (3 + unat E22_REG_BLOCK_LEN) h;
                     h = hal_hexDumpE22 hal confirm (if confirmLen > 0 then confirmLen else 0) h
                 in Some (confirmOutcome confirmLen confirm, h))"

text \<open>The answer to the register query makes the flash write unnecessary.\<close>

definition configMatches :: "int \<Rightarrow> u8 list \<Rightarrow> bool" where
  "configMatches readLen readResp \<longleftrightarrow>
     \<not> (readLen > 0 \<and> e22_isErrorResponse (Some readResp) (of_int readLen)) \<and>
     (case e22_parseRegResponse (Some readResp) (of_int readLen) of
        Some current \<Rightarrow> e22_regsEqual current E22_CONTRACT_REGS
      | None \<Rightarrow> False)"

definition configSession :: "'h ILoraHal \<Rightarrow> 'h \<Rightarrow> (E22Outcome \<times> 'h) option" where
  "configSession hal h =
    (let h = hal_uartFlush hal h;
         h = snd (hal_uartWrite hal (e22_buildReadAllCommand (Some 3)) h);
         (readLen, readResp, h) = readReply hal (3 + unat E22_REG_BLOCK_LEN) h;
         h = hal_hexDumpE22 hal readResp (if readLen > 0 then readLen else 0) h
     in if configMatches readLen readResp then Some (cryptRefresh hal h) else writeContract hal h)"

definition configureE22 :: "'h ILoraHal \<Rightarrow> 'h \<Rightarrow> (E22Outcome \<times> 'h) option" where
  "configureE22 hal h =
    (let h = hal_setModePins hal LORA_MODE_CONFIG_M0_LEVEL LORA_MODE_CONFIG_M1_LEVEL h
     in case waitAuxReady hal LORA_AUX_MODE_TIMEOUT_MS h of
          None \<Rightarrow> None
        | Some (ready, h) \<Rightarrow>
            (case (if \<not> ready then Some (AUX_TIMEOUT, h) else configSession hal h) of
               None \<Rightarrow> None
             | Some (outcome, h) \<Rightarrow>
                 (let h = hal_setModePins hal LORA_MODE_NORMAL_M0_LEVEL LORA_MODE_NORMAL_M1_LEVEL h
                  in case waitAuxReady hal LORA_AUX_MODE_TIMEOUT_MS h of
                       None \<Rightarrow> None
                     | Some (_, h) \<Rightarrow> Some (outcome, snd (hal_auxRawLevel hal h)))))"

subsection \<open>The waits end\<close>

text \<open>What the hardware layer promises about time: every call takes between nothing and
  \<open>slack\<close> microseconds, a delay takes at least one, and the millisecond clock is the
  microsecond counter divided by 1000 while that fits a signed 64-bit number.\<close>

definition takes :: "('h \<Rightarrow> nat) \<Rightarrow> nat \<Rightarrow> 'h \<Rightarrow> 'h \<Rightarrow> bool" where
  "takes micros slack h h' \<longleftrightarrow> micros h \<le> micros h' \<and> micros h' \<le> micros h + slack"

lemma takes_trans: "takes m a h h1 \<Longrightarrow> takes m b h1 h2 \<Longrightarrow> takes m (a + b) h h2"
  by (simp add: takes_def)

lemma takes_le: "takes m a h h1 \<Longrightarrow> a \<le> b \<Longrightarrow> takes m b h h1"
  by (simp add: takes_def)

text \<open>Elapsed milliseconds, as the loop computes them.\<close>

lemma elapsed:
  assumes "s \<le> m" "m < 2 ^ 63"
  shows "(of_nat (m div 1000) - of_nat (s div 1000) < (ucast timeoutMs :: 64 word)) \<longleftrightarrow>
    m div 1000 < s div 1000 + unat (timeoutMs :: u32)"
proof -
  have le: "s div 1000 \<le> m div 1000" using assms(1) by (rule div_le_mono)
  have "m div 1000 \<le> m" by simp
  then have b: "m div 1000 - s div 1000 < 2 ^ 64" using assms(2) by simp
  have "(of_nat (m div 1000) - of_nat (s div 1000) :: 64 word) = of_nat (m div 1000 - s div 1000)"
    using le by (simp add: of_nat_diff)
  then have "unat (of_nat (m div 1000) - of_nat (s div 1000) :: 64 word) = m div 1000 - s div 1000"
    using b by (simp add: unat_of_nat take_bit_eq_mod)
  moreover have "unat (ucast timeoutMs :: 64 word) = unat timeoutMs"
    using unsigned_less[of timeoutMs, where 'a = nat] by (simp add: unsigned_ucast_eq take_bit_nat_eq_self)
  ultimately show ?thesis using le by (simp add: word_less_nat_alt less_diff_conv2 add.commute)
qed

locale lora_clock =
  fixes hal :: "'h ILoraHal" and micros :: "'h \<Rightarrow> nat" and slack :: nat
  assumes now_value: "micros (snd (hal_nowMs hal h)) < 2 ^ 63 \<Longrightarrow>
      fst (hal_nowMs hal h) = of_nat (micros (snd (hal_nowMs hal h)) div 1000)"
    and delay_passes: "10 \<le> ms \<Longrightarrow> ms \<le> 1000 \<Longrightarrow> micros h < micros (hal_delayMs hal ms h)"
    and call_times:
      "takes micros slack h (hal_setModePins hal m0 m1 h)"
      "takes micros slack h (snd (hal_isAuxReady hal h))"
      "takes micros slack h (snd (hal_auxRawLevel hal h))"
      "takes micros slack h (hal_uartFlush hal h)"
      "takes micros slack h (snd (hal_uartWrite hal bytes h))"
      "takes micros slack h (snd (hal_uartRead hal n timeoutMs h))"
      "takes micros slack h (hal_delayMs hal ms h)"
      "takes micros slack h (snd (hal_nowMs hal h))"
      "takes micros slack h (hal_hexDumpE22 hal buf len h)"
begin

lemma readReply_time: "takes micros slack h (snd (snd (readReply hal n h)))"
  using call_times(6)[of h n LORA_CFG_READ_TIMEOUT_MS] by (simp add: readReply_def case_prod_beta Let_def)

lemmas time = call_times[unfolded takes_def] readReply_time[unfolded takes_def]

lemma auxLoop_returns:
  assumes "s \<le> micros h" "micros h \<le> limit + 2 * slack" "limit + 3 * slack < 2 ^ 63"
    and limit: "limit = s + (unat timeoutMs + 1) * 1000"
  shows "\<exists>r h'. auxLoop hal (of_nat (s div 1000)) timeoutMs h = Some (r, h') \<and>
    micros h \<le> micros h' \<and> micros h' \<le> limit + 3 * slack"
  using assms(1,2)
proof (induction "limit + 2 * slack - micros h" arbitrary: h rule: less_induct)
  case less
  define h1 where "h1 = snd (hal_nowMs hal h)"
  define h2 where "h2 = snd (hal_isAuxReady hal h1)"
  define h3 where "h3 = hal_delayMs hal 10 h2"
  have t1: "micros h \<le> micros h1" "micros h1 \<le> micros h + slack" using time(8)[of h] by (simp_all add: h1_def)
  have t2: "micros h1 \<le> micros h2" "micros h2 \<le> micros h1 + slack" using time(2)[of h1] by (simp_all add: h2_def)
  have t3: "micros h2 < micros h3" "micros h3 \<le> micros h2 + slack"
    using delay_passes[of 10 h2] time(7)[of h2 10] by (simp_all add: h3_def)
  have now: "fst (hal_nowMs hal h) = of_nat (micros h1 div 1000)"
    using now_value[of h] t1 less.prems assms(3) by (simp add: h1_def)
  have test: "fst (hal_nowMs hal h) - of_nat (s div 1000) < ucast timeoutMs \<longleftrightarrow>
      micros h1 div 1000 < s div 1000 + unat timeoutMs"
    unfolding now by (rule elapsed) (use t1 less.prems assms(3) in linarith)+
  show ?case
  proof (cases "micros h1 div 1000 < s div 1000 + unat timeoutMs")
    case False
    then have "auxLoop hal (of_nat (s div 1000)) timeoutMs h = Some (False, h1)"
      using test by (subst auxLoop.simps) (simp add: case_prod_beta h1_def)
    then show ?thesis using t1 less.prems by auto
  next
    case True
    then have lim: "micros h1 < limit" unfolding limit by simp
    show ?thesis
    proof (cases "fst (hal_isAuxReady hal h1)")
      case ready: True
      then have "auxLoop hal (of_nat (s div 1000)) timeoutMs h = Some (True, h2)"
        using test True by (subst auxLoop.simps) (simp add: case_prod_beta h1_def h2_def)
      then show ?thesis using t1 t2 less.prems lim by auto
    next
      case False
      then have "auxLoop hal (of_nat (s div 1000)) timeoutMs h = auxLoop hal (of_nat (s div 1000)) timeoutMs h3"
        using test True by (subst auxLoop.simps) (simp add: case_prod_beta h1_def h2_def h3_def)
      moreover have "\<exists>r h'. auxLoop hal (of_nat (s div 1000)) timeoutMs h3 = Some (r, h') \<and>
          micros h3 \<le> micros h' \<and> micros h' \<le> limit + 3 * slack"
        by (rule less.hyps) (use t1 t2 t3 less.prems lim in linarith)+
      ultimately show ?thesis using t1 t2 t3 by auto
    qed
  qed
qed

lemma wait_returns:
  assumes "micros h + (unat timeoutMs + 1) * 1000 + 4 * slack < 2 ^ 63"
  shows "\<exists>r h'. waitAuxReady hal timeoutMs h = Some (r, h') \<and> micros h \<le> micros h' \<and>
    micros h' \<le> micros h + (unat timeoutMs + 1) * 1000 + 4 * slack"
proof -
  define h1 where "h1 = snd (hal_nowMs hal h)"
  have t: "micros h \<le> micros h1" "micros h1 \<le> micros h + slack" using time(8)[of h] by (simp_all add: h1_def)
  have "fst (hal_nowMs hal h) = of_nat (micros h1 div 1000)"
    using now_value[of h] t assms by (simp add: h1_def)
  then have w: "waitAuxReady hal timeoutMs h = auxLoop hal (of_nat (micros h1 div 1000)) timeoutMs h1"
    by (simp add: waitAuxReady_def case_prod_beta h1_def)
  show ?thesis unfolding w
    using auxLoop_returns[of "micros h1" h1 "micros h1 + (unat timeoutMs + 1) * 1000" timeoutMs] t assms
    by fastforce
qed

lemma wait_mode:
  assumes "micros h + 501000 + 4 * slack < 2 ^ 63"
  shows "\<exists>r h'. waitAuxReady hal LORA_AUX_MODE_TIMEOUT_MS h = Some (r, h') \<and> takes micros (501000 + 4 * slack) h h'"
  using wait_returns[of h LORA_AUX_MODE_TIMEOUT_MS] assms by (simp add: LORA_AUX_MODE_TIMEOUT_MS_def takes_def add.assoc)

lemma wait_flash:
  assumes "micros h + 2001000 + 4 * slack < 2 ^ 63"
  shows "\<exists>r h'. waitAuxReady hal LORA_AUX_CFG_TIMEOUT_MS h = Some (r, h') \<and> takes micros (2001000 + 4 * slack) h h'"
  using wait_returns[of h LORA_AUX_CFG_TIMEOUT_MS] assms by (simp add: LORA_AUX_CFG_TIMEOUT_MS_def takes_def add.assoc)

lemma writeContract_returns:
  assumes "micros h + 2001000 + 9 * slack < 2 ^ 63"
  shows "\<exists>r h'. writeContract hal h = Some (r, h') \<and> takes micros (2001000 + 9 * slack) h h'"
proof -
  let ?cmd = "e22_buildWriteCommand E22_CONTRACT_REGS (Some (3 + unat E22_REG_BLOCK_LEN))"
  define h3 where "h3 = hal_delayMs hal 50 (snd (hal_uartWrite hal ?cmd (hal_uartFlush hal h)))"
  have t3: "takes micros (3 * slack) h h3"
    unfolding h3_def by (rule takes_le[OF takes_trans[OF call_times(4) takes_trans[OF call_times(5) call_times(7)]]]) simp
  then obtain r h4 where w: "waitAuxReady hal LORA_AUX_CFG_TIMEOUT_MS h3 = Some (r, h4)"
    and t4: "takes micros (2001000 + 4 * slack) h3 h4"
    using wait_flash[of h3] assms by (auto simp: takes_def)
  have t: "takes micros (2001000 + 7 * slack) h h4" using takes_trans[OF t3 t4] by (simp add: algebra_simps)
  show ?thesis
  proof (cases r)
    case False
    then have "writeContract hal h = Some (FLASH_TIMEOUT, h4)"
      using w by (simp add: writeContract_def Let_def h3_def)
    then show ?thesis using takes_le[OF t] by simp
  next
    case True
    define rr where "rr = readReply hal (3 + unat E22_REG_BLOCK_LEN) h4"
    have e: "takes micros (2 * slack) h4 (hal_hexDumpE22 hal buf len (snd (snd rr)))" for buf len
      unfolding rr_def by (rule takes_le[OF takes_trans[OF readReply_time call_times(9)]]) simp
    have "takes micros (2001000 + 9 * slack) h (hal_hexDumpE22 hal buf len (snd (snd rr)))" for buf len
      by (rule takes_le[OF takes_trans[OF t e]]) simp
    then show ?thesis using w True
      by (simp add: writeContract_def Let_def case_prod_beta rr_def h3_def[symmetric])
  qed
qed

lemma exchange_time:
  "takes micros (4 * slack) h
     (hal_hexDumpE22 hal buf len (snd (snd (readReply hal n (snd (hal_uartWrite hal cmd (hal_uartFlush hal h)))))))"
  by (rule takes_le[OF takes_trans[OF call_times(4)
        takes_trans[OF call_times(5) takes_trans[OF readReply_time call_times(9)]]]]) simp

lemma cryptRefresh_time: "takes micros (4 * slack) h (snd (cryptRefresh hal h))"
  unfolding cryptRefresh_def Let_def case_prod_beta snd_conv by (rule exchange_time)

lemma configSession_returns:
  assumes "micros h + 2001000 + 13 * slack < 2 ^ 63"
  shows "\<exists>r h'. configSession hal h = Some (r, h') \<and> takes micros (2001000 + 13 * slack) h h'"
proof -
  define rr where "rr = readReply hal (3 + unat E22_REG_BLOCK_LEN)
    (snd (hal_uartWrite hal (e22_buildReadAllCommand (Some 3)) (hal_uartFlush hal h)))"
  define h4 where "h4 = hal_hexDumpE22 hal (fst (snd rr)) (if fst rr > 0 then fst rr else 0) (snd (snd rr))"
  have t: "takes micros (4 * slack) h h4"
    unfolding h4_def rr_def by (rule exchange_time)
  have s: "configSession hal h =
      (if configMatches (fst rr) (fst (snd rr)) then Some (cryptRefresh hal h4) else writeContract hal h4)"
    by (simp add: configSession_def Let_def case_prod_beta rr_def h4_def)
  show ?thesis
  proof (cases "configMatches (fst rr) (fst (snd rr))")
    case True
    have "takes micros (2001000 + 13 * slack) h (snd (cryptRefresh hal h4))"
      by (rule takes_le[OF takes_trans[OF t cryptRefresh_time]]) simp
    then show ?thesis using s True by (cases "cryptRefresh hal h4") simp
  next
    case False
    then obtain r h' where "configSession hal h = Some (r, h')" "takes micros (2001000 + 9 * slack) h4 h'"
      using s writeContract_returns[of h4] t assms by (auto simp: takes_def)
    then show ?thesis using takes_trans[OF t] by (fastforce simp: algebra_simps)
  qed
qed

lemma configureE22_returns:
  assumes "micros h + 3003000 + 24 * slack < 2 ^ 63"
  shows "\<exists>r h'. configureE22 hal h = Some (r, h') \<and> takes micros (3003000 + 24 * slack) h h'"
proof -
  define h1 where "h1 = hal_setModePins hal LORA_MODE_CONFIG_M0_LEVEL LORA_MODE_CONFIG_M1_LEVEL h"
  have t1: "takes micros slack h h1" using call_times(1) by (simp add: h1_def)
  obtain r h2 where w: "waitAuxReady hal LORA_AUX_MODE_TIMEOUT_MS h1 = Some (r, h2)"
    and t2: "takes micros (501000 + 4 * slack) h1 h2"
    using wait_mode[of h1] t1 assms by (auto simp: takes_def)
  have t12: "takes micros (501000 + 5 * slack) h h2" using takes_trans[OF t1 t2] by (simp add: algebra_simps)
  obtain o3 h3 where s: "(if \<not> r then Some (AUX_TIMEOUT, h2) else configSession hal h2) = Some (o3, h3)"
    and t3: "takes micros (2001000 + 13 * slack) h2 h3"
    using configSession_returns[of h2] t12 assms by (cases r) (auto simp: takes_def)
  define h4 where "h4 = hal_setModePins hal LORA_MODE_NORMAL_M0_LEVEL LORA_MODE_NORMAL_M1_LEVEL h3"
  have t4: "takes micros (2502000 + 19 * slack) h h4"
    unfolding h4_def by (rule takes_le[OF takes_trans[OF t12 takes_trans[OF t3 call_times(1)]]]) simp
  obtain r' h5 where w': "waitAuxReady hal LORA_AUX_MODE_TIMEOUT_MS h4 = Some (r', h5)"
    and t5: "takes micros (501000 + 4 * slack) h4 h5"
    using wait_mode[of h4] t4 assms by (auto simp: takes_def)
  have "configureE22 hal h = Some (o3, snd (hal_auxRawLevel hal h5))"
    using w s w' by (simp add: configureE22_def Let_def h1_def h4_def)
  moreover have "takes micros (3003000 + 24 * slack) h (snd (hal_auxRawLevel hal h5))"
    by (rule takes_le[OF takes_trans[OF t4 takes_trans[OF t5 call_times(3)]]]) simp
  ultimately show ?thesis by blast
qed

end

subsection \<open>What is said on the wire\<close>

text \<open>The hardware layer with a record of the mode changes and the UART traffic.\<close>

datatype HalCall = ModePins int int | Wrote "u8 list" | Got int "u8 list"

definition traced :: "'h ILoraHal \<Rightarrow> ('h \<times> HalCall list) ILoraHal" where
  "traced hal = \<lparr>
     hal_setModePins = (\<lambda>m0 m1 (h, l). (hal_setModePins hal m0 m1 h, l @ [ModePins m0 m1])),
     hal_isAuxReady = (\<lambda>(h, l). (fst (hal_isAuxReady hal h), snd (hal_isAuxReady hal h), l)),
     hal_auxRawLevel = (\<lambda>(h, l). (fst (hal_auxRawLevel hal h), snd (hal_auxRawLevel hal h), l)),
     hal_uartFlush = (\<lambda>(h, l). (hal_uartFlush hal h, l)),
     hal_uartWrite = (\<lambda>bytes (h, l). (fst (hal_uartWrite hal bytes h), snd (hal_uartWrite hal bytes h), l @ [Wrote bytes])),
     hal_uartRead = (\<lambda>n t (h, l). (fst (hal_uartRead hal n t h), snd (hal_uartRead hal n t h),
                                  l @ [Got (fst (fst (hal_uartRead hal n t h))) (snd (fst (hal_uartRead hal n t h)))])),
     hal_delayMs = (\<lambda>ms (h, l). (hal_delayMs hal ms h, l)),
     hal_nowMs = (\<lambda>(h, l). (fst (hal_nowMs hal h), snd (hal_nowMs hal h), l)),
     hal_feedWatchdog = (\<lambda>(h, l). (hal_feedWatchdog hal h, l)),
     hal_hexDumpE22 = (\<lambda>buf len (h, l). (hal_hexDumpE22 hal buf len h, l)) \<rparr>"

lemma traced_sel [simp]:
  "hal_setModePins (traced hal) m0 m1 (h, l) = (hal_setModePins hal m0 m1 h, l @ [ModePins m0 m1])"
  "hal_isAuxReady (traced hal) (h, l) = (fst (hal_isAuxReady hal h), snd (hal_isAuxReady hal h), l)"
  "hal_auxRawLevel (traced hal) (h, l) = (fst (hal_auxRawLevel hal h), snd (hal_auxRawLevel hal h), l)"
  "hal_uartFlush (traced hal) (h, l) = (hal_uartFlush hal h, l)"
  "hal_uartWrite (traced hal) bytes (h, l) = (fst (hal_uartWrite hal bytes h), snd (hal_uartWrite hal bytes h), l @ [Wrote bytes])"
  "hal_uartRead (traced hal) n t (h, l) = (fst (hal_uartRead hal n t h), snd (hal_uartRead hal n t h),
     l @ [Got (fst (fst (hal_uartRead hal n t h))) (snd (fst (hal_uartRead hal n t h)))])"
  "hal_delayMs (traced hal) ms (h, l) = (hal_delayMs hal ms h, l)"
  "hal_nowMs (traced hal) (h, l) = (fst (hal_nowMs hal h), snd (hal_nowMs hal h), l)"
  "hal_hexDumpE22 (traced hal) buf len (h, l) = (hal_hexDumpE22 hal buf len h, l)"
  by (simp_all add: traced_def)

context lora_clock begin

lemma traced_clock: "lora_clock (traced hal) (\<lambda>x. micros (fst x)) slack"
proof
  fix h :: "'h \<times> HalCall list"
  assume "micros (fst (snd (hal_nowMs (traced hal) h))) < 2 ^ 63"
  then show "fst (hal_nowMs (traced hal) h) = of_nat (micros (fst (snd (hal_nowMs (traced hal) h))) div 1000)"
    using now_value by (cases h) simp
qed (use delay_passes call_times in \<open>auto simp: takes_def\<close>)

end

lemma auxLoop_traced:
  assumes ret: "auxLoop (traced hal) t0 timeoutMs (h, l) = Some (r, h', l')"
  shows "l' = l \<and> auxLoop hal t0 timeoutMs h = Some (r, h')"
proof -
  let ?P = "\<lambda>hal' t0 timeoutMs x y. hal' = traced hal \<longrightarrow>
    snd (snd y) = snd x \<and> auxLoop hal t0 timeoutMs (fst x) = Some (fst y, fst (snd y))"
  have "?P (traced hal) t0 timeoutMs (h, l) (r, h', l')"
  proof (rule auxLoop.raw_induct[where P = ?P, OF _ ret])
    fix f hal' t0 timeoutMs and x :: "'a \<times> HalCall list" and y :: "bool \<times> 'a \<times> HalCall list"
    assume IH: "\<And>hal' t0 timeoutMs x y. f hal' t0 timeoutMs x = Some y \<Longrightarrow> ?P hal' t0 timeoutMs x y"
      and eq: "(case hal_nowMs hal' x of (now, h) \<Rightarrow>
        if now - t0 < ucast timeoutMs
        then (case hal_isAuxReady hal' h of (ready, h) \<Rightarrow>
               if ready then Some (True, h) else f hal' t0 timeoutMs (hal_delayMs hal' 10 h))
        else Some (False, h)) = Some y"
    show "?P hal' t0 timeoutMs x y"
      using eq auxLoop.simps[of hal t0 timeoutMs "fst x"]
      by (cases x) (auto simp: case_prod_beta split: if_splits dest!: IH)
  qed
  then show ?thesis by simp
qed

lemma wait_traced:
  "waitAuxReady (traced hal) timeoutMs (h, l) = Some (r, h', l') \<Longrightarrow> l' = l \<and> waitAuxReady hal timeoutMs h = Some (r, h')"
  by (auto simp: waitAuxReady_def case_prod_beta dest: auxLoop_traced)

text \<open>The two ways a session goes on after the register query: the key alone, into RAM, or
  the whole block, into flash.\<close>

definition cryptExchange :: "E22Outcome \<Rightarrow> HalCall list \<Rightarrow> bool" where
  "cryptExchange r calls \<longleftrightarrow>
     (\<exists>n bs. calls = [Wrote (e22_buildWriteCryptTempCommand (Some 5)), Got n bs]) \<and>
     r \<in> {CRYPT_REJECTED, CRYPT_NO_ANSWER, CRYPT_WRITTEN}"

definition flashExchange :: "E22Outcome \<Rightarrow> HalCall list \<Rightarrow> bool" where
  "flashExchange r calls \<longleftrightarrow>
     calls = [Wrote (e22_buildWriteCommand E22_CONTRACT_REGS (Some 12))] \<and> r = FLASH_TIMEOUT \<or>
     (\<exists>n bs. calls = [Wrote (e22_buildWriteCommand E22_CONTRACT_REGS (Some 12)), Got n bs] \<and>
        (r = WRITE_VERIFIED \<longleftrightarrow> configMatches n (rxArray 12 n bs)) \<and>
        r \<in> {WRITE_REJECTED, WRITE_VERIFIED, WRITE_MISMATCH})"

lemma cryptRefresh_traced:
  "cryptRefresh (traced hal) (h, l) = (r, h', l') \<Longrightarrow> \<exists>cs. l' = l @ cs \<and> cryptExchange r cs"
  by (auto simp: cryptRefresh_def readReply_def case_prod_beta Let_def cryptExchange_def split: if_splits)

lemma block_bytes [simp]: "3 + unat E22_REG_BLOCK_LEN = 12" by (simp add: E22_REG_BLOCK_LEN_def)

lemma confirm_verified: "confirmOutcome n buf = WRITE_VERIFIED \<longleftrightarrow> configMatches n buf"
  by (auto simp: confirmOutcome_def configMatches_def split: option.split)

lemma confirm_cases: "confirmOutcome n buf \<in> {WRITE_REJECTED, WRITE_VERIFIED, WRITE_MISMATCH}"
  by (auto simp: confirmOutcome_def split: option.split)

lemma writeContract_traced:
  "writeContract (traced hal) (h, l) = Some (r, h', l') \<Longrightarrow> \<exists>cs. l' = l @ cs \<and> flashExchange r cs"
  using confirm_cases confirm_verified
  by (auto simp: writeContract_def readReply_def case_prod_beta Let_def flashExchange_def
      split: option.splits if_splits dest!: wait_traced)

lemma configSession_traced:
  assumes "configSession (traced hal) (h, l) = Some (r, h', l')"
  shows "\<exists>n bs cs. l' = l @ Wrote (e22_buildReadAllCommand (Some 3)) # Got n bs # cs \<and>
    (if configMatches n (rxArray 12 n bs) then cryptExchange r cs else flashExchange r cs)"
proof -
  define rd where "rd = hal_uartRead hal 12 LORA_CFG_READ_TIMEOUT_MS
    (snd (hal_uartWrite hal (e22_buildReadAllCommand (Some 3)) (hal_uartFlush hal h)))"
  define n bs where nb: "n = fst (fst rd)" "bs = snd (fst rd)"
  define l2 where "l2 = l @ [Wrote (e22_buildReadAllCommand (Some 3)), Got n bs]"
  define h4 where "h4 = hal_hexDumpE22 hal (rxArray 12 n bs) (if n > 0 then n else 0) (snd rd)"
  have eq: "configSession (traced hal) (h, l) =
      (if configMatches n (rxArray 12 n bs) then Some (cryptRefresh (traced hal) (h4, l2))
       else writeContract (traced hal) (h4, l2))"
    by (simp add: configSession_def readReply_def case_prod_beta Let_def rd_def nb l2_def h4_def)
  obtain cs where "l' = l2 @ cs" "if configMatches n (rxArray 12 n bs) then cryptExchange r cs else flashExchange r cs"
    using assms cryptRefresh_traced[of hal h4 l2 r h' l'] writeContract_traced[of hal h4 l2 r h' l']
    unfolding eq by (auto split: if_splits)
  then show ?thesis by (intro exI[of _ n] exI[of _ bs] exI[of _ cs]) (simp add: l2_def)
qed

text \<open>The whole configuration: into configuration mode, possibly a session, and back.\<close>

definition bootTraffic :: "E22Outcome \<Rightarrow> HalCall list \<Rightarrow> bool" where
  "bootTraffic r calls \<longleftrightarrow> (\<exists>mid. calls = ModePins 0 1 # mid @ [ModePins 0 0] \<and>
     (if r = AUX_TIMEOUT then mid = []
      else \<exists>n bs cs. mid = Wrote (e22_buildReadAllCommand (Some 3)) # Got n bs # cs \<and>
        (if configMatches n (rxArray 12 n bs) then cryptExchange r cs else flashExchange r cs)))"

lemma exchange_no_timeout: "cryptExchange r cs \<Longrightarrow> r \<noteq> AUX_TIMEOUT" "flashExchange r cs \<Longrightarrow> r \<noteq> AUX_TIMEOUT"
  by (auto simp: cryptExchange_def flashExchange_def)

lemma configureE22_traffic:
  assumes "configureE22 (traced hal) (h, []) = Some (r, h', calls)"
  shows "bootTraffic r calls"
proof -
  let ?h1 = "hal_setModePins hal LORA_MODE_CONFIG_M0_LEVEL LORA_MODE_CONFIG_M1_LEVEL h"
  obtain ready h2 l2 where w: "waitAuxReady (traced hal) LORA_AUX_MODE_TIMEOUT_MS (?h1, [ModePins 0 1]) = Some (ready, h2, l2)"
    and s: "\<exists>h3 l3 h4 q. (if \<not> ready then Some (AUX_TIMEOUT, h2, l2) else configSession (traced hal) (h2, l2)) = Some (r, h3, l3) \<and>
      waitAuxReady (traced hal) LORA_AUX_MODE_TIMEOUT_MS (hal_setModePins hal 0 0 h3, l3 @ [ModePins 0 0]) = Some (q, h4, calls)"
    using assms by (auto simp: configureE22_def Let_def cfg split: option.splits)
  have l2: "l2 = [ModePins 0 1]" using wait_traced[OF w] by simp
  obtain h3 l3 where m: "(if \<not> ready then Some (AUX_TIMEOUT, h2, l2) else configSession (traced hal) (h2, l2)) = Some (r, h3, l3)"
    and c: "calls = l3 @ [ModePins 0 0]"
    using s wait_traced by metis
  show ?thesis
  proof (cases ready)
    case True
    then show ?thesis
      using configSession_traced[of hal h2 l2 r h3 l3] m c l2 exchange_no_timeout
      by (fastforce simp: bootTraffic_def split: if_splits)
  qed (use m c l2 in \<open>auto simp: bootTraffic_def\<close>)
qed

subsection \<open>The module behind the UART\<close>

text \<open>What a working module promises (include/E22Regs.h): its registers, its key and the number
  of its flash writes change by commands in configuration mode only; a register query and
  a block write are answered by the block with the read header, in which the key reads
  as it pleases; the answer waits until it is read or flushed.\<close>

record E22Radio =
  rMode :: "int \<times> int"
  rRegs :: E22RegValues
  rKey :: u16
  rFlash :: nat

locale e22_radio =
  fixes hal :: "'h ILoraHal" and radio :: "'h \<Rightarrow> E22Radio" and answer :: "'h \<Rightarrow> u8 list"
  assumes mode_pins: "radio (hal_setModePins hal m0 m1 h) = (radio h)\<lparr> rMode := (m0, m1) \<rparr>"
    and polling [simp]: "radio (snd (hal_isAuxReady hal h)) = radio h" "answer (snd (hal_isAuxReady hal h)) = answer h"
      "radio (snd (hal_nowMs hal h)) = radio h" "answer (snd (hal_nowMs hal h)) = answer h"
      "radio (hal_delayMs hal ms h) = radio h" "answer (hal_delayMs hal ms h) = answer h"
    and quiet [simp]: "radio (snd (hal_auxRawLevel hal h)) = radio h" "radio (hal_uartFlush hal h) = radio h"
      "radio (snd (hal_uartRead hal n t h)) = radio h" "radio (hal_hexDumpE22 hal buf len h) = radio h"
    and query: "rMode (radio h) = (0, 1) \<Longrightarrow>
      h' = snd (hal_uartWrite hal [E22_CMD_READ, E22_REG_BLOCK_START, E22_REG_BLOCK_LEN] h) \<Longrightarrow>
      radio h' = radio h \<and> (\<exists>a b. answer h' = regAnswer (rRegs (radio h)) a b)"
    and block_write: "rMode (radio h) = (0, 1) \<Longrightarrow>
      h' = snd (hal_uartWrite hal (E22_CMD_WRITE # E22_REG_BLOCK_START # E22_REG_BLOCK_LEN # regBlock regs kh kl) h) \<Longrightarrow>
      radio h' = (radio h)\<lparr> rRegs := regs, rKey := be16 kh kl, rFlash := Suc (rFlash (radio h)) \<rparr> \<and>
      (\<exists>a b. answer h' = regAnswer regs a b)"
    and key_write: "rMode (radio h) = (0, 1) \<Longrightarrow>
      h' = snd (hal_uartWrite hal [E22_CMD_WRITE_TEMP, E22_REG_ADDR_CRYPT_H, 2, kh, kl] h) \<Longrightarrow>
      radio h' = (radio h)\<lparr> rKey := be16 kh kl \<rparr> \<and> answer h' = [E22_CMD_READ, E22_REG_ADDR_CRYPT_H, 2, kh, kl]"
    and answer_read: "length (answer h) \<le> n \<Longrightarrow> fst (hal_uartRead hal n t h) = (int (length (answer h)), answer h)"
begin

lemma wait_radio:
  assumes "waitAuxReady hal timeoutMs h = Some (r, h')"
  shows "radio h' = radio h \<and> answer h' = answer h"
proof -
  let ?P = "\<lambda>hal' t0 timeoutMs x y. hal' = hal \<longrightarrow> radio (snd y) = radio x \<and> answer (snd y) = answer x"
  have "?P hal (fst (hal_nowMs hal h)) timeoutMs (snd (hal_nowMs hal h)) (r, h')"
  proof (rule auxLoop.raw_induct[where P = ?P])
    fix f hal' t0 timeoutMs x and y :: "bool \<times> 'h"
    assume IH: "\<And>hal' t0 timeoutMs x y. f hal' t0 timeoutMs x = Some y \<Longrightarrow> ?P hal' t0 timeoutMs x y"
      and eq: "(case hal_nowMs hal' x of (now, h) \<Rightarrow>
        if now - t0 < ucast timeoutMs
        then (case hal_isAuxReady hal' h of (ready, h) \<Rightarrow>
               if ready then Some (True, h) else f hal' t0 timeoutMs (hal_delayMs hal' 10 h))
        else Some (False, h)) = Some y"
    show "?P hal' t0 timeoutMs x y"
      using eq by (auto simp: case_prod_beta split: if_splits dest!: IH)
  next
    show "auxLoop hal (fst (hal_nowMs hal h)) timeoutMs (snd (hal_nowMs hal h)) = Some (r, h')"
      using assms by (simp add: waitAuxReady_def case_prod_beta)
  qed
  then show ?thesis by simp
qed

lemma reply_radio [simp]: "radio (snd (snd (readReply hal n h))) = radio h"
  by (simp add: readReply_def case_prod_beta)

lemma reply_answer:
  "length (answer h) \<le> n \<Longrightarrow> readReply hal n h =
     (int (length (answer h)), answer h @ replicate (n - length (answer h)) 0, snd (hal_uartRead hal n LORA_CFG_READ_TIMEOUT_MS h))"
  using answer_read[of h n LORA_CFG_READ_TIMEOUT_MS] by (simp add: readReply_def rxArray_def case_prod_beta)

lemma reply_block:
  assumes "answer h = regAnswer r a b"
  shows "readReply hal 12 h = (12, regAnswer r a b, snd (hal_uartRead hal 12 LORA_CFG_READ_TIMEOUT_MS h))"
  using reply_answer[of h 12] assms by simp

lemma matches_block: "configMatches 12 (regAnswer r a b) \<longleftrightarrow> r = E22_CONTRACT_REGS"
  using parse_regAnswer[of 12 r a b "[]"] answer_no_error[of r a b "[]" 12] by (simp add: configMatches_def)

lemma cryptRefresh_radio:
  assumes "rMode (radio h) = (0, 1)"
  shows "\<exists>h'. cryptRefresh hal h = (CRYPT_WRITTEN, h') \<and> radio h' = (radio h)\<lparr> rKey := E22_CRYPT_KEY \<rparr>"
proof -
  define h2 where "h2 = snd (hal_uartWrite hal (e22_buildWriteCryptTempCommand (Some 5)) (hal_uartFlush hal h))"
  have k: "radio h2 = (radio h)\<lparr> rKey := E22_CRYPT_KEY \<rparr>"
      "answer h2 = [E22_CMD_READ, E22_REG_ADDR_CRYPT_H, 2, E22_CFG_CRYPT_H, E22_CFG_CRYPT_L]"
    using key_write[of "hal_uartFlush hal h" h2 E22_CFG_CRYPT_H E22_CFG_CRYPT_L] assms
    by (simp_all add: h2_def crypt_key_bytes cryptCommand)
  show ?thesis
    using reply_answer[of h2 5] k
    by (simp add: cryptRefresh_def Let_def h2_def[symmetric] e22_isErrorResponse_def E22_CMD_READ_def)
qed

lemma writeContract_radio:
  assumes "rMode (radio h) = (0, 1)" "writeContract hal h = Some (r, h')"
  shows "radio h' = (radio h)\<lparr> rRegs := E22_CONTRACT_REGS, rKey := E22_CRYPT_KEY, rFlash := Suc (rFlash (radio h)) \<rparr> \<and>
    r \<in> {FLASH_TIMEOUT, WRITE_VERIFIED}"
proof -
  define h2 where "h2 = snd (hal_uartWrite hal (e22_buildWriteCommand E22_CONTRACT_REGS (Some 12)) (hal_uartFlush hal h))"
  obtain a b where k: "answer h2 = regAnswer E22_CONTRACT_REGS a b"
      "radio h2 = (radio h)\<lparr> rRegs := E22_CONTRACT_REGS, rKey := E22_CRYPT_KEY, rFlash := Suc (rFlash (radio h)) \<rparr>"
    using block_write[of "hal_uartFlush hal h" h2 E22_CONTRACT_REGS E22_CFG_CRYPT_H E22_CFG_CRYPT_L] assms(1)
    by (auto simp: h2_def crypt_key_bytes writeCommand)
  obtain fin h4 where w: "waitAuxReady hal LORA_AUX_CFG_TIMEOUT_MS (hal_delayMs hal 50 h2) = Some (fin, h4)"
    using assms(2) by (auto simp: writeContract_def Let_def h2_def split: option.splits)
  have r4: "radio h4 = radio h2" "answer h4 = answer h2" using wait_radio[OF w] by simp_all
  have v: "confirmOutcome 12 (regAnswer E22_CONTRACT_REGS a b) = WRITE_VERIFIED"
    by (simp add: confirm_verified matches_block)
  show ?thesis
    using assms(2) w reply_block[of h4 E22_CONTRACT_REGS a b] r4 k v
    by (auto simp: writeContract_def Let_def h2_def[symmetric] split: if_splits)
qed

lemma configureE22_radio:
  assumes "waitAuxReady hal LORA_AUX_MODE_TIMEOUT_MS (hal_setModePins hal 0 1 h) = Some (ready, h1)"
    and "configureE22 hal h = Some (r, h')"
  shows "radio h' = (if \<not> ready then (radio h)\<lparr> rMode := (0, 0) \<rparr>
      else \<lparr> rMode = (0, 0), rRegs = E22_CONTRACT_REGS, rKey = E22_CRYPT_KEY,
        rFlash = rFlash (radio h) + (if rRegs (radio h) = E22_CONTRACT_REGS then 0 else 1) \<rparr>) \<and>
    (r = AUX_TIMEOUT \<longleftrightarrow> \<not> ready) \<and> r \<in> {AUX_TIMEOUT, CRYPT_WRITTEN, FLASH_TIMEOUT, WRITE_VERIFIED} \<and>
    (ready \<longrightarrow> (r = CRYPT_WRITTEN \<longleftrightarrow> rRegs (radio h) = E22_CONTRACT_REGS))"
proof -
  have r1: "radio h1 = (radio h)\<lparr> rMode := (0, 1) \<rparr>" using wait_radio[OF assms(1)] by (simp add: mode_pins)
  obtain h2 where s: "(if \<not> ready then Some (AUX_TIMEOUT, h1) else configSession hal h1) = Some (r, h2)"
    and h': "radio h' = (radio h2)\<lparr> rMode := (0, 0) \<rparr>"
    using assms by (auto simp: configureE22_def Let_def cfg mode_pins split: option.splits dest!: wait_radio)
  show ?thesis
  proof (cases ready)
    case False
    then show ?thesis using s h' r1 by auto
  next
    case True
    define h3 where "h3 = snd (hal_uartWrite hal (e22_buildReadAllCommand (Some 3)) (hal_uartFlush hal h1))"
    obtain a b where q: "radio h3 = radio h1" "answer h3 = regAnswer (rRegs (radio h1)) a b"
      using query[of "hal_uartFlush hal h1" h3] r1 by (auto simp: h3_def readCommand)
    define h4 where "h4 = hal_hexDumpE22 hal (regAnswer (rRegs (radio h1)) a b) 12
      (snd (hal_uartRead hal 12 LORA_CFG_READ_TIMEOUT_MS h3))"
    have r4: "radio h4 = radio h1" by (simp add: h4_def q)
    have c: "configSession hal h1 =
        (if rRegs (radio h1) = E22_CONTRACT_REGS then Some (cryptRefresh hal h4) else writeContract hal h4)"
      using reply_block[OF q(2)] by (simp add: configSession_def Let_def h3_def[symmetric] h4_def matches_block)
    show ?thesis
      using s c True h' r1 r4 cryptRefresh_radio[of h4] writeContract_radio[of h4 r h2]
      by (cases "radio h") (auto split: if_splits)
  qed
qed

end

end
