(* ===== verification/Offline_Buffer.thy ===== *)
theory Offline_Buffer
  imports Vehicle_Data
begin

text \<open>
  The ring buffer lib/OfflineBuffer/OfflineBuffer.cpp that keeps telemetry packets while the
  radio link is down.  The four file-scope variables are the record \<open>OfflineBuffer\<close>; the
  indices are never negative, so the C \<open>int\<close>s are natural numbers.  The locale
  \<open>bounded_fifo\<close> is the contract of a bounded queue that drops its oldest element when
  full; the ring buffer is shown to meet it, with the stored packets, oldest first, as its
  abstract value.
\<close>

definition OB_CAPACITY :: nat where [cfg]: "OB_CAPACITY = 75"

record OfflineBuffer =
  s_buf :: "TelemetryData list"
  s_head :: nat
  s_tail :: nat
  s_count :: nat

definition ob_boot :: OfflineBuffer where
  "ob_boot = \<lparr> s_buf = replicate OB_CAPACITY TelemetryData_zero, s_head = 0, s_tail = 0, s_count = 0 \<rparr>"

definition ob_reset :: "OfflineBuffer \<Rightarrow> OfflineBuffer" where
  "ob_reset b = b\<lparr> s_head := 0, s_tail := 0, s_count := 0 \<rparr>"

definition ob_push :: "TelemetryData \<Rightarrow> OfflineBuffer \<Rightarrow> OfflineBuffer" where
  "ob_push d b =
    (let b = (if s_count b = OB_CAPACITY
              then b\<lparr> s_head := (s_head b + 1) mod OB_CAPACITY, s_count := s_count b - 1 \<rparr> else b)
     in b\<lparr> s_buf := (s_buf b)[s_tail b := d], s_tail := (s_tail b + 1) mod OB_CAPACITY,
           s_count := s_count b + 1 \<rparr>)"

definition ob_pop :: "OfflineBuffer \<Rightarrow> TelemetryData option \<times> OfflineBuffer" where
  "ob_pop b =
    (if s_count b = 0 then (None, b)
     else (Some (s_buf b ! s_head b),
           b\<lparr> s_head := (s_head b + 1) mod OB_CAPACITY, s_count := s_count b - 1 \<rparr>))"

definition ob_peek :: "OfflineBuffer \<Rightarrow> TelemetryData option" where
  "ob_peek b = (if s_count b = 0 then None else Some (s_buf b ! s_head b))"

definition ob_drop_front :: "OfflineBuffer \<Rightarrow> bool \<times> OfflineBuffer" where
  "ob_drop_front b =
    (if s_count b = 0 then (False, b)
     else (True, b\<lparr> s_head := (s_head b + 1) mod OB_CAPACITY, s_count := s_count b - 1 \<rparr>))"

definition ob_count :: "OfflineBuffer \<Rightarrow> nat" where "ob_count b = s_count b"
definition ob_is_empty :: "OfflineBuffer \<Rightarrow> bool" where "ob_is_empty b \<longleftrightarrow> s_count b = 0"

definition offline_should_sample :: "64 word \<Rightarrow> 64 word \<Rightarrow> bool \<Rightarrow> u32 \<Rightarrow> bool" where
  "offline_should_sample now_ms last_sample_ms has_sample period_ms =
    (if \<not> has_sample then True else now_ms - last_sample_ms \<ge> ucast period_ms)"

subsection \<open>Bounded queue\<close>

locale bounded_fifo =
  fixes fifo :: "'s \<Rightarrow> 'a list"
    and inv :: "'s \<Rightarrow> bool"
    and cap :: nat
    and push :: "'a \<Rightarrow> 's \<Rightarrow> 's"
    and peek :: "'s \<Rightarrow> 'a option"
    and drop_front :: "'s \<Rightarrow> 's"
    and count :: "'s \<Rightarrow> nat"
  assumes cap_pos: "cap > 0"
    and bound: "inv s \<Longrightarrow> length (fifo s) \<le> cap"
    and push_inv: "inv s \<Longrightarrow> inv (push x s)"
    and push_fifo: "inv s \<Longrightarrow> fifo (push x s) = (if length (fifo s) = cap then tl (fifo s) else fifo s) @ [x]"
    and peek_fifo: "inv s \<Longrightarrow> peek s = (case fifo s of [] \<Rightarrow> None | x # xs \<Rightarrow> Some x)"
    and drop_inv: "inv s \<Longrightarrow> inv (drop_front s)"
    and drop_fifo: "inv s \<Longrightarrow> fifo (drop_front s) = tl (fifo s)"
    and count_fifo: "inv s \<Longrightarrow> count s = length (fifo s)"

context bounded_fifo
begin

text \<open>Pushing a sequence keeps the newest \<open>cap\<close> elements in order.\<close>

lemma push_all:
  assumes "inv s"
  shows "inv (fold push xs s)"
    and "fifo (fold push xs s) = (let ys = fifo s @ xs in drop (length ys - cap) ys)"
  using assms
proof (induction xs rule: rev_induct)
  case Nil
  { case 1 then show ?case by simp }
  { case 2 then show ?case using bound by simp }
next
  case (snoc x xs)
  { case 1 then show ?case using snoc push_inv by simp }
  { case 2
    let ?ys = "fifo s @ xs"
    have f: "fifo (fold push xs s) = drop (length ?ys - cap) ?ys" using snoc 2 by (simp add: Let_def)
    have i: "inv (fold push xs s)" using snoc 2 by simp
    show ?case
    proof (cases "length ?ys \<ge> cap")
      case True
      then have l: "length (drop (length ?ys - cap) ?ys) = cap" by simp
      have "tl (drop n zs) = drop (Suc n) zs" for n and zs :: "'a list"
        by (simp only: tl_drop drop_Suc)
      then have "tl (drop (length ?ys - cap) ?ys) = drop (Suc (length ?ys - cap)) ?ys" .
      moreover have "length (?ys @ [x]) - cap = Suc (length ?ys - cap)" using True by simp
      moreover have "Suc (length ?ys - cap) \<le> length ?ys" using True cap_pos by linarith
      ultimately show ?thesis using push_fifo[OF i, of x] f l by (simp add: Let_def)
    next
      case False
      then show ?thesis using push_fifo[OF i, of x] f by (simp add: Let_def)
    qed }
qed

lemma push_all_fits:
  assumes "inv s" "length (fifo s) + length xs \<le> cap"
  shows "fifo (fold push xs s) = fifo s @ xs"
  using push_all(2)[OF assms(1), of xs] assms(2) by (simp add: Let_def)

end

subsection \<open>The ring buffer is a bounded queue\<close>

definition ob_inv :: "OfflineBuffer \<Rightarrow> bool" where
  "ob_inv b \<longleftrightarrow> length (s_buf b) = OB_CAPACITY \<and> s_head b < OB_CAPACITY \<and> s_count b \<le> OB_CAPACITY \<and>
     s_tail b = (s_head b + s_count b) mod OB_CAPACITY"

definition ob_list :: "OfflineBuffer \<Rightarrow> TelemetryData list" where
  "ob_list b = map (\<lambda>i. s_buf b ! ((s_head b + i) mod OB_CAPACITY)) [0 ..< s_count b]"

lemma ob_list_length [simp]: "length (ob_list b) = s_count b"
  by (simp add: ob_list_def)

lemma ob_inv_boot: "ob_inv ob_boot" "ob_list ob_boot = []"
  by (simp_all add: ob_inv_def ob_boot_def ob_list_def cfg)

lemma ob_inv_reset: "ob_inv b \<Longrightarrow> ob_inv (ob_reset b)" "ob_list (ob_reset b) = []"
  by (simp_all add: ob_inv_def ob_reset_def ob_list_def cfg)

text \<open>Dropping the oldest element, shared by \<open>pop\<close>, \<open>drop_front\<close> and a full \<open>push\<close>.\<close>

definition ob_advance :: "OfflineBuffer \<Rightarrow> OfflineBuffer" where
  "ob_advance b = b\<lparr> s_head := (s_head b + 1) mod OB_CAPACITY, s_count := s_count b - 1 \<rparr>"

lemma ob_advance:
  assumes "ob_inv b" "s_count b > 0"
  shows "ob_inv (ob_advance b)" "ob_list (ob_advance b) = tl (ob_list b)"
proof -
  obtain c where c: "s_count b = Suc c" using assms(2) by (cases "s_count b") auto
  have "(Suc (s_head b) mod OB_CAPACITY + c) mod OB_CAPACITY = (Suc (s_head b) + c) mod OB_CAPACITY"
    by (rule mod_add_left_eq)
  then have "(Suc (s_head b) mod OB_CAPACITY + (s_count b - 1)) mod OB_CAPACITY = (s_head b + s_count b) mod OB_CAPACITY"
    by (simp add: c)
  then show "ob_inv (ob_advance b)"
    using assms by (auto simp: ob_inv_def ob_advance_def cfg)
  have "ob_list (ob_advance b) ! i = tl (ob_list b) ! i" if "i < s_count b - 1" for i
    using that by (simp add: ob_list_def ob_advance_def nth_tl mod_add_left_eq)
  then show "ob_list (ob_advance b) = tl (ob_list b)"
    by (intro nth_equalityI) (simp_all add: ob_advance_def)
qed

definition ob_append :: "TelemetryData \<Rightarrow> OfflineBuffer \<Rightarrow> OfflineBuffer" where
  "ob_append d b = b\<lparr> s_buf := (s_buf b)[s_tail b := d], s_tail := (s_tail b + 1) mod OB_CAPACITY,
     s_count := s_count b + 1 \<rparr>"

lemma ob_append:
  assumes "ob_inv b" "s_count b < OB_CAPACITY"
  shows "ob_inv (ob_append d b)" "ob_list (ob_append d b) = ob_list b @ [d]"
proof -
  have t: "s_tail b = (s_head b + s_count b) mod OB_CAPACITY" "s_tail b < length (s_buf b)"
    using assms(1) by (simp_all add: ob_inv_def cfg)
  have "Suc (s_tail b) mod OB_CAPACITY = Suc (s_head b + s_count b) mod OB_CAPACITY"
    unfolding t(1) by (simp add: mod_Suc_eq)
  then show "ob_inv (ob_append d b)"
    using assms by (simp add: ob_inv_def ob_append_def)
  have ne: "(s_head b + i) mod OB_CAPACITY \<noteq> s_tail b" if i: "i < s_count b" for i
  proof
    assume "(s_head b + i) mod OB_CAPACITY = s_tail b"
    then have "(s_head b + s_count b - (s_head b + i)) mod OB_CAPACITY = 0"
      using t(1) i by (metis mod_eq_dvd_iff_nat add_le_cancel_left less_imp_le_nat mod_0_imp_dvd dvd_imp_mod_0)
    then have "(s_count b - i) mod OB_CAPACITY = 0" by simp
    then show False using i assms(2) by simp
  qed
  have "ob_list (ob_append d b) ! i = (ob_list b @ [d]) ! i" if i: "i < Suc (s_count b)" for i
  proof (cases "i < s_count b")
    case True
    then show ?thesis using ne[OF True] by (simp add: ob_list_def ob_append_def nth_append del: upt_Suc)
  next
    case False
    then have "i = s_count b" using i by simp
    then show ?thesis using t by (simp add: ob_list_def ob_append_def nth_append del: upt_Suc)
  qed
  then show "ob_list (ob_append d b) = ob_list b @ [d]"
    by (intro nth_equalityI) (simp_all add: ob_append_def)
qed

lemma ob_push_eq:
  "ob_push d b = ob_append d (if s_count b = OB_CAPACITY then ob_advance b else b)"
  by (simp add: ob_push_def ob_append_def ob_advance_def Let_def)

lemma ob_drop_eq: "ob_drop_front b = (if s_count b = 0 then (False, b) else (True, ob_advance b))"
  by (simp add: ob_drop_front_def ob_advance_def)

lemma ob_pop_eq: "ob_pop b = (ob_peek b, snd (ob_drop_front b))"
  by (simp add: ob_pop_def ob_peek_def ob_drop_front_def)

interpretation ob: bounded_fifo ob_list ob_inv OB_CAPACITY ob_push ob_peek "\<lambda>b. snd (ob_drop_front b)" ob_count
proof unfold_locales
  show "0 < OB_CAPACITY" by (simp add: cfg)
  show "length (ob_list s) \<le> OB_CAPACITY" if "ob_inv s" for s using that by (simp add: ob_inv_def)
  have cap: "s_count (ob_advance b) < OB_CAPACITY" if "s_count b = OB_CAPACITY" for b
    using that by (simp add: ob_advance_def cfg)
  show "ob_inv (ob_push x s)" if i: "ob_inv s" for x s
    using i cap[of s] ob_advance[OF i] ob_append(1)[of "ob_advance s"] ob_append(1)[OF i]
    by (auto simp: ob_push_eq ob_inv_def cfg)
  show "ob_list (ob_push x s) = (if length (ob_list s) = OB_CAPACITY then tl (ob_list s) else ob_list s) @ [x]"
    if i: "ob_inv s" for x s
    using i cap[of s] ob_advance[OF i] ob_append(2)[of "ob_advance s"] ob_append(2)[OF i]
    by (auto simp: ob_push_eq ob_inv_def cfg)
  show "ob_peek s = (case ob_list s of [] \<Rightarrow> None | x # xs \<Rightarrow> Some x)" if "ob_inv s" for s
    using that by (cases "s_count s") (auto simp: ob_peek_def ob_list_def ob_inv_def upt_rec)
  show "ob_inv (snd (ob_drop_front s))" if "ob_inv s" for s
    using that ob_advance[OF that] by (simp add: ob_drop_eq)
  show "ob_list (snd (ob_drop_front s)) = tl (ob_list s)" if "ob_inv s" for s
    using that ob_advance[OF that] by (simp add: ob_drop_eq ob_list_def)
  show "ob_count s = length (ob_list s)" for s by (simp add: ob_count_def)
qed

subsection \<open>Refinement\<close>

text \<open>Operation sequences, run on the ring buffer and on the list specification; a pop also
  yields the element it returns.\<close>

datatype ObOp = ObPush TelemetryData | ObPop | ObDropFront | ObReset

fun ob_exec :: "ObOp \<Rightarrow> OfflineBuffer \<Rightarrow> TelemetryData option \<times> OfflineBuffer" where
  "ob_exec (ObPush d) b = (None, ob_push d b)"
| "ob_exec ObPop b = ob_pop b"
| "ob_exec ObDropFront b = (None, snd (ob_drop_front b))"
| "ob_exec ObReset b = (None, ob_reset b)"

fun fifo_exec :: "ObOp \<Rightarrow> TelemetryData list \<Rightarrow> TelemetryData option \<times> TelemetryData list" where
  "fifo_exec (ObPush d) q = (None, (if length q = 75 then tl q else q) @ [d])"
| "fifo_exec ObPop [] = (None, [])"
| "fifo_exec ObPop (x # q) = (Some x, q)"
| "fifo_exec ObDropFront q = (None, tl q)"
| "fifo_exec ObReset q = (None, [])"

fun ob_trace :: "ObOp list \<Rightarrow> OfflineBuffer \<Rightarrow> TelemetryData option list \<times> OfflineBuffer" where
  "ob_trace [] b = ([], b)"
| "ob_trace (op # ops) b = (let (r, b') = ob_exec op b; (rs, b'') = ob_trace ops b' in (r # rs, b''))"

fun fifo_trace :: "ObOp list \<Rightarrow> TelemetryData list \<Rightarrow> TelemetryData option list \<times> TelemetryData list" where
  "fifo_trace [] q = ([], q)"
| "fifo_trace (op # ops) q = (let (r, q') = fifo_exec op q; (rs, q'') = fifo_trace ops q' in (r # rs, q''))"

lemma ob_exec_refines:
  assumes "ob_inv b"
  shows "ob_inv (snd (ob_exec op b)) \<and> fifo_exec op (ob_list b) = (fst (ob_exec op b), ob_list (snd (ob_exec op b)))"
proof (cases op)
  case ObPop
  then show ?thesis
    using ob.peek_fifo[OF assms] ob.drop_inv[OF assms] ob.drop_fifo[OF assms]
    by (cases "ob_list b") (simp_all add: ob_pop_eq)
qed (use assms ob.push_inv ob.push_fifo ob.drop_inv ob.drop_fifo ob_inv_reset in \<open>auto simp: cfg\<close>)

text \<open>C18. The ring buffer refines a bounded queue: for every sequence of push, pop, drop and reset
  the buffer returns the packets a list queue of capacity 75 returns that discards its
  oldest packet when full, and it holds the same packets in the same order; the indices
  stay in range.\<close>

theorem ring_buffer_refines_fifo:
  assumes "ob_inv b"
  shows "fifo_trace ops (ob_list b) = (fst (ob_trace ops b), ob_list (snd (ob_trace ops b))) \<and>
         ob_inv (snd (ob_trace ops b)) \<and> ob_count (snd (ob_trace ops b)) \<le> 75"
proof -
  have "fifo_trace ops (ob_list b) = (fst (ob_trace ops b), ob_list (snd (ob_trace ops b))) \<and>
        ob_inv (snd (ob_trace ops b))"
    using assms
  proof (induction ops arbitrary: b)
    case (Cons op ops)
    then show ?case
      using ob_exec_refines[of b op] Cons.IH[of "snd (ob_exec op b)"] by (simp add: case_prod_beta Let_def)
  qed simp
  then show ?thesis by (simp add: ob_inv_def ob_count_def cfg)
qed

theorem ring_buffer_refines_fifo_witness:
  "fst (ob_trace [ObPush TelemetryData_zero, ObPop, ObPop] ob_boot) = [None, Some TelemetryData_zero, None]"
  using ring_buffer_refines_fifo[OF ob_inv_boot(1), of "[ObPush TelemetryData_zero, ObPop, ObPop]"]
  by (simp add: ob_inv_boot(2))

text \<open>What an outage leaves behind: after pushing any sequence of packets into an empty buffer,
  it holds the newest 75 of them, oldest first, and all of them if there were at most 75.\<close>

lemma outage_keeps_newest:
  "ob_list (fold ob_push ds ob_boot) = drop (length ds - 75) ds \<and>
   ob_peek (fold ob_push ds ob_boot) = (case drop (length ds - 75) ds of [] \<Rightarrow> None | d # _ \<Rightarrow> Some d)"
proof -
  have "ob_list (fold ob_push ds ob_boot) = drop (length ds - 75) ds"
    using ob.push_all(2)[OF ob_inv_boot(1), of ds] by (simp add: ob_inv_boot(2) Let_def cfg)
  then show ?thesis using ob.peek_fifo[OF ob.push_all(1)[OF ob_inv_boot(1), of ds]] by simp
qed

end
