(* ===== verification/Uplink_Scheduler.thy ===== *)
theory Uplink_Scheduler
  imports Offline_Buffer
begin

text \<open>
  The uplink: link supervision (lib/LoraLink/LinkMonitor.h), classification of received bytes
  (LoraRxHandler.h), the UART retry decision (UartInitRetry.h) and the scheduler
  lib/LoraLink/UplinkScheduler.cpp that samples into the offline buffer while the link is
  down and replays the buffer when it is up.

  The scheduler object is the record \<open>UplinkScheduler\<close>; the offline buffer, a module of its own
  with global state, is passed beside it.  The send callback is a parameter: a function of the
  packet, the replay flag and the state of its context, giving success and the new context.
\<close>

type_synonym u64 = "64 word"

definition UKS_HEARTBEAT_BYTE :: u8 where [cfg]: "UKS_HEARTBEAT_BYTE = 0xB0"

definition link_check_timeout :: "u64 \<Rightarrow> u64 \<Rightarrow> u32 \<Rightarrow> bool" where
  "link_check_timeout now_ms last_hb_ms timeout_ms =
    (if last_hb_ms = 0 then False else now_ms - last_hb_ms > ucast timeout_ms)"

definition link_check_timeout_with_boot_grace :: "u64 \<Rightarrow> u64 \<Rightarrow> u32 \<Rightarrow> u64 \<Rightarrow> u32 \<Rightarrow> bool" where
  "link_check_timeout_with_boot_grace now_ms last_hb_ms timeout_ms boot_ms boot_grace_ms =
    (if last_hb_ms = 0 then now_ms - boot_ms > ucast boot_grace_ms
     else link_check_timeout now_ms last_hb_ms timeout_ms)"

datatype LoraRxByteKind = RX_HEARTBEAT | RX_UNKNOWN

definition lora_classify_rx_byte :: "u8 \<Rightarrow> LoraRxByteKind" where
  "lora_classify_rx_byte rx_byte = (if rx_byte = UKS_HEARTBEAT_BYTE then RX_HEARTBEAT else RX_UNKNOWN)"

text \<open>Result, new count and new time of the last warning.\<close>

definition lora_note_unknown_byte :: "u64 \<Rightarrow> u32 \<Rightarrow> u64 \<Rightarrow> u32 \<Rightarrow> bool \<times> u32 \<times> u64" where
  "lora_note_unknown_byte now_ms cnt last_warn_ms warn_interval_ms =
    (if now_ms - last_warn_ms \<ge> ucast warn_interval_ms then (True, cnt + 1, now_ms)
     else (False, cnt + 1, last_warn_ms))"

datatype UartInitDecision = UART_RETRY | GIVE_UP_DISABLED

definition uart_init_retry_decision :: "int \<Rightarrow> int \<Rightarrow> UartInitDecision" where
  "uart_init_retry_decision failedAttempts maxAttempts =
    (if failedAttempts \<ge> maxAttempts then GIVE_UP_DISABLED else UART_RETRY)"

record UplinkScheduler =
  m_linkTimeoutMs :: u32
  m_bootGraceMs :: u32
  m_offlineSamplePeriodMs :: u32
  m_replayBurstPerTick :: u8
  m_unknownByteWarnIntervalMs :: u32
  m_linkDown :: bool
  m_lastHeartbeatMs :: u64
  m_unknownRxByteCount :: u32
  m_lastUnknownRxByteWarnMs :: u64
  m_lastOfflineSampleMs :: u64
  m_offlineFirstTs :: u32
  m_offlineLastTs :: u32
  m_offlineHasSamples :: bool

record LinkTransition =
  lt_changed :: bool
  lt_linkDown :: bool
  lt_becameDown :: bool
  lt_becameUp :: bool
  lt_hadSamples :: bool
  lt_bufferedCount :: nat
  lt_firstTs :: u32
  lt_lastTs :: u32

definition UplinkScheduler_new :: "u32 \<Rightarrow> u32 \<Rightarrow> u32 \<Rightarrow> u8 \<Rightarrow> u32 \<Rightarrow> UplinkScheduler" where
  "UplinkScheduler_new linkTimeoutMs bootGraceMs offlineSamplePeriodMs replayBurstPerTick unknownByteWarnIntervalMs =
    \<lparr> m_linkTimeoutMs = linkTimeoutMs, m_bootGraceMs = bootGraceMs,
      m_offlineSamplePeriodMs = offlineSamplePeriodMs, m_replayBurstPerTick = replayBurstPerTick,
      m_unknownByteWarnIntervalMs = unknownByteWarnIntervalMs, m_linkDown = False, m_lastHeartbeatMs = 0,
      m_unknownRxByteCount = 0, m_lastUnknownRxByteWarnMs = 0, m_lastOfflineSampleMs = 0,
      m_offlineFirstTs = 0, m_offlineLastTs = 0, m_offlineHasSamples = False \<rparr>"

text \<open>The scheduler as the LoRa task constructs it.\<close>

definition LINK_TIMEOUT_MS :: u32 where [cfg, simp]: "LINK_TIMEOUT_MS = 9000"
definition BOOT_LINK_GRACE_MS :: u32 where [cfg, simp]: "BOOT_LINK_GRACE_MS = 5000"
definition OFFLINE_SAMPLE_PERIOD_MS :: u32 where [cfg, simp]: "OFFLINE_SAMPLE_PERIOD_MS = 1000"
definition REPLAY_BURST_PER_TICK :: nat where [cfg, simp]: "REPLAY_BURST_PER_TICK = 1"
definition LORA_UNKNOWN_BYTE_WARN_INTERVAL_MS :: u32 where
  [cfg, simp]: "LORA_UNKNOWN_BYTE_WARN_INTERVAL_MS = 10000"

definition aksScheduler :: UplinkScheduler where
  "aksScheduler = UplinkScheduler_new LINK_TIMEOUT_MS BOOT_LINK_GRACE_MS OFFLINE_SAMPLE_PERIOD_MS
     (of_nat REPLAY_BURST_PER_TICK) LORA_UNKNOWN_BYTE_WARN_INTERVAL_MS"

datatype UplinkRxResult = HEARTBEAT | UNKNOWN_QUIET | UNKNOWN_WARN

definition onRxByte :: "u8 \<Rightarrow> u64 \<Rightarrow> UplinkScheduler \<Rightarrow> UplinkRxResult \<times> UplinkScheduler" where
  "onRxByte rxByte nowMs s =
    (if lora_classify_rx_byte rxByte = RX_HEARTBEAT then (HEARTBEAT, s\<lparr> m_lastHeartbeatMs := nowMs \<rparr>)
     else let (warn, cnt, lastWarn) = lora_note_unknown_byte nowMs (m_unknownRxByteCount s)
                                        (m_lastUnknownRxByteWarnMs s) (m_unknownByteWarnIntervalMs s);
              s = s\<lparr> m_unknownRxByteCount := cnt, m_lastUnknownRxByteWarnMs := lastWarn \<rparr>
          in (if warn then UNKNOWN_WARN else UNKNOWN_QUIET, s))"

definition updateLink :: "u64 \<Rightarrow> u64 \<Rightarrow> OfflineBuffer \<Rightarrow> UplinkScheduler \<Rightarrow> LinkTransition \<times> UplinkScheduler" where
  "updateLink nowMs bootMs b s =
    (let hb = m_lastHeartbeatMs s;
         timeout = link_check_timeout_with_boot_grace nowMs hb (m_linkTimeoutMs s) bootMs (m_bootGraceMs s);
         linkDown = m_linkDown s;
         tr = \<lparr> lt_changed = False, lt_linkDown = linkDown, lt_becameDown = False, lt_becameUp = False,
                lt_hadSamples = False, lt_bufferedCount = 0, lt_firstTs = 0, lt_lastTs = 0 \<rparr>
     in if timeout \<and> \<not> linkDown
        then (tr\<lparr> lt_changed := True, lt_becameDown := True, lt_linkDown := True \<rparr>,
              s\<lparr> m_linkDown := True, m_lastOfflineSampleMs := 0, m_offlineHasSamples := False \<rparr>)
        else if \<not> timeout \<and> linkDown \<and> hb \<noteq> 0
        then (tr\<lparr> lt_changed := True, lt_becameUp := True, lt_linkDown := False,
                  lt_hadSamples := m_offlineHasSamples s, lt_bufferedCount := ob_count b,
                  lt_firstTs := m_offlineFirstTs s, lt_lastTs := m_offlineLastTs s \<rparr>,
              s\<lparr> m_linkDown := False \<rparr>)
        else (tr, s))"

definition isLinkDown :: "UplinkScheduler \<Rightarrow> bool" where "isLinkDown s = m_linkDown s"

definition offlineSample ::
  "u64 \<Rightarrow> TelemetryData \<Rightarrow> UplinkScheduler \<times> OfflineBuffer \<Rightarrow> bool \<times> UplinkScheduler \<times> OfflineBuffer" where
  "offlineSample nowMs live sb =
    (let (s, b) = sb in
     if \<not> offline_should_sample nowMs (m_lastOfflineSampleMs s) (m_offlineHasSamples s) (m_offlineSamplePeriodMs s)
     then (False, s, b)
     else let s = s\<lparr> m_lastOfflineSampleMs := nowMs \<rparr>;
              b = ob_push live b;
              s = (if \<not> m_offlineHasSamples s
                   then s\<lparr> m_offlineFirstTs := TEL_timestampMs live, m_offlineHasSamples := True \<rparr> else s);
              s = s\<lparr> m_offlineLastTs := TEL_timestampMs live \<rparr>
          in (True, s, b))"

type_synonym 'c send = "TelemetryData \<Rightarrow> bool \<Rightarrow> 'c \<Rightarrow> bool \<times> 'c"

text \<open>At most \<open>n\<close> rounds of the replay loop.\<close>

fun replayLoop :: "'c send \<Rightarrow> nat \<Rightarrow> OfflineBuffer \<Rightarrow> 'c \<Rightarrow> nat \<times> OfflineBuffer \<times> 'c" where
  "replayLoop send 0 b c = (0, b, c)"
| "replayLoop send (Suc n) b c =
    (case ob_peek b of
       None \<Rightarrow> (0, b, c)
     | Some replay \<Rightarrow>
         (case send replay True c of
            (False, c) \<Rightarrow> (0, b, c)
          | (True, c) \<Rightarrow>
              (case replayLoop send n (snd (ob_drop_front b)) c of (sent, b, c) \<Rightarrow> (sent + 1, b, c))))"

definition onTxTickLinkUp ::
  "TelemetryData option \<Rightarrow> 'c send \<Rightarrow> UplinkScheduler \<Rightarrow> OfflineBuffer \<Rightarrow> 'c \<Rightarrow> nat \<times> OfflineBuffer \<times> 'c" where
  "onTxTickLinkUp live send s b c =
    (let (sent, b, c) = replayLoop send (unat (m_replayBurstPerTick s)) b c
     in case live of
          None \<Rightarrow> (sent, b, c)
        | Some pkt \<Rightarrow> (case send pkt False c of (ok, c) \<Rightarrow> (if ok then sent + 1 else sent, b, c)))"

subsection \<open>Replay\<close>

text \<open>A send callback with a record of its calls: packet, replay flag, result.\<close>

type_synonym send_log = "(TelemetryData \<times> bool \<times> bool) list"

definition logged :: "'c send \<Rightarrow> ('c \<times> send_log) send" where
  "logged send pkt rep cl = (case cl of (c, l) \<Rightarrow> (case send pkt rep c of (ok, c') \<Rightarrow> (ok, c', l @ [(pkt, rep, ok)])))"

lemma logged_apply: "logged send pkt rep (c, l) = (case send pkt rep c of (ok, c') \<Rightarrow> (ok, c', l @ [(pkt, rep, ok)]))"
  by (simp add: logged_def)

lemma replayLoop_fifo:
  assumes "ob_inv b" "replayLoop (logged send) n b (c, l) = (k, b', c', l')"
  shows "k \<le> n \<and> k \<le> length (ob_list b) \<and> ob_inv b' \<and> ob_list b' = drop k (ob_list b) \<and>
    l' = l @ map (\<lambda>p. (p, True, True)) (take k (ob_list b)) @
      (if k < n \<and> k < length (ob_list b) then [(ob_list b ! k, True, False)] else [])"
  using assms
proof (induction n arbitrary: b c l k)
  case (Suc n)
  show ?case
  proof (cases "ob_list b")
    case Nil
    then show ?thesis using Suc.prems ob.peek_fifo[OF Suc.prems(1)] by simp
  next
    case (Cons p ps)
    then have pk: "ob_peek b = Some p" using ob.peek_fifo[OF Suc.prems(1)] by simp
    obtain ok c1 where sd: "send p True c = (ok, c1)" by fastforce
    show ?thesis
    proof (cases ok)
      case False
      then show ?thesis using Suc.prems pk sd Cons by (auto simp: logged_apply)
    next
      case True
      obtain k1 where k: "k = Suc k1"
        "replayLoop (logged send) n (snd (ob_drop_front b)) (c1, l @ [(p, True, True)]) = (k1, b', c', l')"
        using Suc.prems(2) pk sd True by (auto simp: logged_apply split: prod.splits)
      have d: "ob_inv (snd (ob_drop_front b))" "ob_list (snd (ob_drop_front b)) = ps"
        using ob.drop_inv[OF Suc.prems(1)] ob.drop_fifo[OF Suc.prems(1)] Cons by simp_all
      show ?thesis using Suc.IH[OF d(1) k(2)] d(2) Cons k(1) by auto
    qed
  qed
qed simp

text \<open>Replay loses and reorders nothing, for every send callback: a transmit tick sends the
  oldest buffered packets in order, as many as the burst allows or until a send fails,
  removes from the buffer exactly those whose send succeeded, keeps a packet whose send
  failed as the oldest one, and then offers the live packet.\<close>

lemma replay_in_order:
  assumes "ob_inv b" "onTxTickLinkUp live (logged send) s b (c, []) = (sent, b', c', log)"
  shows "\<exists>k. k \<le> unat (m_replayBurstPerTick s) \<and> ob_inv b' \<and>
    ob_list b = map fst (filter (\<lambda>(p, rep, ok). rep \<and> ok) log) @ ob_list b' \<and>
    k = length (filter (\<lambda>(p, rep, ok). rep \<and> ok) log) \<and>
    (\<exists>fails lives. log = map (\<lambda>p. (p, True, True)) (take k (ob_list b)) @ fails @ lives \<and>
       fails = (if k < unat (m_replayBurstPerTick s) \<and> ob_list b' \<noteq> [] then [(hd (ob_list b'), True, False)] else []) \<and>
       map fst lives = (case live of None \<Rightarrow> [] | Some p \<Rightarrow> [p]) \<and>
       sent = k + length (filter (\<lambda>(p, rep, ok). ok) lives))"
proof -
  obtain k b1 c1 l1 where r: "replayLoop (logged send) (unat (m_replayBurstPerTick s)) b (c, []) = (k, b1, c1, l1)"
    by (metis prod_cases3 surj_pair)
  note f = replayLoop_fifo[OF assms(1) r]
  have hd: "k < length (ob_list b) \<Longrightarrow> hd (drop k (ob_list b)) = ob_list b ! k" by (rule hd_drop_conv_nth)
  have pf: "filter (\<lambda>(p, rep, ok). rep \<and> ok) (map (\<lambda>p. (p, True, True)) ps) = map (\<lambda>p. (p, True, True)) ps"
    "map fst (map (\<lambda>p. (p, True, True)) ps) = ps" for ps :: "TelemetryData list"
    by (induction ps) auto
  show ?thesis
  proof (cases live)
    case None
    then have "sent = k" "b' = b1" "log = l1" using assms(2) r by (auto simp: onTxTickLinkUp_def)
    then show ?thesis using f hd None pf
      by (intro exI[of _ k] conjI exI[of _ "if k < unat (m_replayBurstPerTick s) \<and> ob_list b' \<noteq> []
            then [(hd (ob_list b'), True, False)] else []"] exI[of _ "[]"]) auto
  next
    case (Some p)
    obtain ok c2 where sd: "send p False c1 = (ok, c2)" by fastforce
    have e: "sent = (if ok then k + 1 else k)" "b' = b1" "log = l1 @ [(p, False, ok)]"
      using assms(2) r Some sd by (auto simp: onTxTickLinkUp_def logged_apply)
    then show ?thesis using f hd Some pf
      by (intro exI[of _ k] conjI exI[of _ "if k < unat (m_replayBurstPerTick s) \<and> ob_list b' \<noteq> []
            then [(hd (ob_list b'), True, False)] else []"] exI[of _ "[(p, False, ok)]"]) auto
  qed
qed

subsection \<open>Link supervision\<close>

lemma updateLink_down:
  "m_linkDown (snd (updateLink now boot b s)) =
    (if link_check_timeout_with_boot_grace now (m_lastHeartbeatMs s) (m_linkTimeoutMs s) boot (m_bootGraceMs s) then True
     else if m_lastHeartbeatMs s \<noteq> 0 then False else m_linkDown s)"
  by (auto simp: updateLink_def Let_def)

text \<open>The link follows the heartbeat: after a heartbeat byte received at time \<open>t > 0\<close>, the link
  is down at a later check exactly when more than 9 s have passed since, whatever it was
  before and whatever other bytes arrive; and before the first heartbeat it goes down once
  5 s have passed since boot and then stays down.\<close>

lemma link_follows_heartbeat:
  assumes "m_linkTimeoutMs s = 9000" "m_bootGraceMs s = 5000" "t \<noteq> 0"
    and "s1 = snd (onRxByte 0xB0 t s)" "noise \<noteq> 0xB0" "s2 = snd (onRxByte noise u s1)"
  shows "(m_linkDown (snd (updateLink now boot b s2)) \<longleftrightarrow> now - t > 9000) \<and>
    (m_lastHeartbeatMs s = 0 \<longrightarrow>
       (m_linkDown (snd (updateLink now boot b s)) \<longleftrightarrow> now - boot > 5000 \<or> m_linkDown s))"
proof -
  have "m_lastHeartbeatMs s2 = t" "m_linkTimeoutMs s2 = 9000" "m_bootGraceMs s2 = 5000"
    using assms by (simp_all add: onRxByte_def lora_classify_rx_byte_def cfg case_prod_beta Let_def)
  then show ?thesis
    using assms(1-3) by (simp add: updateLink_down link_check_timeout_with_boot_grace_def link_check_timeout_def)
qed

subsection \<open>Sampling during an outage\<close>

text \<open>The calls of one outage, giving the packets that were accepted as samples.\<close>

fun sampleAll :: "(u64 \<times> TelemetryData) list \<Rightarrow> UplinkScheduler \<times> OfflineBuffer \<Rightarrow>
    TelemetryData list \<times> UplinkScheduler \<times> OfflineBuffer" where
  "sampleAll [] sb = ([], sb)"
| "sampleAll ((now, d) # cs) sb =
    (case offlineSample now d sb of
       (ok, sb') \<Rightarrow> (case sampleAll cs sb' of (acc, sb'') \<Rightarrow> (if ok then d # acc else acc, sb'')))"

lemma u64_elapsed:
  fixes now last :: u64
  assumes "unat last \<le> unat now" "now - last \<ge> 1000"
  shows "unat now \<ge> unat last + 1000"
  using assms by (simp add: word_le_nat_alt unat_sub)

lemma sampleAll_inv:
  assumes "ob_inv b" "sampleAll cs (s, b) = (acc, s', b')"
  shows "ob_inv b'"
  using assms
proof (induction cs arbitrary: s b acc)
  case (Cons c cs)
  obtain now d where c: "c = (now, d)" by fastforce
  obtain ok s1 b1 where o: "offlineSample now d (s, b) = (ok, s1, b1)" by (metis prod_cases3)
  have "ob_inv b1"
    using o Cons.prems(1) ob.push_inv by (auto simp: offlineSample_def Let_def split: if_splits)
  then show ?case using Cons.IH Cons.prems(2) o by (auto simp: c split: prod.splits)
qed simp

lemma sampleAll_fits:
  assumes "m_offlineHasSamples s" "m_offlineSamplePeriodMs s = 1000" "ob_inv b"
    and "1 \<le> length (ob_list b)" "unat (m_lastOfflineSampleMs s) \<ge> t0 + 1000 * (length (ob_list b) - 1)"
    and "sorted (map (unat \<circ> fst) cs)" "\<forall>c \<in> set cs. unat (m_lastOfflineSampleMs s) \<le> unat (fst c) \<and> unat (fst c) < t0 + 75000"
    and "sampleAll cs (s, b) = (acc, s', b')"
  shows "ob_list b' = ob_list b @ acc"
  using assms
proof (induction cs arbitrary: s b acc)
  case (Cons c cs)
  obtain now d where c: "c = (now, d)" by fastforce
  show ?case
  proof (cases "now - m_lastOfflineSampleMs s \<ge> 1000")
    case False
    then have "sampleAll cs (s, b) = (acc, s', b')"
      using Cons.prems(1,2,8) by (auto simp: c offlineSample_def offline_should_sample_def split: prod.splits)
    from Cons.IH[OF Cons.prems(1-5) _ _ this] show ?thesis using Cons.prems(6,7) by simp
  next
    case True
    let ?s = "s\<lparr> m_lastOfflineSampleMs := now, m_offlineLastTs := TEL_timestampMs d \<rparr>"
    let ?b = "ob_push d b"
    obtain acc1 where a: "acc = d # acc1" "sampleAll cs (?s, ?b) = (acc1, s', b')"
      using True Cons.prems(1,2,8) by (auto simp: c offlineSample_def offline_should_sample_def Let_def split: prod.splits)
    have t: "unat now \<ge> t0 + 1000 * length (ob_list b)" "unat now < t0 + 75000"
      using u64_elapsed[OF _ True] Cons.prems(4,5,7) by (auto simp: c)
    then have "length (ob_list b) \<noteq> OB_CAPACITY" by (simp add: cfg)
    then have p: "ob_list ?b = ob_list b @ [d]" using ob.push_fifo[OF Cons.prems(3), of d] by simp
    have "ob_list b' = ob_list ?b @ acc1"
      using Cons.IH[OF _ _ ob.push_inv[OF Cons.prems(3)] _ _ _ _ a(2)] Cons.prems(1,2,6,7) t p
      by (auto simp: c)
    then show ?thesis using p a(1) by simp
  qed
qed simp

text \<open>An outage of up to 75 s loses no sample: starting with an empty buffer and a new outage,
  for every sequence of sampling calls in time order within 75 s of the first one, all
  packets accepted as samples are in the buffer afterwards, in order, there are at most 75
  of them, and the first call is always accepted.\<close>

lemma outage_samples_complete:
  assumes "\<not> m_offlineHasSamples s" "m_offlineSamplePeriodMs s = 1000" "ob_inv b" "ob_list b = []"
    and "sorted (map (unat \<circ> fst) ((t0, d0) # cs))" "\<forall>c \<in> set cs. unat (fst c) < unat t0 + 75000"
    and "sampleAll ((t0, d0) # cs) (s, b) = (acc, s', b')"
  shows "ob_list b' = acc \<and> hd acc = d0 \<and> acc \<noteq> [] \<and> length acc \<le> 75"
proof -
  let ?s = "s\<lparr> m_lastOfflineSampleMs := t0, m_offlineFirstTs := TEL_timestampMs d0, m_offlineHasSamples := True,
              m_offlineLastTs := TEL_timestampMs d0 \<rparr>"
  obtain acc1 where a: "acc = d0 # acc1" "sampleAll cs (?s, ob_push d0 b) = (acc1, s', b')"
    using assms(1,7) by (auto simp: offlineSample_def offline_should_sample_def Let_def split: prod.splits)
  have p: "ob_list (ob_push d0 b) = [d0]" using ob.push_fifo[OF assms(3), of d0] assms(4) by (simp add: cfg)
  have l: "ob_list b' = ob_list (ob_push d0 b) @ acc1"
    by (rule sampleAll_fits[OF _ _ ob.push_inv[OF assms(3)] _ _ _ _ a(2), of "unat t0"])
       (use assms(2,5,6) p in auto)
  have "ob_inv b'" by (rule sampleAll_inv[OF ob.push_inv[OF assms(3)] a(2)])
  then show ?thesis using l p a(1) ob.bound[of b'] by (simp add: cfg)
qed

end
