(* ===== verification/C_Scan.thy ===== *)
theory C_Scan
  imports C_Printf
begin

text \<open>
  Reading text: splitting at a separator, the tokens of an input stream, and the number
  conversions \<open>strtoul\<close> and \<open>strtol\<close> of the C library on a host with 64-bit \<open>long\<close>.
\<close>

subsection \<open>Splitting\<close>

fun split_on :: "char \<Rightarrow> string \<Rightarrow> string list" where
  "split_on c [] = [[]]"
| "split_on c (x # xs) =
    (if x = c then [] # split_on c xs
     else case split_on c xs of [] \<Rightarrow> [[x]] | p # ps \<Rightarrow> (x # p) # ps)"

text \<open>Repeated \<open>std::getline\<close> with a separator: nothing follows a separator at the end of the input.\<close>

definition getlines :: "char \<Rightarrow> string \<Rightarrow> string list" where
  "getlines d s = (let ps = split_on d s in if last ps = [] then butlast ps else ps)"

definition isspace :: "char \<Rightarrow> bool" where
  "isspace c \<longleftrightarrow> c \<in> {CHR '' '', CHR 0x09, CHR 0x0A, CHR 0x0B, CHR 0x0C, CHR 0x0D}"

lemma tokens_shrink:
  assumes "s' = dropWhile isspace s" "s' \<noteq> []"
  shows "length (dropWhile (\<lambda>c. \<not> isspace c) s') < length s"
proof -
  have "\<not> isspace (hd s')" using assms hd_dropWhile by metis
  then have "length (dropWhile (\<lambda>c. \<not> isspace c) s') < length s'"
    using assms(2) by (cases s') (simp_all add: le_imp_less_Suc length_dropWhile_le)
  then show ?thesis using length_dropWhile_le[of isspace s] assms(1) by simp
qed

text \<open>The words that repeated \<open>>>\<close> extracts.\<close>

function tokens :: "string \<Rightarrow> string list" where
  "tokens s =
    (let s' = dropWhile isspace s
     in if s' = [] then [] else takeWhile (\<lambda>c. \<not> isspace c) s' # tokens (dropWhile (\<lambda>c. \<not> isspace c) s'))"
  by auto
termination by (relation "measure length") (use tokens_shrink in auto)

declare tokens.simps [simp del]

subsection \<open>Numbers\<close>

definition digit_value :: "char \<Rightarrow> nat option" where
  "digit_value c =
    (let n = of_char c :: nat
     in if 48 \<le> n \<and> n \<le> 57 then Some (n - 48)
        else if 65 \<le> n \<and> n \<le> 90 then Some (n - 55)
        else if 97 \<le> n \<and> n \<le> 122 then Some (n - 87)
        else None)"

definition is_digit_of :: "nat \<Rightarrow> char \<Rightarrow> bool" where
  "is_digit_of base c \<longleftrightarrow> (case digit_value c of None \<Rightarrow> False | Some v \<Rightarrow> v < base)"

definition digits_of :: "nat \<Rightarrow> string \<Rightarrow> nat" where
  "digits_of base s = foldl (\<lambda>a c. a * base + the (digit_value c)) 0 (takeWhile (is_digit_of base) s)"

text \<open>White space, a sign, and for base 16 a prefix that a digit follows.\<close>

definition strip_prefix16 :: "string \<Rightarrow> string" where
  "strip_prefix16 s =
    (case s of
       a # b # c # r \<Rightarrow> if a = CHR ''0'' \<and> (b = CHR ''x'' \<or> b = CHR ''X'') \<and> is_digit_of 16 c then c # r else s
     | _ \<Rightarrow> s)"

definition strto :: "nat \<Rightarrow> string \<Rightarrow> bool \<times> nat" where
  "strto base s =
    (let s = dropWhile isspace s;
         neg = (s \<noteq> [] \<and> hd s = CHR ''-'');
         s = (if s \<noteq> [] \<and> (hd s = CHR ''-'' \<or> hd s = CHR ''+'') then tl s else s);
         s = (if base = 16 then strip_prefix16 s else s)
     in (neg, digits_of base s))"

definition strtoul :: "nat \<Rightarrow> string \<Rightarrow> 64 word" where
  "strtoul base s =
    (case strto base s of (neg, m) \<Rightarrow>
       if m \<ge> 2 ^ 64 then - 1 else if neg then - of_nat m else of_nat m)"

definition strtol :: "nat \<Rightarrow> string \<Rightarrow> int" where
  "strtol base s =
    (case strto base s of (neg, m) \<Rightarrow>
       let v = (if neg then - int m else int m) in max (- (2 ^ 63)) (min (2 ^ 63 - 1) v))"

subsection \<open>Lemmas on splitting\<close>

lemma split_on_word: "c \<notin> set w \<Longrightarrow> split_on c w = [w]"
  by (induction w) auto

lemma split_on_append: "c \<notin> set w \<Longrightarrow> split_on c (w @ c # s) = w # split_on c s"
  by (induction w) auto

lemma split_on_concat:
  assumes "c \<notin> set w" "\<And>x. x \<in> set ws \<Longrightarrow> c \<notin> set x"
  shows "split_on c (w @ concat (map ((#) c) ws)) = w # ws"
  using assms
proof (induction ws arbitrary: w)
  case Nil
  then show ?case by (simp add: split_on_word)
next
  case (Cons x ws)
  then show ?case by (simp add: split_on_append)
qed

lemma split_on_nonempty: "split_on c s \<noteq> []"
  by (cases s) (auto split: list.splits)

lemma concat_split_on: "s = hd (split_on c s) @ concat (map ((#) c) (tl (split_on c s)))"
proof (induction s)
  case (Cons x s)
  obtain h t where "split_on c s = h # t" using split_on_nonempty by (cases "split_on c s") auto
  then show ?case using Cons by simp
qed simp

lemma last_split_on: "split_on c s = ps @ [p] \<Longrightarrow> p \<noteq> [] \<Longrightarrow> s \<noteq> [] \<and> last s = last p"
  using concat_split_on[of s c] by (cases ps) auto

subsection \<open>Tokens\<close>

lemma tokens_word:
  assumes "w \<noteq> []" "\<forall>c \<in> set w. \<not> isspace c"
  shows "tokens w = [w]" "isspace x \<Longrightarrow> tokens (w @ x # s) = w # tokens s"
proof -
  have d: "dropWhile isspace (w @ r) = w @ r" for r using assms by (cases w) auto
  have n: "dropWhile (\<lambda>c. \<not> isspace c) w = []" "takeWhile (\<lambda>c. \<not> isspace c) w = w" using assms(2) by simp_all
  have e: "tokens [] = []" by (simp add: tokens.simps[of "[]"])
  have "dropWhile isspace w = w" using d[of "[]"] by simp
  then show "tokens w = [w]" using assms(1) by (simp only: tokens.simps[of w] Let_def n e if_False)
  assume x: "isspace x"
  have "tokens (x # s) = tokens s" using x by (simp add: tokens.simps[of "x # s"] tokens.simps[of s])
  moreover have "dropWhile (\<lambda>c. \<not> isspace c) (w @ x # s) = x # s" "takeWhile (\<lambda>c. \<not> isspace c) (w @ x # s) = w"
    using assms(2) x by (simp_all add: dropWhile_append2 takeWhile_append2)
  ultimately show "tokens (w @ x # s) = w # tokens s"
    using assms(1) d[of "x # s"] by (simp add: tokens.simps[of "w @ x # s"] Let_def)
qed

lemma tokens_concat:
  assumes "isspace x" "\<forall>v \<in> set (w # ws). v \<noteq> [] \<and> (\<forall>c \<in> set v. \<not> isspace c)"
  shows "tokens (w @ concat (map ((#) x) ws)) = w # ws"
  using assms(2)
proof (induction ws arbitrary: w)
  case Nil
  then show ?case using tokens_word(1)[of w] by simp
next
  case (Cons v ws)
  then show ?case using tokens_word(2)[of w x "v @ concat (map ((#) x) ws)"] assms(1) by simp
qed

lemma tokens_Nil_iff: "tokens s = [] \<longleftrightarrow> (\<forall>c \<in> set s. isspace c)"
  by (simp add: tokens.simps[of s] Let_def dropWhile_eq_Nil_conv)

subsection \<open>Hexadecimal numbers\<close>

definition hexdigit :: "nat \<Rightarrow> char" where
  "hexdigit n = ''0123456789ABCDEF'' ! n"

fun show_hexw :: "nat \<Rightarrow> nat \<Rightarrow> string" where
  "show_hexw 0 n = []"
| "show_hexw (Suc k) n = show_hexw k (n div 16) @ [hexdigit (n mod 16)]"

lemma show_hexw_numeral:
  "show_hexw (numeral k) n = show_hexw (pred_numeral k) (n div 16) @ [hexdigit (n mod 16)]"
  by (simp only: numeral_eq_Suc show_hexw.simps)

lemma show_hex2_w: "show_hex2 b = show_hexw 2 (unat b)"
  using u8_unat_less[of b] by (simp add: show_hex2_def numeral_2_eq_2 hexdigit_def Let_def)

lemma hexdigit_all:
  assumes "n < 16"
  shows "digit_value (hexdigit n) = Some n" "\<not> isspace (hexdigit n)"
    "hexdigit n \<notin> {CHR ''-'', CHR ''+'', CHR ''x'', CHR ''X'', CHR ''|'', CHR ''#''}"
proof -
  have "list_all (\<lambda>n. digit_value (hexdigit n) = Some n \<and> \<not> isspace (hexdigit n) \<and>
      \<not> List.member [CHR ''-'', CHR ''+'', CHR ''x'', CHR ''X'', CHR ''|'', CHR ''#''] (hexdigit n)) [0..<16]" by code_simp
  then show "digit_value (hexdigit n) = Some n" "\<not> isspace (hexdigit n)"
    "hexdigit n \<notin> {CHR ''-'', CHR ''+'', CHR ''x'', CHR ''X'', CHR ''|'', CHR ''#''}"
    using assms by (auto simp: list_all_iff)
qed

lemma hexw_chars: "c \<in> set (show_hexw k n) \<Longrightarrow> \<exists>d < 16. c = hexdigit d"
  by (induction k arbitrary: n) (auto intro: exI[of _ "n mod 16" for n])

lemma length_hexw [simp]: "length (show_hexw k n) = k"
  by (induction k arbitrary: n) simp_all

lemma hexw_clean:
  assumes "c \<in> set (show_hexw k n)"
  shows "is_digit_of 16 c" "\<not> isspace c" "c \<notin> {CHR ''-'', CHR ''+'', CHR ''x'', CHR ''X'', CHR ''|'', CHR ''#''}"
proof -
  obtain d where d: "d < 16" "c = hexdigit d" using hexw_chars[OF assms] by blast
  show "is_digit_of 16 c" "\<not> isspace c" "c \<notin> {CHR ''-'', CHR ''+'', CHR ''x'', CHR ''X'', CHR ''|'', CHR ''#''}"
    unfolding d(2) using hexdigit_all[OF d(1)] d(1) by (simp_all add: is_digit_of_def)
qed

lemma digits_of_hexw: "n < 16 ^ k \<Longrightarrow> digits_of 16 (show_hexw k n) = n"
proof -
  have "takeWhile (is_digit_of 16) (show_hexw k n) = show_hexw k n" using hexw_clean(1) by simp
  moreover have "n < 16 ^ k \<Longrightarrow> foldl (\<lambda>a c. a * 16 + the (digit_value c)) 0 (show_hexw k n) = n"
  proof (induction k arbitrary: n)
    case (Suc k)
    have "n div 16 < 16 ^ k" using Suc.prems by (simp add: less_mult_imp_div_less)
    then show ?case using Suc.IH hexdigit_all(1)[of "n mod 16"] by simp
  qed simp
  ultimately show "n < 16 ^ k \<Longrightarrow> ?thesis" by (simp only: digits_of_def)
qed

lemma strto_hexw:
  assumes "0 < k" "n < 16 ^ k"
  shows "strto 16 (show_hexw k n) = (False, n)" "strto 16 (''0x'' @ show_hexw k n) = (False, n)"
proof -
  obtain a r where s: "show_hexw k n = a # r" using assms(1) length_hexw[of k n] by (cases "show_hexw k n") auto
  have a: "is_digit_of 16 a" "\<not> isspace a" "a \<noteq> CHR ''-''" "a \<noteq> CHR ''+''" using hexw_clean[of a k n] s by auto
  have "strip_prefix16 (show_hexw k n) = show_hexw k n"
    using hexw_clean(3)[of _ k n] unfolding s strip_prefix16_def by (auto split: list.split)
  then show "strto 16 (show_hexw k n) = (False, n)"
    using a digits_of_hexw[OF assms(2)] unfolding s by (simp add: strto_def)
  have "strip_prefix16 (CHR ''0'' # CHR ''x'' # a # r) = a # r" using a by (simp add: strip_prefix16_def)
  then show "strto 16 (''0x'' @ show_hexw k n) = (False, n)"
    using digits_of_hexw[OF assms(2)] unfolding s by (simp add: strto_def isspace_def)
qed

lemma strtoul_hexw:
  assumes "0 < k" "n < 16 ^ k" "n < 2 ^ 64"
  shows "strtoul 16 (show_hexw k n) = of_nat n" "strtoul 16 (''0x'' @ show_hexw k n) = of_nat n"
  using strto_hexw[OF assms(1,2)] assms(3) by (simp_all add: strtoul_def)

end
