(* ===== verification/Telemetry_Frame.thy ===== *)
theory Telemetry_Frame
  imports Vehicle_Data C_Scan
begin

text \<open>
  The telemetry uplink frame: the range clamps of lib/Telemetry/TelemetrySanitize.h,
  the CSV line of Telemetry::sendStatus (lib/Telemetry/Telemetry.cpp), and the
  acceptance rules of the ground station as the repository states them
  (tools/e2e/contract.py).  The UART is a parameter: a function from the bytes
  and its own state to the number of bytes it took, negative on an error.
\<close>

subsection \<open>Sanitizing\<close>

definition sanitizeSystemState :: "u8 \<Rightarrow> u8" where
  "sanitizeSystemState raw = (if raw \<ge> 1 \<and> raw \<le> 4 then raw else 4)"

definition sanitizeSoc :: "u16 \<Rightarrow> u16" where
  "sanitizeSoc raw = (if raw > 10000 then 10000 else raw)"

definition INT32_MIN :: i32 where "INT32_MIN = - 2147483648"

definition sanitizeCurrent :: "i32 \<Rightarrow> i32" where
  "sanitizeCurrent raw = (if raw = INT32_MIN then INT32_MIN + 1 else raw)"

definition sanitizeForUplink :: "TelemetryData \<Rightarrow> TelemetryData" where
  "sanitizeForUplink raw =
     raw\<lparr> TEL_bmsSystemState := sanitizeSystemState (TEL_bmsSystemState raw),
          TEL_bmsSocHundredths := sanitizeSoc (TEL_bmsSocHundredths raw),
          TEL_bmsCurrentCentiA := sanitizeCurrent (TEL_bmsCurrentCentiA raw) \<rparr>"

subsection \<open>The frame\<close>

definition LORA_PROTOCOL_VERSION :: int where "LORA_PROTOCOL_VERSION = 2"
definition LORA_TEL_FRAME_MAX_BYTES :: nat where "LORA_TEL_FRAME_MAX_BYTES = 120"
definition TEL_PAYLOAD_SIZE :: nat where "TEL_PAYLOAD_SIZE = 192"

text \<open>The eighteen arguments of the format string, as the integers the conversions
  \<open>%d\<close>, \<open>%u\<close>, \<open>%ld\<close> and \<open>%lu\<close> print.\<close>

definition telFields :: "u32 \<Rightarrow> TelemetryData \<Rightarrow> int list" where
  "telFields seq d =
    [LORA_PROTOCOL_VERSION, uint seq, sint (TEL_motorRpm d), uint (TEL_motorVoltageDeciV d),
     uint (TEL_motorErrorFlags d), of_bool (TEL_motorDataValid d), of_bool (TEL_motorTimeoutActive d),
     uint (TEL_bmsCellVoltageMaxDeciMv d), uint (TEL_bmsCellVoltageMinDeciMv d),
     sint (TEL_bmsTempHighestC d), sint (TEL_bmsTempLowestC d), uint (TEL_bmsSystemState d),
     uint (TEL_bmsPackVoltageDeciV d), sint (TEL_bmsCurrentCentiA d), uint (TEL_bmsSocHundredths d),
     of_bool (TEL_bmsDataValid d), uint (TEL_timestampMs d), uint (TEL_speedKmhX10 d)]"

definition telLine :: "u32 \<Rightarrow> TelemetryData \<Rightarrow> string" where
  "telLine seq d =
     ''TEL'' @ concat (map (\<lambda>i. CHR '','' # show_int i) (telFields seq d)) @ [CHR 0x0D, CHR 0x0A]"

record Telemetry =
  TEL_isInitialized :: bool
  TEL_sequenceCounter :: u32

definition Telemetry_new :: Telemetry where
  "Telemetry_new = \<lparr> TEL_isInitialized = False, TEL_sequenceCounter = 0 \<rparr>"

definition Telemetry_begin :: "Telemetry \<Rightarrow> bool \<times> Telemetry" where
  "Telemetry_begin t = (True, t\<lparr> TEL_isInitialized := True, TEL_sequenceCounter := 0 \<rparr>)"

definition sendStatus :: "(string \<Rightarrow> 'u \<Rightarrow> int \<times> 'u) \<Rightarrow> TelemetryData \<Rightarrow> Telemetry \<times> 'u \<Rightarrow> Telemetry \<times> 'u" where
  "sendStatus uart_write_bytes d tu =
    (let (t, u) = tu
     in if \<not> TEL_isInitialized t then (t, u)
        else let (TEL_payload, TEL_payloadLength) =
                   snprintf TEL_PAYLOAD_SIZE (telLine (TEL_sequenceCounter t) d)
             in if TEL_payloadLength \<le> 0 then (t, u)
                else let TEL_txLength = (if TEL_payloadLength < int TEL_PAYLOAD_SIZE
                                         then TEL_payloadLength else int (TEL_PAYLOAD_SIZE - 1));
                         (TEL_written, u) = uart_write_bytes (take (nat TEL_txLength) TEL_payload) u
                     in if TEL_written < 0 then (t, u)
                        else (t\<lparr> TEL_sequenceCounter := TEL_sequenceCounter t + 1 \<rparr>, u))"

subsection \<open>Acceptance by the ground station\<close>

datatype UksRejection = Parse_fail | Bad_tag | Bad_version | Range_fail

definition TOKEN_COUNT :: nat where "TOKEN_COUNT = 19"
definition VER :: int where "VER = 2"
definition TEL_RPM_MAX :: int where "TEL_RPM_MAX = 20000"

definition FIELD_RANGES :: "(int \<times> int) list" where
  "FIELD_RANGES =
    [(0, 255), (0, 4294967295), (0, 65535), (- 32768, 32767), (0, 255), (0, 1), (0, 1),
     (0, 65535), (0, 65535), (- 128, 127), (- 128, 127), (1, 4), (0, 65535),
     (- 2147483647, 2147483647), (0, 10000), (0, 1), (0, 4294967295), (0, 3000)]"

definition is_strict_int_token :: "string \<Rightarrow> bool \<Rightarrow> bool" where
  "is_strict_int_token tok allow_sign =
    (if tok = [] then False
     else let body = (if allow_sign \<and> (hd tok = CHR ''-'' \<or> hd tok = CHR ''+'') then tl tok else tok)
          in if body = [] then False else list_all isdigit body)"

text \<open>Python's \<open>int\<close> on an accepted token: an optional sign and digits.\<close>

definition int_of_token :: "string \<Rightarrow> int" where
  "int_of_token tok =
    (if hd tok = CHR ''-'' then - digits_val (tl tok)
     else if hd tok = CHR ''+'' then digits_val (tl tok) else digits_val tok)"

definition rstrip_crlf :: "string \<Rightarrow> string" where
  "rstrip_crlf s = rev (dropWhile (\<lambda>c. c = CHR 0x0D \<or> c = CHR 0x0A) (rev s))"

fun parse_fields :: "(int \<times> int) list \<Rightarrow> string list \<Rightarrow> int list option" where
  "parse_fields ((lo, hi) # rs) (tok # toks) =
    (if \<not> is_strict_int_token tok (lo < 0) then None
     else let v = int_of_token tok
          in if v < lo \<or> v > hi then None
             else (case parse_fields rs toks of None \<Rightarrow> None | Some vs \<Rightarrow> Some (v # vs)))"
| "parse_fields _ _ = Some []"

definition parse_uks_frame :: "string \<Rightarrow> UksRejection + int list" where
  "parse_uks_frame line =
    (let fields = split_on (CHR '','') (rstrip_crlf line)
     in if length fields \<noteq> TOKEN_COUNT then Inl Parse_fail
        else if hd fields \<noteq> ''TEL'' then Inl Bad_tag
        else case parse_fields FIELD_RANGES (tl fields) of
               None \<Rightarrow> Inl Parse_fail
             | Some values \<Rightarrow>
                 if values ! 0 \<noteq> VER then Inl Bad_version
                 else if values ! 2 > TEL_RPM_MAX then Inl Range_fail
                 else Inr values)"

subsection \<open>Tokens\<close>

lemma int_of_token_show: "int_of_token (show_int i) = i"
  by (simp add: int_of_token_def show_int_def digits_val_show)

lemma token_show: "is_strict_int_token (show_int i) s \<longleftrightarrow> s \<or> 0 \<le> i"
  using show_nat_digits by (auto simp: is_strict_int_token_def show_int_def)

lemma rstrip_crlf_append:
  "s \<noteq> [] \<Longrightarrow> last s \<noteq> CHR 0x0D \<Longrightarrow> last s \<noteq> CHR 0x0A \<Longrightarrow>
   rstrip_crlf (s @ [CHR 0x0D, CHR 0x0A]) = s"
  by (cases s rule: rev_cases) (simp_all add: rstrip_crlf_def)

lemma parse_fields_show:
  assumes "length rs = length is"
  shows "parse_fields rs (map show_int is) =
         (if list_all2 (\<lambda>(lo, hi) i. lo \<le> i \<and> i \<le> hi) rs is then Some is else None)"
  using assms
proof (induction rs "is" rule: list_induct2)
  case (Cons r rs i "is")
  then show ?case by (cases r) (auto simp: token_show int_of_token_show)
qed simp

lemma fields_of_line:
  assumes "is \<noteq> []"
  shows "split_on (CHR '','') (rstrip_crlf (''TEL'' @ concat (map (\<lambda>i. CHR '','' # show_int i) is) @
           [CHR 0x0D, CHR 0x0A])) = ''TEL'' # map show_int is"
proof -
  let ?s = "''TEL'' @ concat (map (\<lambda>i. CHR '','' # show_int i) is)"
  obtain js j where "is": "is = js @ [j]" using assms by (cases "is" rule: rev_cases) auto
  have l: "last ?s = last (show_int j)" using last_show_int(3) by (simp add: "is")
  have "rstrip_crlf (?s @ [CHR 0x0D, CHR 0x0A]) = ?s"
    by (rule rstrip_crlf_append) (use l last_show_int in auto)
  moreover have "split_on (CHR '','') (''TEL'' @ concat (map ((#) (CHR '','')) (map show_int is))) =
                 ''TEL'' # map show_int is"
    using show_int_chars isdigit_not by (intro split_on_concat) fastforce+
  ultimately show ?thesis by (simp add: comp_def)
qed

subsection \<open>Ranges of the fields\<close>

lemma uint_bounds:
  "0 \<le> uint w8 \<and> uint (w8 :: u8) \<le> 255" "0 \<le> uint w16 \<and> uint (w16 :: u16) \<le> 65535"
  "0 \<le> uint w32 \<and> uint (w32 :: u32) \<le> 4294967295"
  using uint_lt2p[of w8] uint_lt2p[of w16] uint_lt2p[of w32] by simp_all

lemma sint_bounds:
  "- 128 \<le> sint i8 \<and> sint (i8 :: i8) \<le> 127" "- 32768 \<le> sint i16 \<and> sint (i16 :: i16) \<le> 32767"
  "- 2147483648 \<le> sint i32 \<and> sint (i32 :: i32) \<le> 2147483647"
  using sint_greater_eq[of i8] sint_less[of i8] sint_greater_eq[of i16] sint_less[of i16]
    sint_greater_eq[of i32] sint_less[of i32] by simp_all

lemma sanitized_ranges:
  "1 \<le> uint (sanitizeSystemState s) \<and> uint (sanitizeSystemState s) \<le> 4"
  "uint (sanitizeSoc c) \<le> 10000"
  "- 2147483647 \<le> sint (sanitizeCurrent a)"
proof -
  show "1 \<le> uint (sanitizeSystemState s) \<and> uint (sanitizeSystemState s) \<le> 4"
    by (auto simp: sanitizeSystemState_def word_le_def)
  show "uint (sanitizeSoc c) \<le> 10000"
    by (auto simp: sanitizeSoc_def word_less_def)
  show "- 2147483647 \<le> sint (sanitizeCurrent a)"
  proof (cases "a = INT32_MIN")
    case False
    have "sint a \<noteq> - 2147483648"
    proof
      assume "sint a = - 2147483648"
      then have "word_of_int (sint a) = (word_of_int (- 2147483648) :: i32)" by simp
      with False show False by (simp add: INT32_MIN_def)
    qed
    then show ?thesis using sint_bounds(3)[of a] False by (simp add: sanitizeCurrent_def)
  qed (simp add: sanitizeCurrent_def INT32_MIN_def)
qed

lemma frame_roundtrip:
  "parse_uks_frame (telLine seq (sanitizeForUplink d)) =
    (if sint (TEL_motorRpm d) < 0 \<or> uint (TEL_motorVoltageDeciV d) > 32767 \<or> uint (TEL_speedKmhX10 d) > 3000
     then Inl Parse_fail
     else if sint (TEL_motorRpm d) > 20000 then Inl Range_fail
     else Inr (telFields seq (sanitizeForUplink d)))"
proof -
  let ?is = "telFields seq (sanitizeForUplink d)"
  have ne: "?is \<noteq> []" and len: "length FIELD_RANGES = length ?is"
    by (simp_all add: telFields_def FIELD_RANGES_def)
  have a: "sint (TEL_motorRpm d) \<le> 65535" "- 32768 \<le> uint (TEL_motorVoltageDeciV d)"
    using sint_bounds(2)[of "TEL_motorRpm d"] uint_bounds(2)[of "TEL_motorVoltageDeciV d"] by linarith+
  have r: "list_all2 (\<lambda>(lo, hi) i. lo \<le> i \<and> i \<le> hi) FIELD_RANGES ?is \<longleftrightarrow>
    \<not> (sint (TEL_motorRpm d) < 0 \<or> uint (TEL_motorVoltageDeciV d) > 32767 \<or> uint (TEL_speedKmhX10 d) > 3000)"
    by (auto simp: a telFields_def FIELD_RANGES_def LORA_PROTOCOL_VERSION_def uint_bounds sint_bounds
        sanitized_ranges sanitizeForUplink_def)
  have k: "?is ! 0 = VER" "?is ! 2 = sint (TEL_motorRpm d)" "length ?is = 18"
    by (simp_all add: telFields_def LORA_PROTOCOL_VERSION_def VER_def sanitizeForUplink_def)
  show ?thesis
    by (simp add: parse_uks_frame_def telLine_def fields_of_line[OF ne, simplified]
        parse_fields_show[OF len] r k TOKEN_COUNT_def TEL_RPM_MAX_def)
qed

text \<open>C26. The uplink frame round trip: for every telemetry record and sequence number, what
  the ground station's acceptance rules make of the sanitized line is fully determined.
  It decodes to exactly the eighteen numbers that were printed, unless the speed of the
  motor is negative or above 20000, the motor voltage exceeds 32767 or the vehicle speed
  exceeds 3000; then the whole line is refused.\<close>

theorem tel_frame_roundtrip:
  "parse_uks_frame (telLine seq (sanitizeForUplink d)) =
    (if sint (TEL_motorRpm d) < 0 \<or> uint (TEL_motorVoltageDeciV d) > 32767 \<or> uint (TEL_speedKmhX10 d) > 3000
     then Inl Parse_fail
     else if sint (TEL_motorRpm d) > 20000 then Inl Range_fail
     else Inr (telFields seq (sanitizeForUplink d)))"
  by (rule frame_roundtrip)

lemma telLine_length: "length (telLine q d) \<le> 108"
proof -
  have sum: "length (telLine q d) = 5 + (\<Sum>i\<leftarrow>telFields q d. Suc (length (show_int i)))"
    by (simp add: telLine_def length_concat comp_def)
  have u8: "length (show_int (uint w)) \<le> 3" for w :: u8
    using uint_bounds(1)[of w] by (intro length_show_pos) auto
  have u16: "length (show_int (uint w)) \<le> 5" for w :: u16
    using uint_bounds(2)[of w] by (intro length_show_pos) auto
  have u32: "length (show_int (uint w)) \<le> 10" for w :: u32
    using uint_bounds(3)[of w] by (intro length_show_pos) auto
  have i8: "length (show_int (sint w)) \<le> 4" for w :: i8
    using sint_bounds(1)[of w] length_show_sint[of "sint w" 3] by (simp add: abs_less_iff) 
  have i16: "length (show_int (sint w)) \<le> 6" for w :: i16
    using sint_bounds(2)[of w] length_show_sint[of "sint w" 5] by (simp add: abs_less_iff)
  have i32: "length (show_int (sint w)) \<le> 11" for w :: i32
    using sint_bounds(3)[of w] length_show_sint[of "sint w" 10] by (simp add: abs_less_iff)
  have b: "length (show_int (of_bool v)) \<le> 1" "length (show_int LORA_PROTOCOL_VERSION) \<le> 1" for v
    by (auto intro: length_show_pos simp: LORA_PROTOCOL_VERSION_def)
  show ?thesis
    unfolding sum telFields_def
    using u8[of "TEL_motorErrorFlags d"] u8[of "TEL_bmsSystemState d"]
      u16[of "TEL_motorVoltageDeciV d"] u16[of "TEL_bmsCellVoltageMaxDeciMv d"]
      u16[of "TEL_bmsCellVoltageMinDeciMv d"] u16[of "TEL_bmsPackVoltageDeciV d"]
      u16[of "TEL_bmsSocHundredths d"] u16[of "TEL_speedKmhX10 d"]
      u32[of q] u32[of "TEL_timestampMs d"] i8[of "TEL_bmsTempHighestC d"]
      i8[of "TEL_bmsTempLowestC d"] i16[of "TEL_motorRpm d"] i32[of "TEL_bmsCurrentCentiA d"]
      b(1)[of "TEL_motorDataValid d"] b(1)[of "TEL_motorTimeoutActive d"] b(1)[of "TEL_bmsDataValid d"] b(2)
    by simp
qed

lemma sendStatus_eq:
  "sendStatus w d (t, u) =
     (if \<not> TEL_isInitialized t then (t, u)
      else let (written, u') = w (telLine (TEL_sequenceCounter t) d) u
           in (if written < 0 then t else t\<lparr> TEL_sequenceCounter := TEL_sequenceCounter t + 1 \<rparr>, u'))"
proof -
  have "0 < length (telLine (TEL_sequenceCounter t) d)" by (simp add: telLine_def)
  then show ?thesis
    using telLine_length[of "TEL_sequenceCounter t" d]
    by (auto simp: sendStatus_def snprintf_def TEL_PAYLOAD_SIZE_def split: prod.split)
qed

text \<open>Frames are sent whole: the line of any telemetry record is at most 108 bytes, below
  both the transmit budget of 120 and the buffer of 192, so an initialised sender hands the
  complete line to the UART and counts it exactly when the UART reports no error; an
  uninitialised sender does nothing.\<close>

lemma sendStatus_whole_frame:
  "length (telLine seq d) \<le> 108 \<and> length (telLine seq d) \<le> LORA_TEL_FRAME_MAX_BYTES \<and>
   sendStatus uart_write_bytes d (t, u) =
     (if \<not> TEL_isInitialized t then (t, u)
      else let (written, u') = uart_write_bytes (telLine (TEL_sequenceCounter t) d) u
           in (if written < 0 then t else t\<lparr> TEL_sequenceCounter := TEL_sequenceCounter t + 1 \<rparr>, u'))"
  using telLine_length[of seq d] by (simp add: sendStatus_eq LORA_TEL_FRAME_MAX_BYTES_def)

end
