(* ===== verification/Lora_Task.thy ===== *)
theory Lora_Task
  imports Lora_Link Uplink_Scheduler Telemetry_Frame Can_Parse
begin

text \<open>
  The LoRa task of src/main.cpp: the hardware layer \<open>EspLoraHal\<close> over the ESP-IDF calls it
  makes, the bounded UART start-up, the send callback \<open>LoRa_txSend\<close> and the cycle of
  \<open>vTask_LoRa_UKS\<close>.  The ESP-IDF functions are a record over a device state \<open>'e\<close>; a result
  \<open>esp_err_t\<close> is a Boolean that says \<open>ESP_OK\<close>, and the free size of the transmit ring is
  \<open>None\<close> when the query fails.
\<close>

record 'e EspLora =
  gpio_set_level :: "nat \<Rightarrow> int \<Rightarrow> 'e \<Rightarrow> 'e"
  gpio_get_level :: "nat \<Rightarrow> 'e \<Rightarrow> int \<times> 'e"
  uart_flush :: "'e \<Rightarrow> 'e"
  uart_write_bytes :: "u8 list \<Rightarrow> 'e \<Rightarrow> int \<times> 'e"
  uart_read_bytes :: "nat \<Rightarrow> u32 \<Rightarrow> 'e \<Rightarrow> (int \<times> u8 list) \<times> 'e"
  uart_get_tx_buffer_free_size :: "'e \<Rightarrow> nat option \<times> 'e"
  uart_is_driver_installed :: "'e \<Rightarrow> bool \<times> 'e"
  uart_driver_delete :: "'e \<Rightarrow> 'e"
  uart_param_config :: "'e \<Rightarrow> bool \<times> 'e"
  uart_set_pin :: "'e \<Rightarrow> bool \<times> 'e"
  uart_driver_install :: "'e \<Rightarrow> bool \<times> 'e"
  vTaskDelay :: "u32 \<Rightarrow> 'e \<Rightarrow> 'e"
  xTaskGetTickCount :: "'e \<Rightarrow> u32 \<times> 'e"
  esp_timer_get_time :: "'e \<Rightarrow> 64 word \<times> 'e"
  esp_task_wdt_reset :: "'e \<Rightarrow> 'e"
  esp_printf :: "string \<Rightarrow> 'e \<Rightarrow> 'e"

definition LORA_AUX_PIN :: nat where [cfg]: "LORA_AUX_PIN = 35"
definition LORA_M0_PIN :: nat where [cfg]: "LORA_M0_PIN = 25"
definition LORA_M1_PIN :: nat where [cfg]: "LORA_M1_PIN = 26"
definition LORA_AUX_READY_LEVEL :: int where [cfg]: "LORA_AUX_READY_LEVEL = 1"
definition LORA_UART_MAX_INIT_ATTEMPTS :: int where [cfg]: "LORA_UART_MAX_INIT_ATTEMPTS = 5"
definition LORA_TX_PERIOD_MS :: u32 where [cfg]: "LORA_TX_PERIOD_MS = 500"
definition LORA_RX_TIMEOUT_MS :: u32 where [cfg]: "LORA_RX_TIMEOUT_MS = 20"

subsection \<open>The hardware layer\<close>

definition e22RegLine :: "u8 \<Rightarrow> u8 \<Rightarrow> string" where
  "e22RegLine addr v = ''E22REG,0x'' @ show_hex2 addr @ '',0x'' @ show_hex2 v @ [CHR 0x0D, CHR 0x0A]"

definition E22_logHexDump :: "'e EspLora \<Rightarrow> u8 list \<Rightarrow> int \<Rightarrow> 'e \<Rightarrow> 'e" where
  "E22_logHexDump esp buf len e =
    (if len < int (3 + unat E22_REG_BLOCK_LEN) then e
     else fold (\<lambda>i e. esp_printf esp (e22RegLine (E22_REG_BLOCK_START + of_nat i) (buf ! (3 + i))) e)
            [0..<unat E22_REG_BLOCK_LEN] e)"

text \<open>C division of the signed 64-bit time truncates towards zero.\<close>

definition EspLoraHal_nowMs :: "'e EspLora \<Rightarrow> 'e \<Rightarrow> 64 word \<times> 'e" where
  "EspLoraHal_nowMs esp e =
    (case esp_timer_get_time esp e of (t, e) \<Rightarrow> (of_int (sgn (sint t) * (\<bar>sint t\<bar> div 1000)), e))"

definition EspLoraHal :: "'e EspLora \<Rightarrow> 'e ILoraHal" where
  "EspLoraHal esp = \<lparr>
     hal_setModePins = (\<lambda>m0Level m1Level e. gpio_set_level esp LORA_M1_PIN m1Level (gpio_set_level esp LORA_M0_PIN m0Level e)),
     hal_isAuxReady = (\<lambda>e. case gpio_get_level esp LORA_AUX_PIN e of (level, e) \<Rightarrow> (level = LORA_AUX_READY_LEVEL, e)),
     hal_auxRawLevel = gpio_get_level esp LORA_AUX_PIN,
     hal_uartFlush = uart_flush esp,
     hal_uartWrite = uart_write_bytes esp,
     hal_uartRead = (\<lambda>len timeoutMs. uart_read_bytes esp len (pdMS_TO_TICKS timeoutMs)),
     hal_delayMs = (\<lambda>ms. vTaskDelay esp (pdMS_TO_TICKS ms)),
     hal_nowMs = EspLoraHal_nowMs esp,
     hal_feedWatchdog = esp_task_wdt_reset esp,
     hal_hexDumpE22 = E22_logHexDump esp \<rparr>"

text \<open>The pins, set before the UART; a failing call aborts.\<close>

datatype GpioMode = GPIO_MODE_OUTPUT | GPIO_MODE_INPUT

record gpio_config_t =
  pin_bit_mask :: "64 word"
  gpio_mode :: GpioMode
  pull_up_en :: bool
  pull_down_en :: bool
  intr_enabled :: bool

definition modePinsConfig :: gpio_config_t where
  "modePinsConfig = \<lparr> pin_bit_mask = push_bit LORA_M0_PIN 1 OR push_bit LORA_M1_PIN 1, gpio_mode = GPIO_MODE_OUTPUT,
     pull_up_en = False, pull_down_en = False, intr_enabled = False \<rparr>"

definition auxPinConfig :: gpio_config_t where
  "auxPinConfig = \<lparr> pin_bit_mask = push_bit LORA_AUX_PIN 1, gpio_mode = GPIO_MODE_INPUT,
     pull_up_en = False, pull_down_en = False, intr_enabled = False \<rparr>"

definition EspLoraHal_pins :: "(gpio_config_t \<Rightarrow> 'e \<Rightarrow> bool \<times> 'e) \<Rightarrow> 'e \<Rightarrow> 'e option" where
  "EspLoraHal_pins gpio_config e =
    (case gpio_config modePinsConfig e of (ok, e) \<Rightarrow>
       if \<not> ok then None
       else case gpio_config auxPinConfig e of (ok, e) \<Rightarrow> if \<not> ok then None else Some e)"

text \<open>One attempt to set the UART up: the three results are all computed.\<close>

definition uartAttempt :: "'e EspLora \<Rightarrow> 'e \<Rightarrow> bool \<times> 'e" where
  "uartAttempt esp e =
    (let (installed, e) = uart_is_driver_installed esp e;
         e = (if installed then uart_driver_delete esp e else e);
         (err1, e) = uart_param_config esp e;
         (err2, e) = uart_set_pin esp e;
         (err3, e) = uart_driver_install esp e
     in (err1 \<and> err2 \<and> err3, e))"

function uartInitLoop :: "'e EspLora \<Rightarrow> int \<Rightarrow> 'e \<Rightarrow> bool \<times> 'e" where
  "uartInitLoop esp failedAttempts e =
    (case uartAttempt esp e of (ok, e) \<Rightarrow>
       if ok then (True, e)
       else if uart_init_retry_decision (failedAttempts + 1) LORA_UART_MAX_INIT_ATTEMPTS = GIVE_UP_DISABLED then (False, e)
       else uartInitLoop esp (failedAttempts + 1) (esp_task_wdt_reset esp (vTaskDelay esp (pdMS_TO_TICKS 1000) e)))"
  by auto
termination
  by (relation "measure (\<lambda>(_, n, _). nat (5 - n))")
     (auto simp: uart_init_retry_decision_def cfg split: if_splits)

definition EspLoraHal_begin :: "'e EspLora \<Rightarrow> 'e \<Rightarrow> bool \<times> 'e" where
  "EspLoraHal_begin esp e = uartInitLoop esp 0 e"

text \<open>The whole set-up; \<open>None\<close> is the abort.\<close>

definition EspLoraHal_setup :: "(gpio_config_t \<Rightarrow> 'e \<Rightarrow> bool \<times> 'e) \<Rightarrow> 'e EspLora \<Rightarrow> 'e \<Rightarrow> (bool \<times> 'e) option" where
  "EspLoraHal_setup gpio_config esp e =
    (case EspLoraHal_pins gpio_config e of None \<Rightarrow> None | Some e \<Rightarrow> Some (EspLoraHal_begin esp e))"

subsection \<open>Sending\<close>

record 'e TxCtx =
  tx_tel :: Telemetry
  tx_auxNotReadyLogged :: bool
  s_loraTxDeferredCount :: u32
  tx_esp :: 'e

definition LoRa_txSend :: "'e EspLora \<Rightarrow> TelemetryData \<Rightarrow> bool \<Rightarrow> 'e TxCtx \<Rightarrow> bool \<times> 'e TxCtx" where
  "LoRa_txSend esp pkt isReplay c =
    (let (ready, e) = hal_isAuxReady (EspLoraHal esp) (tx_esp c);
         c = c\<lparr> tx_esp := e \<rparr>
     in if \<not> ready then (False, c\<lparr> tx_auxNotReadyLogged := True \<rparr>)
        else let (LO_txFree, e) = uart_get_tx_buffer_free_size esp (tx_esp c);
                 c = c\<lparr> tx_esp := e \<rparr>
             in if (case LO_txFree of None \<Rightarrow> True | Some n \<Rightarrow> n < LORA_TEL_FRAME_MAX_BYTES)
                then (False, c\<lparr> s_loraTxDeferredCount := s_loraTxDeferredCount c + 1 \<rparr>)
                else let (tel, e) = sendStatus (\<lambda>text. uart_write_bytes esp (map of_char text))
                                      (sanitizeForUplink pkt) (tx_tel c, tx_esp c);
                         c = c\<lparr> tx_tel := tel, tx_esp := e, tx_auxNotReadyLogged := False \<rparr>;
                         c = (if isReplay then c\<lparr> tx_esp := hal_feedWatchdog (EspLoraHal esp) (tx_esp c) \<rparr> else c)
                     in (True, c))"

subsection \<open>The task\<close>

record 'e LoraTask =
  lo_tx :: "'e TxCtx"
  lo_sched :: UplinkScheduler
  lo_buffer :: OfflineBuffer
  lo_bootMs :: "64 word"
  lo_lastTelemetryTick :: u32

datatype 'e LoraBoot = LoraDisabled 'e | LoraRunning "'e LoraTask"

text \<open>The task up to its loop; \<open>None\<close> if the radio configuration does not return.\<close>

definition vTask_LoRa_start :: "'e EspLora \<Rightarrow> OfflineBuffer \<Rightarrow> u32 \<Rightarrow> 'e \<Rightarrow> 'e LoraBoot option" where
  "vTask_LoRa_start esp b deferred e =
    (case EspLoraHal_begin esp e of (ok, e) \<Rightarrow>
       if \<not> ok then Some (LoraDisabled e)
       else (case configureE22 (EspLoraHal esp) e of
               None \<Rightarrow> None
             | Some (_, e) \<Rightarrow>
                 (let tel = snd (Telemetry_begin Telemetry_new);
                      (LO_bootMs, e) = hal_nowMs (EspLoraHal esp) e
                  in Some (LoraRunning \<lparr> lo_tx = \<lparr> tx_tel = tel, tx_auxNotReadyLogged = False,
                                                     s_loraTxDeferredCount = deferred, tx_esp = e \<rparr>,
                                         lo_sched = aksScheduler, lo_buffer = b, lo_bootMs = LO_bootMs,
                                         lo_lastTelemetryTick = 0 \<rparr>))))"

text \<open>What other tasks may ask, \<open>None\<close> while the task has not started.\<close>

definition LoRa_IsLinkDown :: "'e LoraBoot option \<Rightarrow> bool" where
  "LoRa_IsLinkDown t = (case t of Some (LoraRunning st) \<Rightarrow> isLinkDown (lo_sched st) | _ \<Rightarrow> False)"

definition LoRa_IsTelemetryDisabled :: "'e LoraBoot option \<Rightarrow> bool" where
  "LoRa_IsTelemetryDisabled t = (case t of Some (LoraDisabled _) \<Rightarrow> True | _ \<Rightarrow> False)"

fun rxLoop :: "'e EspLora \<Rightarrow> u8 list \<Rightarrow> UplinkScheduler \<times> 'e \<Rightarrow> UplinkScheduler \<times> 'e" where
  "rxLoop esp [] se = se"
| "rxLoop esp (rxByte # bytes) (s, e) =
    (case hal_nowMs (EspLoraHal esp) e of (now, e) \<Rightarrow> rxLoop esp bytes (snd (onRxByte rxByte now s), e))"

definition txTick :: "'e EspLora \<Rightarrow> TelemetryData option option \<Rightarrow> 'e LoraTask \<Rightarrow> 'e LoraTask" where
  "txTick esp queue st =
    (case queue of
       None \<Rightarrow> st
     | Some slot \<Rightarrow>
         if \<not> isLinkDown (lo_sched st)
         then (let (_, b, c) = onTxTickLinkUp slot (LoRa_txSend esp) (lo_sched st) (lo_buffer st) (lo_tx st)
               in st\<lparr> lo_buffer := b, lo_tx := c \<rparr>)
         else (case slot of
                 None \<Rightarrow> st
               | Some LO_buffered \<Rightarrow>
                   (let (now, e) = hal_nowMs (EspLoraHal esp) (tx_esp (lo_tx st));
                        (_, s, b) = offlineSample now LO_buffered (lo_sched st, lo_buffer st)
                    in st\<lparr> lo_sched := s, lo_buffer := b, lo_tx := (lo_tx st)\<lparr> tx_esp := e \<rparr> \<rparr>)))"

definition vTask_LoRa_cycle :: "'e EspLora \<Rightarrow> TelemetryData option option \<Rightarrow> 'e LoraTask \<Rightarrow> 'e LoraTask" where
  "vTask_LoRa_cycle esp queue st =
    (let e = esp_task_wdt_reset esp (tx_esp (lo_tx st));
         ((LO_rxLength, LO_rxBuffer), e) = hal_uartRead (EspLoraHal esp) 4 LORA_RX_TIMEOUT_MS e;
         (s, e) = rxLoop esp (take (nat LO_rxLength) LO_rxBuffer) (lo_sched st, e);
         (now, e) = hal_nowMs (EspLoraHal esp) e;
         (_, s) = updateLink now (lo_bootMs st) (lo_buffer st) s;
         (LO_nowTick, e) = xTaskGetTickCount esp e;
         st = st\<lparr> lo_sched := s, lo_tx := (lo_tx st)\<lparr> tx_esp := e \<rparr> \<rparr>;
         st = (if LO_nowTick - lo_lastTelemetryTick st \<ge> pdMS_TO_TICKS LORA_TX_PERIOD_MS
               then txTick esp queue (st\<lparr> lo_lastTelemetryTick := LO_nowTick \<rparr>) else st)
     in st\<lparr> lo_tx := (lo_tx st)\<lparr> tx_esp := vTaskDelay esp (pdMS_TO_TICKS 10) (tx_esp (lo_tx st)) \<rparr> \<rparr>)"

end
