(* ===== verification/Lora_Boot.thy ===== *)
theory Lora_Boot
  imports Lora_Task
begin

text \<open>
  The start of the LoRa task: the bounded set-up of the UART, what the radio configuration
  says on the wire.  The clock of the hardware layer rests
  on the ESP-IDF timer (locale \<open>esp_clock\<close>); a bench model of the module behind the UART
  shows that the laws of the clock and of the module can hold together.
\<close>

subsection \<open>UART set-up\<close>

text \<open>The device just before attempt \<open>n\<close>, all earlier ones having failed.\<close>

fun beforeAttempt :: "'e EspLora \<Rightarrow> nat \<Rightarrow> 'e \<Rightarrow> 'e" where
  "beforeAttempt esp 0 e = e"
| "beforeAttempt esp (Suc n) e =
     beforeAttempt esp n (esp_task_wdt_reset esp (vTaskDelay esp (pdMS_TO_TICKS 1000) (snd (uartAttempt esp e))))"

lemma uartInitLoop_attempts:
  assumes "0 < k" "int k + f = 5"
  shows "fst (uartInitLoop esp f e) \<longleftrightarrow> (\<exists>n<k. fst (uartAttempt esp (beforeAttempt esp n e)))"
  using assms
proof (induction k arbitrary: f e)
  case (Suc k)
  show ?case
  proof (cases "fst (uartAttempt esp e)")
    case True
    then have "fst (uartInitLoop esp f e)" by (subst uartInitLoop.simps) (simp add: case_prod_beta)
    then show ?thesis using True by (auto intro!: exI[of _ 0])
  next
    case failed: False
    let ?e = "esp_task_wdt_reset esp (vTaskDelay esp (pdMS_TO_TICKS 1000) (snd (uartAttempt esp e)))"
    have ex: "(\<exists>n<Suc k. fst (uartAttempt esp (beforeAttempt esp n e))) \<longleftrightarrow>
        (\<exists>n<k. fst (uartAttempt esp (beforeAttempt esp n ?e)))"
      using failed by (simp add: Ex_less_Suc2)
    show ?thesis
    proof (cases k)
      case 0
      then show ?thesis using failed Suc.prems
        by (subst uartInitLoop.simps) (auto simp: case_prod_beta uart_init_retry_decision_def cfg)
    next
      case (Suc j)
      then have "uartInitLoop esp f e = uartInitLoop esp (f + 1) ?e"
        using failed Suc.prems
        by (subst uartInitLoop.simps) (simp add: case_prod_beta uart_init_retry_decision_def cfg)
      then show ?thesis using Suc.IH[of "f + 1" ?e] Suc.prems Suc ex by simp
    qed
  qed
qed simp

text \<open>The UART set-up is bounded: it always ends, and it reports success exactly when one of
  its first five attempts succeeds, each made one second after the one before; a sixth
  attempt is never made.\<close>

lemma uart_setup_bounded:
  "fst (EspLoraHal_begin esp e) \<longleftrightarrow> (\<exists>n<5. fst (uartAttempt esp (beforeAttempt esp n e)))"
  unfolding EspLoraHal_begin_def by (rule uartInitLoop_attempts) simp_all

text \<open>Other tasks see the uplink disabled exactly when all five attempts failed.\<close>

lemma telemetry_disabled_iff:
  assumes "vTask_LoRa_start esp b n e = Some t"
  shows "LoRa_IsTelemetryDisabled (Some t) \<longleftrightarrow> \<not> (\<exists>n<5. fst (uartAttempt esp (beforeAttempt esp n e)))"
proof -
  have "LoRa_IsTelemetryDisabled (Some t) \<longleftrightarrow> \<not> fst (EspLoraHal_begin esp e)"
    using assms by (auto simp: vTask_LoRa_start_def LoRa_IsTelemetryDisabled_def case_prod_beta Let_def split: if_splits option.splits)
  then show ?thesis by (simp add: uart_setup_bounded)
qed

lemma setup_returns:
  "EspLoraHal_setup gpio esp e = Some (ok, e') \<Longrightarrow> \<exists>e1. EspLoraHal_pins gpio e = Some e1 \<and>
     (ok \<longleftrightarrow> (\<exists>n<5. fst (uartAttempt esp (beforeAttempt esp n e1))))"
  by (auto simp: EspLoraHal_setup_def uart_setup_bounded[symmetric] split: option.splits)

subsection \<open>The clock\<close>

lemma ticks_positive:
  assumes "10 \<le> ms" "ms \<le> 1000"
  shows "0 < pdMS_TO_TICKS ms"
proof -
  have m: "10 \<le> unat ms" "unat ms \<le> 1000" using assms by (simp_all add: word_le_nat_alt)
  then have "unat (ms * 100) = unat ms * 100" by (simp add: unat_word_ariths)
  then have "1 \<le> unat (ms * 100) div 1000" using m by simp
  then show ?thesis by (simp add: pdMS_TO_TICKS_def cfg word_less_nat_alt unat_div)
qed

lemma nowMs_of_timer:
  assumes "micros (snd (esp_timer_get_time esp e)) < 2 ^ 63 \<Longrightarrow>
      fst (esp_timer_get_time esp e) = of_nat (micros (snd (esp_timer_get_time esp e)))"
    and "micros (snd (EspLoraHal_nowMs esp e)) < 2 ^ 63"
  shows "fst (EspLoraHal_nowMs esp e) = of_nat (micros (snd (EspLoraHal_nowMs esp e)) div 1000)"
proof -
  define m where "m = micros (snd (esp_timer_get_time esp e))"
  have "m < 2 ^ 63" using assms(2) by (simp add: EspLoraHal_nowMs_def case_prod_beta m_def)
  then have "sint (of_nat m :: 64 word) = int m" "fst (esp_timer_get_time esp e) = of_nat m"
    using assms(1) by (simp_all add: m_def[symmetric] signed_of_nat signed_take_bit_int_eq_self)
  moreover have "of_int (int m div 1000) = (of_nat (m div 1000) :: 64 word)"
    by (metis of_int_of_nat_eq of_nat_numeral zdiv_int)
  ultimately show ?thesis
    by (cases "m = 0") (simp_all add: EspLoraHal_nowMs_def case_prod_beta m_def[symmetric])
qed

locale esp_clock =
  fixes esp :: "'e EspLora" and micros :: "'e \<Rightarrow> nat" and slack :: nat
  assumes timer: "micros (snd (esp_timer_get_time esp e)) < 2 ^ 63 \<Longrightarrow>
      fst (esp_timer_get_time esp e) = of_nat (micros (snd (esp_timer_get_time esp e)))"
    and delay: "0 < ticks \<Longrightarrow> micros e < micros (vTaskDelay esp ticks e)"
    and esp_times: "takes micros slack e (gpio_set_level esp pin v e)"
      "takes micros slack e (snd (gpio_get_level esp pin e))" "takes micros slack e (uart_flush esp e)"
      "takes micros slack e (snd (uart_write_bytes esp bytes e))" "takes micros slack e (snd (uart_read_bytes esp n t e))"
      "takes micros slack e (vTaskDelay esp ticks e)" "takes micros slack e (snd (esp_timer_get_time esp e))"
      "takes micros slack e (esp_printf esp text e)"
begin

lemma printf_times:
  "takes micros (length xs * slack) e (fold (\<lambda>x e. esp_printf esp (f x) e) xs e)"
proof (induction xs arbitrary: e)
  case (Cons x xs)
  show ?case using takes_trans[OF esp_times(8) Cons.IH] by simp
qed (simp add: takes_def)

lemma hexdump_time: "takes micros (9 * slack) e (E22_logHexDump esp buf len e)"
  using printf_times[of "[0..<9]"] by (simp add: E22_logHexDump_def E22_REG_BLOCK_LEN_def) (simp add: takes_def)

lemmas nowMs_value = nowMs_of_timer[where micros = micros and esp = esp, OF timer]

end

sublocale esp_clock \<subseteq> hal: lora_clock "EspLoraHal esp" micros "9 * slack"
proof
  fix e
  assume "micros (snd (hal_nowMs (EspLoraHal esp) e)) < 2 ^ 63"
  then show "fst (hal_nowMs (EspLoraHal esp) e) = of_nat (micros (snd (hal_nowMs (EspLoraHal esp) e)) div 1000)"
    using nowMs_value by (simp add: EspLoraHal_def)
next
  fix ms :: u32 and e
  assume "10 \<le> ms" "ms \<le> 1000"
  then have "0 < pdMS_TO_TICKS ms" by (rule ticks_positive)
  then show "micros e < micros (hal_delayMs (EspLoraHal esp) ms e)" by (simp add: EspLoraHal_def delay)
next
  fix e m0 m1 bytes n t ms buf len
  show "takes micros (9 * slack) e (hal_setModePins (EspLoraHal esp) m0 m1 e)"
    by (simp add: EspLoraHal_def) (rule takes_le[OF takes_trans[OF esp_times(1) esp_times(1)]], simp)
  show "takes micros (9 * slack) e (snd (hal_isAuxReady (EspLoraHal esp) e))"
    using esp_times(2)[of e LORA_AUX_PIN] by (simp add: EspLoraHal_def case_prod_beta takes_def)
  show "takes micros (9 * slack) e (snd (hal_auxRawLevel (EspLoraHal esp) e))"
    using esp_times(2)[of e LORA_AUX_PIN] by (simp add: EspLoraHal_def takes_def)
  show "takes micros (9 * slack) e (hal_uartFlush (EspLoraHal esp) e)"
    using esp_times(3)[of e] by (simp add: EspLoraHal_def takes_def)
  show "takes micros (9 * slack) e (snd (hal_uartWrite (EspLoraHal esp) bytes e))"
    using esp_times(4)[of e bytes] by (simp add: EspLoraHal_def takes_def)
  show "takes micros (9 * slack) e (snd (hal_uartRead (EspLoraHal esp) n t e))"
    using esp_times(5)[of e n "pdMS_TO_TICKS t"] by (simp add: EspLoraHal_def takes_def)
  show "takes micros (9 * slack) e (hal_delayMs (EspLoraHal esp) ms e)"
    using esp_times(6)[of e "pdMS_TO_TICKS ms"] by (simp add: EspLoraHal_def takes_def)
  show "takes micros (9 * slack) e (snd (hal_nowMs (EspLoraHal esp) e))"
    using esp_times(7)[of e] by (simp add: EspLoraHal_def EspLoraHal_nowMs_def case_prod_beta takes_def)
  show "takes micros (9 * slack) e (hal_hexDumpE22 (EspLoraHal esp) buf len e)"
    using hexdump_time by (simp add: EspLoraHal_def)
qed

context esp_clock begin

lemma hal_clock: "lora_clock (EspLoraHal esp) micros (9 * slack)" by unfold_locales

end

subsection \<open>A bench model of the module\<close>

text \<open>The module as include/E22Regs.h describes it, with a microsecond clock and the number of
  polls until AUX rises after a write.\<close>

record Bench =
  be_us :: nat
  be_busy :: nat
  be_radio :: E22Radio
  be_answer :: "u8 list"

definition benchCommand :: "u8 list \<Rightarrow> Bench \<Rightarrow> Bench" where
  "benchCommand bytes s =
    (let r = be_radio s in
     if rMode r \<noteq> (0, 1) then s
     else if bytes = [E22_CMD_READ, E22_REG_BLOCK_START, E22_REG_BLOCK_LEN]
     then s\<lparr> be_answer := regAnswer (rRegs r) 0 0 \<rparr>
     else if take 3 bytes = [E22_CMD_WRITE, E22_REG_BLOCK_START, E22_REG_BLOCK_LEN] \<and> length bytes = 12
     then (let regs = \<lparr> addh = bytes ! 3, addl = bytes ! 4, netid = bytes ! 5, reg0 = bytes ! 6, reg1 = bytes ! 7,
                         reg2 = bytes ! 8, reg3 = bytes ! 9 \<rparr>
           in s\<lparr> be_radio := r\<lparr> rRegs := regs, rKey := be16 (bytes ! 10) (bytes ! 11), rFlash := Suc (rFlash r) \<rparr>,
                 be_busy := 20, be_answer := regAnswer regs 0 0 \<rparr>)
     else if take 3 bytes = [E22_CMD_WRITE_TEMP, E22_REG_ADDR_CRYPT_H, 2] \<and> length bytes = 5
     then s\<lparr> be_radio := r\<lparr> rKey := be16 (bytes ! 3) (bytes ! 4) \<rparr>, be_answer := E22_CMD_READ # tl bytes \<rparr>
     else s\<lparr> be_answer := [0xFF, 0xFF, 0xFF] \<rparr>)"

definition benchPin :: "nat \<Rightarrow> int \<Rightarrow> int \<times> int \<Rightarrow> int \<times> int" where
  "benchPin pin v m = (if pin = LORA_M0_PIN then (v, snd m) else if pin = LORA_M1_PIN then (fst m, v) else m)"

definition benchEsp :: "Bench EspLora" where
  "benchEsp = \<lparr>
     gpio_set_level = (\<lambda>pin v s. s\<lparr> be_radio := (be_radio s)\<lparr> rMode := benchPin pin v (rMode (be_radio s)) \<rparr> \<rparr>),
     gpio_get_level = (\<lambda>pin s. (if be_busy s = 0 then 1 else 0, s)),
     uart_flush = (\<lambda>s. s\<lparr> be_answer := [] \<rparr>),
     uart_write_bytes = (\<lambda>bytes s. (int (length bytes), benchCommand bytes s)),
     uart_read_bytes = (\<lambda>n t s. ((int (length (take n (be_answer s))), take n (be_answer s)),
                                s\<lparr> be_answer := drop n (be_answer s) \<rparr>)),
     uart_get_tx_buffer_free_size = (\<lambda>s. (Some 256, s)),
     uart_is_driver_installed = (\<lambda>s. (False, s)),
     uart_driver_delete = (\<lambda>s. s),
     uart_param_config = (\<lambda>s. (True, s)),
     uart_set_pin = (\<lambda>s. (True, s)),
     uart_driver_install = (\<lambda>s. (True, s)),
     vTaskDelay = (\<lambda>ticks s. s\<lparr> be_us := be_us s + unat ticks * 10000, be_busy := be_busy s - unat ticks \<rparr>),
     xTaskGetTickCount = (\<lambda>s. (of_nat (be_us s div 10000), s)),
     esp_timer_get_time = (\<lambda>s. (of_nat (be_us s), s)),
     esp_task_wdt_reset = (\<lambda>s. s),
     esp_printf = (\<lambda>text s. s) \<rparr>"

lemma benchCommand_time [simp]: "be_us (benchCommand bytes s) = be_us s"
  by (simp add: benchCommand_def Let_def)

interpretation bench: esp_clock benchEsp be_us "2 ^ 46"
proof
  fix ticks :: u32 and e :: Bench
  assume "0 < ticks"
  then show "be_us e < be_us (vTaskDelay benchEsp ticks e)" by (simp add: benchEsp_def word_less_nat_alt)
next
  fix ticks :: u32 and e :: Bench
  have "unat ticks < 2 ^ 32" using unsigned_less[of ticks, where 'a = nat] by simp
  then show "takes be_us (2 ^ 46) e (vTaskDelay benchEsp ticks e)" by (simp add: benchEsp_def takes_def)
qed (simp_all add: benchEsp_def takes_def)

lemma fold_idle: "fold (\<lambda>x s. s) xs s = s"
  by (induction xs) simp_all

interpretation bench_radio: e22_radio "EspLoraHal benchEsp" be_radio be_answer
  by unfold_locales
     (auto simp: EspLoraHal_def benchEsp_def benchCommand_def benchPin_def E22_logHexDump_def EspLoraHal_nowMs_def
        Let_def regBlock_def cfg fold_idle regAnswer_def)

subsection \<open>The configuration of the radio\<close>

text \<open>C23. The configuration talks to the radio as documented, whatever it answers: it returns;
  it enters configuration mode first and ends in normal mode; unless AUX stays low it
  queries the registers; when the answer is the agreed block it only refreshes the key in
  RAM, and otherwise, error and short answers included, it writes the agreed block to
  flash exactly once and reports success only if the confirmation carries that block.\<close>

theorem boot_traffic:
  assumes "esp_clock esp micros slack" "micros e + 3003000 + 216 * slack < 2 ^ 63"
  shows "\<exists>r e' calls. configureE22 (traced (EspLoraHal esp)) (e, []) = Some (r, e', calls) \<and> bootTraffic r calls"
  using lora_clock.configureE22_returns[OF lora_clock.traced_clock[OF esp_clock.hal_clock[OF assms(1)]], of "(e, [])"]
    assms(2) configureE22_traffic
  by fastforce

definition benchFresh :: Bench where
  "benchFresh = \<lparr> be_us = 0, be_busy = 3,
     be_radio = \<lparr> rMode = (0, 0), rRegs = \<lparr> addh = 0, addl = 0, netid = 0, reg0 = 0x62, reg1 = 0, reg2 = 0x12, reg3 = 0 \<rparr>,
                  rKey = 0, rFlash = 0 \<rparr>,
     be_answer = [] \<rparr>"

theorem boot_traffic_witness:
  "\<exists>r e' calls. configureE22 (traced (EspLoraHal benchEsp)) (benchFresh, []) = Some (r, e', calls) \<and> bootTraffic r calls"
  by (rule boot_traffic[OF bench.esp_clock_axioms]) (simp add: benchFresh_def)

end
