(* ===== verification/Lora_Uplink.thy ===== *)
theory Lora_Uplink
  imports Lora_Boot
begin

text \<open>
  What the LoRa task sends: frames on the UART, in order and whole, for every behaviour of
  the hardware; how the backlog of an outage is worked off; and that received bytes do
  nothing but keep the link alive.
\<close>

subsection \<open>The frames on the wire\<close>

text \<open>The device with a log beside it, and with a record of the UART writes as the log: the bytes and
  the result of the driver.\<close>

type_synonym wire = "(u8 list \<times> int) list"

definition keepLog :: "('e \<Rightarrow> 'e) \<Rightarrow> 'e \<times> 'l \<Rightarrow> 'e \<times> 'l" where
  "keepLog f x = (f (fst x), snd x)"

definition askLog :: "('e \<Rightarrow> 'a \<times> 'e) \<Rightarrow> 'e \<times> 'l \<Rightarrow> 'a \<times> 'e \<times> 'l" where
  "askLog f x = (fst (f (fst x)), snd (f (fst x)), snd x)"

definition lifted :: "'e EspLora \<Rightarrow> ('e \<times> 'l) EspLora" where
  "lifted esp = \<lparr>
     gpio_set_level = (\<lambda>pin v. keepLog (gpio_set_level esp pin v)),
     gpio_get_level = (\<lambda>pin. askLog (gpio_get_level esp pin)),
     uart_flush = keepLog (uart_flush esp),
     uart_write_bytes = (\<lambda>bytes. askLog (uart_write_bytes esp bytes)),
     uart_read_bytes = (\<lambda>n t. askLog (uart_read_bytes esp n t)),
     uart_get_tx_buffer_free_size = askLog (uart_get_tx_buffer_free_size esp),
     uart_is_driver_installed = askLog (uart_is_driver_installed esp),
     uart_driver_delete = keepLog (uart_driver_delete esp),
     uart_param_config = askLog (uart_param_config esp),
     uart_set_pin = askLog (uart_set_pin esp),
     uart_driver_install = askLog (uart_driver_install esp),
     vTaskDelay = (\<lambda>ticks. keepLog (vTaskDelay esp ticks)),
     xTaskGetTickCount = askLog (xTaskGetTickCount esp),
     esp_timer_get_time = askLog (esp_timer_get_time esp),
     esp_task_wdt_reset = keepLog (esp_task_wdt_reset esp),
     esp_printf = (\<lambda>text. keepLog (esp_printf esp text)) \<rparr>"

definition wired :: "'e EspLora \<Rightarrow> ('e \<times> wire) EspLora" where
  "wired esp = (lifted esp)\<lparr>
     uart_write_bytes := (\<lambda>bytes (e, l). (fst (uart_write_bytes esp bytes e), snd (uart_write_bytes esp bytes e),
                                          l @ [(bytes, fst (uart_write_bytes esp bytes e))])) \<rparr>"

abbreviation wireOf :: "('e \<times> wire) TxCtx \<Rightarrow> wire" where
  "wireOf c \<equiv> snd (tx_esp c)"

text \<open>The frame of a packet and the frames of a list of packets with the driver's results: the
  sequence number counts the frames the driver took.\<close>

definition uplinkBytes :: "u32 \<Rightarrow> TelemetryData \<Rightarrow> u8 list" where
  "uplinkBytes seq pkt = map of_char (telLine seq (sanitizeForUplink pkt))"

fun nextSeq :: "u32 \<Rightarrow> int \<Rightarrow> u32" where
  "nextSeq seq res = (if res < 0 then seq else seq + 1)"

fun framesOf :: "u32 \<Rightarrow> (TelemetryData \<times> int) list \<Rightarrow> wire" where
  "framesOf seq [] = []"
| "framesOf seq ((p, res) # ps) = (uplinkBytes seq p, res) # framesOf (nextSeq seq res) ps"

fun seqAfter :: "u32 \<Rightarrow> (TelemetryData \<times> int) list \<Rightarrow> u32" where
  "seqAfter seq [] = seq"
| "seqAfter seq ((p, res) # ps) = seqAfter (nextSeq seq res) ps"

lemma frames_append: "framesOf seq (ps @ qs) = framesOf seq ps @ framesOf (seqAfter seq ps) qs"
  by (induction seq ps rule: framesOf.induct) simp_all

lemma seqAfter_append: "seqAfter seq (ps @ qs) = seqAfter (seqAfter seq ps) qs"
  by (induction seq ps rule: seqAfter.induct) simp_all

text \<open>The sending side stays initialised; its counter and the wire grow together.\<close>

definition sends :: "(TelemetryData \<times> int) list \<Rightarrow> ('e \<times> wire) TxCtx \<Rightarrow> ('e \<times> wire) TxCtx \<Rightarrow> bool" where
  "sends ps c c' \<longleftrightarrow> TEL_isInitialized (tx_tel c') = TEL_isInitialized (tx_tel c) \<and>
     wireOf c' = wireOf c @ framesOf (TEL_sequenceCounter (tx_tel c)) ps \<and>
     TEL_sequenceCounter (tx_tel c') = seqAfter (TEL_sequenceCounter (tx_tel c)) ps"

lemma sends_Nil: "sends [] c c' \<longleftrightarrow> TEL_isInitialized (tx_tel c') = TEL_isInitialized (tx_tel c) \<and>
    wireOf c' = wireOf c \<and> TEL_sequenceCounter (tx_tel c') = TEL_sequenceCounter (tx_tel c)"
  by (simp add: sends_def)

lemma sends_trans: "sends ps c c1 \<Longrightarrow> sends qs c1 c2 \<Longrightarrow> sends (ps @ qs) c c2"
  by (auto simp: sends_def frames_append seqAfter_append)

text \<open>One send: false and nothing on the wire, or true and exactly the packet's frame.\<close>

lemma wired_sel:
  "hal_isAuxReady (EspLoraHal (wired esp)) (e, l) =
     (fst (hal_isAuxReady (EspLoraHal esp) e), snd (hal_isAuxReady (EspLoraHal esp) e), l)"
  "uart_get_tx_buffer_free_size (wired esp) (e, l) =
     (fst (uart_get_tx_buffer_free_size esp e), snd (uart_get_tx_buffer_free_size esp e), l)"
  "uart_write_bytes (wired esp) bytes (e, l) =
     (fst (uart_write_bytes esp bytes e), snd (uart_write_bytes esp bytes e), l @ [(bytes, fst (uart_write_bytes esp bytes e))])"
  "hal_feedWatchdog (EspLoraHal (wired esp)) (e, l) = (hal_feedWatchdog (EspLoraHal esp) e, l)"
  by (simp_all add: wired_def lifted_def EspLoraHal_def askLog_def keepLog_def case_prod_beta)

text \<open>Only a write extends the record.\<close>

lemma wired_wire [simp]:
  "snd (vTaskDelay (wired esp) n x) = snd x" "snd (snd (xTaskGetTickCount (wired esp) x)) = snd x"
  "snd (uart_flush (wired esp) x) = snd x"
  "snd (gpio_set_level (wired esp) pin v x) = snd x" "snd (uart_driver_delete (wired esp) x) = snd x"
  "snd (snd (uart_read_bytes (wired esp) k t x)) = snd x"
  "snd (snd (uart_write_bytes (wired esp) bytes x)) = snd x @ [(bytes, fst (uart_write_bytes (wired esp) bytes x))]"
  by (simp_all add: wired_def lifted_def askLog_def keepLog_def case_prod_beta)

text \<open>The conditions under which a send goes through to the UART.\<close>

definition txOpen :: "'e EspLora \<Rightarrow> 'e \<Rightarrow> bool" where
  "txOpen esp e \<longleftrightarrow> fst (hal_isAuxReady (EspLoraHal esp) e) \<and>
     (case fst (uart_get_tx_buffer_free_size esp (snd (hal_isAuxReady (EspLoraHal esp) e))) of
        None \<Rightarrow> False | Some n \<Rightarrow> LORA_TEL_FRAME_MAX_BYTES \<le> n)"

lemma txSend_closed:
  assumes "\<not> txOpen esp (fst (tx_esp c))"
  shows "\<not> fst (LoRa_txSend (wired esp) pkt rep c) \<and> sends [] c (snd (LoRa_txSend (wired esp) pkt rep c))"
  using assms
  by (cases "tx_esp c")
     (auto simp: LoRa_txSend_def Let_def case_prod_beta wired_sel txOpen_def sends_Nil split: option.splits)

lemma txSend_open:
  assumes "txOpen esp (fst (tx_esp c))" "TEL_isInitialized (tx_tel c)"
  shows "fst (LoRa_txSend (wired esp) pkt rep c) \<and> (\<exists>res. sends [(pkt, res)] c (snd (LoRa_txSend (wired esp) pkt rep c)))"
proof -
  obtain e l where c: "tx_esp c = (e, l)" by (cases "tx_esp c")
  define e1 where "e1 = snd (hal_isAuxReady (EspLoraHal esp) e)"
  define e2 where "e2 = snd (uart_get_tx_buffer_free_size esp e1)"
  define bytes where "bytes = uplinkBytes (TEL_sequenceCounter (tx_tel c)) pkt"
  define res where "res = fst (uart_write_bytes esp bytes e2)"
  obtain n where n: "fst (uart_get_tx_buffer_free_size esp e1) = Some n" "\<not> n < LORA_TEL_FRAME_MAX_BYTES"
    using assms(1) by (auto simp: txOpen_def c e1_def split: option.splits)
  have r: "fst (hal_isAuxReady (EspLoraHal esp) e)" using assms(1) by (simp add: txOpen_def c)
  have st: "sendStatus (\<lambda>text. uart_write_bytes (wired esp) (map of_char text)) (sanitizeForUplink pkt) (tx_tel c, e2, l) =
    (if res < 0 then tx_tel c else (tx_tel c)\<lparr> TEL_sequenceCounter := TEL_sequenceCounter (tx_tel c) + 1 \<rparr>,
     snd (uart_write_bytes esp bytes e2), l @ [(bytes, res)])"
    using assms(2) by (simp add: sendStatus_eq wired_sel bytes_def uplinkBytes_def res_def)
  have "fst (LoRa_txSend (wired esp) pkt rep c) \<and> sends [(pkt, res)] c (snd (LoRa_txSend (wired esp) pkt rep c))"
    using n r
    by (simp add: LoRa_txSend_def Let_def wired_sel c e1_def[symmetric] e2_def[symmetric] st sends_def bytes_def)
  then show ?thesis by blast
qed

lemma byte_char: "char_of (unat (of_char c :: u8)) = c"
proof -
  have "(of_char c :: nat) < 256" by (cases c) (simp add: of_char_def)
  then have "unat (of_nat (of_char c) :: u8) = of_char c" by (simp add: unat_of_nat take_bit_eq_mod)
  then show ?thesis by (simp add: of_nat_of_char)
qed

definition uksReceives :: "u8 list \<Rightarrow> UksRejection + int list" where
  "uksReceives bytes = parse_uks_frame (map (\<lambda>b. char_of (unat b)) bytes)"

text \<open>The fields the acceptance rules bound and the sanitizing does not.\<close>

definition uksInRange :: "TelemetryData \<Rightarrow> bool" where
  "uksInRange d \<longleftrightarrow> 0 \<le> sint (TEL_motorRpm d) \<and> sint (TEL_motorRpm d) \<le> 20000 \<and>
     uint (TEL_motorVoltageDeciV d) \<le> 32767 \<and> uint (TEL_speedKmhX10 d) \<le> 3000"

lemma uks_accepts: "uksInRange d \<Longrightarrow> uksReceives (uplinkBytes seq d) = Inr (telFields seq (sanitizeForUplink d))"
  using frame_roundtrip[of seq d]
  by (auto simp: uksReceives_def uplinkBytes_def comp_def byte_char uksInRange_def)

subsection \<open>A transmit tick\<close>

text \<open>How many packets a phase of a tick sends: one when the radio is open at its start.\<close>

definition openCount :: "'e EspLora \<Rightarrow> ('e \<times> wire) TxCtx \<Rightarrow> nat" where
  "openCount esp c = (if txOpen esp (fst (tx_esp c)) then 1 else 0)"

definition afterReplay :: "'e EspLora \<Rightarrow> ('e \<times> wire) LoraTask \<Rightarrow> ('e \<times> wire) TxCtx" where
  "afterReplay esp st = snd (snd (replayLoop (LoRa_txSend (wired esp)) 1 (lo_buffer st) (lo_tx st)))"

definition slotList :: "TelemetryData option \<Rightarrow> TelemetryData list" where
  "slotList slot = (case slot of None \<Rightarrow> [] | Some d \<Rightarrow> [d])"

lemma replay_one:
  assumes "ob_inv b" "TEL_isInitialized (tx_tel c)" "replayLoop (LoRa_txSend (wired esp)) 1 b c = (n, b', c')"
  shows "\<exists>sent. ob_inv b' \<and> ob_list b' = drop (openCount esp c) (ob_list b) \<and>
    map fst sent = take (openCount esp c) (ob_list b) \<and> sends sent c c'"
proof (cases "ob_list b")
  case Nil
  then have "b' = b" "c' = c" using assms(3) ob.peek_fifo[OF assms(1)] by simp_all
  then show ?thesis using assms(1) Nil by (intro exI[of _ "[]"]) (simp add: sends_def)
next
  case (Cons p ps)
  then have pk: "ob_peek b = Some p" using ob.peek_fifo[OF assms(1)] by simp
  obtain ok c1 where sd: "LoRa_txSend (wired esp) p True c = (ok, c1)" by fastforce
  have e: "c' = c1" "b' = (if ok then snd (ob_drop_front b) else b)" using assms(3) pk sd by (cases ok; simp)+
  have d: "ob_inv (snd (ob_drop_front b))" "ob_list (snd (ob_drop_front b)) = ps"
    using ob.drop_inv[OF assms(1)] ob.drop_fifo[OF assms(1)] Cons by simp_all
  show ?thesis
  proof (cases "txOpen esp (fst (tx_esp c))")
    case True
    obtain res where "ok" "sends [(p, res)] c c1" using txSend_open[OF True assms(2), of p True] sd by auto
    then show ?thesis using e d Cons True by (intro exI[of _ "[(p, res)]"]) (simp add: openCount_def)
  next
    case False
    then have "\<not> ok" "sends [] c c1" using txSend_closed[OF False, of p True] sd by auto
    then show ?thesis using e assms(1) False by (intro exI[of _ "[]"]) (simp add: openCount_def)
  qed
qed

definition linkUp :: "'e LoraTask \<Rightarrow> bool" where
  "linkUp st \<longleftrightarrow> \<not> isLinkDown (lo_sched st) \<and> m_replayBurstPerTick (lo_sched st) = 1 \<and>
     TEL_isInitialized (tx_tel (lo_tx st)) \<and> ob_inv (lo_buffer st)"

lemma live_send:
  assumes "TEL_isInitialized (tx_tel c)"
  shows "\<exists>sent. map fst sent = take (openCount esp c) [d] \<and> sends sent c (snd (LoRa_txSend (wired esp) d rep c))"
proof (cases "txOpen esp (fst (tx_esp c))")
  case True
  then obtain res where "sends [(d, res)] c (snd (LoRa_txSend (wired esp) d rep c))"
    using txSend_open[OF True assms] by blast
  then show ?thesis using True by (intro exI[of _ "[(d, res)]"]) (simp add: openCount_def)
next
  case False
  then show ?thesis using txSend_closed[OF False] by (intro exI[of _ "[]"]) (simp add: openCount_def)
qed

lemma tick_frames:
  assumes "linkUp st" "st' = txTick (wired esp) (Some slot) st"
  shows "\<exists>sent. linkUp st' \<and> ob_list (lo_buffer st') = drop (openCount esp (lo_tx st)) (ob_list (lo_buffer st)) \<and>
    map fst sent = take (openCount esp (lo_tx st)) (ob_list (lo_buffer st)) @
                   take (openCount esp (afterReplay esp st)) (slotList slot) \<and>
    sends sent (lo_tx st) (lo_tx st')"
proof -
  note up = assms(1)[unfolded linkUp_def]
  obtain n b1 c1 where r: "replayLoop (LoRa_txSend (wired esp)) 1 (lo_buffer st) (lo_tx st) = (n, b1, c1)"
    by (metis prod_cases3)
  have ar: "afterReplay esp st = c1" by (simp only: afterReplay_def r snd_conv)
  obtain sent where k: "ob_inv b1" "ob_list b1 = drop (openCount esp (lo_tx st)) (ob_list (lo_buffer st))"
      "map fst sent = take (openCount esp (lo_tx st)) (ob_list (lo_buffer st))" "sends sent (lo_tx st) c1"
    using replay_one[OF _ _ r] up by blast
  have i1: "TEL_isInitialized (tx_tel c1)" using k(4) up by (simp add: sends_def)
  show ?thesis
  proof (cases slot)
    case None
    then have "st' = st\<lparr> lo_buffer := b1, lo_tx := c1 \<rparr>"
      using assms(2) r up by (simp add: txTick_def onTxTickLinkUp_def)
    then show ?thesis using k i1 up None by (intro exI[of _ sent]) (simp add: linkUp_def slotList_def)
  next
    case (Some d)
    define c2 where "c2 = snd (LoRa_txSend (wired esp) d False c1)"
    have st': "st' = st\<lparr> lo_buffer := b1, lo_tx := c2 \<rparr>"
      using assms(2) r up Some by (simp add: txTick_def onTxTickLinkUp_def case_prod_beta c2_def)
    obtain sent2 where s: "map fst sent2 = take (openCount esp c1) [d]" "sends sent2 c1 c2"
      using live_send[OF i1, of esp d False] by (auto simp: c2_def)
    have "TEL_isInitialized (tx_tel c2)" using s(2) i1 by (simp add: sends_def)
    then show ?thesis using k up Some st' s ar sends_trans[OF k(4) s(2)]
      by (intro exI[of _ "sent @ sent2"]) (simp add: linkUp_def slotList_def)
  qed
qed

lemma openCount_open [simp]: "txOpen esp (fst (tx_esp c)) \<Longrightarrow> openCount esp c = 1"
  by (simp add: openCount_def)

text \<open>A device whose radio is always ready, and a task with one packet in the buffer.\<close>

definition readyEsp :: "unit EspLora" where
  "readyEsp = \<lparr>
     gpio_set_level = (\<lambda>_ _ e. e), gpio_get_level = (\<lambda>_ e. (1, e)), uart_flush = (\<lambda>e. e),
     uart_write_bytes = (\<lambda>bytes e. (int (length bytes), e)), uart_read_bytes = (\<lambda>_ _ e. ((0, []), e)),
     uart_get_tx_buffer_free_size = (\<lambda>e. (Some 256, e)), uart_is_driver_installed = (\<lambda>e. (False, e)),
     uart_driver_delete = (\<lambda>e. e), uart_param_config = (\<lambda>e. (True, e)), uart_set_pin = (\<lambda>e. (True, e)),
     uart_driver_install = (\<lambda>e. (True, e)), vTaskDelay = (\<lambda>_ e. e), xTaskGetTickCount = (\<lambda>e. (0, e)),
     esp_timer_get_time = (\<lambda>e. (0, e)), esp_task_wdt_reset = (\<lambda>e. e), esp_printf = (\<lambda>_ e. e) \<rparr>"

definition backlogTask :: "(unit \<times> wire) LoraTask" where
  "backlogTask = \<lparr> lo_tx = \<lparr> tx_tel = snd (Telemetry_begin Telemetry_new), tx_auxNotReadyLogged = False,
                               s_loraTxDeferredCount = 0, tx_esp = ((), []) \<rparr>,
     lo_sched = aksScheduler, lo_buffer = ob_push TelemetryData_zero ob_boot, lo_bootMs = 0, lo_lastTelemetryTick = 0 \<rparr>"

lemma backlogTask_up: "linkUp backlogTask" "ob_list (lo_buffer backlogTask) = [TelemetryData_zero]"
  using ob.push_inv[OF ob_inv_boot(1)] ob.push_fifo[OF ob_inv_boot(1), of TelemetryData_zero] ob_inv_boot(2)
  by (simp_all add: linkUp_def backlogTask_def Telemetry_begin_def Telemetry_new_def aksScheduler_def
      UplinkScheduler_new_def isLinkDown_def cfg)

lemma readyEsp_open: "txOpen readyEsp e"
  by (simp add: txOpen_def readyEsp_def EspLoraHal_def LORA_AUX_READY_LEVEL_def LORA_TEL_FRAME_MAX_BYTES_def)

text \<open>C19. A transmit tick with the link up, for every behaviour of the radio and the UART: the
  oldest buffered packet is sent and leaves the buffer if and only if the radio is open (AUX
  ready and room for a frame in the transmit ring) at the start of the tick; the live packet is
  sent if and only if the radio is open after that; so both go out when the radio stays open
  and nothing does when it stays closed.  What goes out are exactly the whole frames of these
  packets in this order, numbered by the frames the driver took, and the ground station decodes
  each frame to the fields of its packet if the motor fields are in its ranges.\<close>

theorem uplink_tick_frames:
  assumes "linkUp st" "st' = txTick (wired esp) (Some slot) st"
  shows "\<exists>sent.
    map fst sent = (if txOpen esp (fst (tx_esp (lo_tx st))) then take 1 (ob_list (lo_buffer st)) else []) @
                   (if txOpen esp (fst (tx_esp (afterReplay esp st))) then slotList slot else []) \<and>
    ob_list (lo_buffer st') =
      (if txOpen esp (fst (tx_esp (lo_tx st))) then drop 1 (ob_list (lo_buffer st)) else ob_list (lo_buffer st)) \<and>
    wireOf (lo_tx st') = wireOf (lo_tx st) @ framesOf (TEL_sequenceCounter (tx_tel (lo_tx st))) sent \<and>
    TEL_sequenceCounter (tx_tel (lo_tx st')) = seqAfter (TEL_sequenceCounter (tx_tel (lo_tx st))) sent \<and>
    (\<forall>(p, _) \<in> set sent. uksInRange p \<longrightarrow>
       (\<forall>seq. uksReceives (uplinkBytes seq p) = Inr (telFields seq (sanitizeForUplink p))))"
proof -
  have "\<forall>(p, _) \<in> set sent. uksInRange p \<longrightarrow>
      (\<forall>seq. uksReceives (uplinkBytes seq p) = Inr (telFields seq (sanitizeForUplink p)))" for sent :: "(TelemetryData \<times> int) list"
    by (auto simp: uks_accepts)
  moreover have "take (openCount esp c) (slotList slot) = (if txOpen esp (fst (tx_esp c)) then slotList slot else [])" for c
    by (simp add: openCount_def slotList_def split: option.split)
  ultimately show ?thesis using tick_frames[OF assms] unfolding sends_def openCount_def by auto
qed

theorem uplink_tick_frames_witness:
  "\<exists>sent. map fst sent = [TelemetryData_zero, TelemetryData_zero] \<and>
    ob_list (lo_buffer (txTick (wired readyEsp) (Some (Some TelemetryData_zero)) backlogTask)) = [] \<and>
    wireOf (lo_tx (txTick (wired readyEsp) (Some (Some TelemetryData_zero)) backlogTask)) = framesOf 0 sent"
proof -
  let ?st = "txTick (wired readyEsp) (Some (Some TelemetryData_zero)) backlogTask"
  have "wireOf (lo_tx backlogTask) = []" "TEL_sequenceCounter (tx_tel (lo_tx backlogTask)) = 0"
    by (simp_all add: backlogTask_def Telemetry_begin_def)
  moreover have "txOpen readyEsp (fst (tx_esp c))" for c :: "(unit \<times> wire) TxCtx" by (rule readyEsp_open)
  moreover obtain sent where "map fst sent =
      (if txOpen readyEsp (fst (tx_esp (lo_tx backlogTask))) then take 1 [TelemetryData_zero] else []) @
      (if txOpen readyEsp (fst (tx_esp (afterReplay readyEsp backlogTask))) then slotList (Some TelemetryData_zero) else [])"
    "ob_list (lo_buffer ?st) =
      (if txOpen readyEsp (fst (tx_esp (lo_tx backlogTask))) then drop 1 [TelemetryData_zero] else [TelemetryData_zero])"
    "wireOf (lo_tx ?st) = wireOf (lo_tx backlogTask) @ framesOf (TEL_sequenceCounter (tx_tel (lo_tx backlogTask))) sent"
    using uplink_tick_frames[OF backlogTask_up(1) refl, of readyEsp "Some TelemetryData_zero"]
    unfolding backlogTask_up(2) by (elim exE conjE)
  ultimately show ?thesis by (intro exI[of _ sent]) (simp add: slotList_def)
qed

subsection \<open>Working off the backlog\<close>

fun txTicks :: "'e EspLora \<Rightarrow> TelemetryData list \<Rightarrow> 'e LoraTask \<Rightarrow> 'e LoraTask" where
  "txTicks esp [] st = st"
| "txTicks esp (d # ds) st = txTicks esp ds (txTick esp (Some (Some d)) st)"

text \<open>The order in which buffered and live packets go out: pairs while the backlog lasts.\<close>

fun interleaved :: "TelemetryData list \<Rightarrow> TelemetryData list \<Rightarrow> TelemetryData list" where
  "interleaved ps [] = []"
| "interleaved ps (d # ds) = take 1 ps @ d # interleaved (drop 1 ps) ds"

lemma ticks_drain:
  assumes "linkUp st" "\<forall>e. txOpen esp e"
  shows "linkUp (txTicks (wired esp) ds st) \<and>
    ob_list (lo_buffer (txTicks (wired esp) ds st)) = drop (length ds) (ob_list (lo_buffer st)) \<and>
    (\<exists>sent. map fst sent = interleaved (ob_list (lo_buffer st)) ds \<and> sends sent (lo_tx st) (lo_tx (txTicks (wired esp) ds st)))"
  using assms(1)
proof (induction ds arbitrary: st)
  case Nil
  then show ?case by (auto intro!: exI[of _ "[]"] simp: sends_def)
next
  case (Cons d ds)
  let ?st = "txTick (wired esp) (Some (Some d)) st"
  obtain sent where t: "linkUp ?st" "ob_list (lo_buffer ?st) = drop 1 (ob_list (lo_buffer st))"
      "map fst sent = take 1 (ob_list (lo_buffer st)) @ [d]" "sends sent (lo_tx st) (lo_tx ?st)"
    using tick_frames[OF Cons.prems refl, of esp "Some d"] assms(2) by (auto simp: slotList_def)
  obtain sent' where u: "map fst sent' = interleaved (ob_list (lo_buffer ?st)) ds"
      "sends sent' (lo_tx ?st) (lo_tx (txTicks (wired esp) ds ?st))"
    using Cons.IH[OF t(1)] by blast
  have "map fst (sent @ sent') = interleaved (ob_list (lo_buffer st)) (d # ds)" using t u by simp
  then show ?case using Cons.IH[OF t(1)] t(2) sends_trans[OF t(4) u(2)]
    by (auto simp: drop_drop simp del: interleaved.simps map_append)
qed

text \<open>C20. The backlog of an outage is delivered: while the radio is ready and the transmit ring has
  room, every tick sends one buffered and one live packet, so a backlog of at most 75
  packets is gone after 75 ticks (37.5 s), oldest first, and no live packet waits for it.\<close>

theorem backlog_delivered:
  assumes "linkUp st" "\<forall>e. txOpen esp e"
  shows "ob_list (lo_buffer (txTicks (wired esp) ds st)) = drop (length ds) (ob_list (lo_buffer st)) \<and>
    (75 \<le> length ds \<longrightarrow> ob_list (lo_buffer (txTicks (wired esp) ds st)) = []) \<and>
    (\<exists>sent. map fst sent = interleaved (ob_list (lo_buffer st)) ds \<and>
       wireOf (lo_tx (txTicks (wired esp) ds st)) =
         wireOf (lo_tx st) @ framesOf (TEL_sequenceCounter (tx_tel (lo_tx st))) sent)"
proof -
  have "length (ob_list (lo_buffer st)) \<le> 75"
    using assms(1) ob.bound[of "lo_buffer st"] by (simp add: linkUp_def cfg)
  then show ?thesis using ticks_drain[OF assms, of ds] unfolding sends_def by auto
qed

theorem backlog_delivered_witness:
  "ob_list (lo_buffer (txTicks (wired readyEsp) [TelemetryData_zero] backlogTask)) = []"
  using backlog_delivered[OF backlogTask_up(1), of readyEsp "[TelemetryData_zero]"] readyEsp_open backlogTask_up(2) by simp

subsection \<open>Received bytes\<close>

lemma onRx_only:
  "snd (onRxByte b now s) = s\<lparr> m_lastHeartbeatMs := m_lastHeartbeatMs (snd (onRxByte b now s)),
      m_unknownRxByteCount := m_unknownRxByteCount (snd (onRxByte b now s)),
      m_lastUnknownRxByteWarnMs := m_lastUnknownRxByteWarnMs (snd (onRxByte b now s)) \<rparr>"
  "b \<noteq> 0xB0 \<Longrightarrow> m_lastHeartbeatMs (snd (onRxByte b now s)) = m_lastHeartbeatMs s"
  by (auto simp: onRxByte_def lora_classify_rx_byte_def cfg case_prod_beta Let_def)

lemma rxLoop_only:
  "\<exists>hb n w. fst (rxLoop esp bytes (s, e)) =
     s\<lparr> m_lastHeartbeatMs := hb, m_unknownRxByteCount := n, m_lastUnknownRxByteWarnMs := w \<rparr> \<and>
     (0xB0 \<notin> set bytes \<longrightarrow> hb = m_lastHeartbeatMs s)"
proof (induction bytes arbitrary: s e)
  case Nil
  show ?case by (intro exI[of _ "m_lastHeartbeatMs s"] exI[of _ "m_unknownRxByteCount s"] exI[of _ "m_lastUnknownRxByteWarnMs s"]) simp
next
  case (Cons b bytes)
  define now where "now = fst (hal_nowMs (EspLoraHal esp) e)"
  have "rxLoop esp (b # bytes) (s, e) = rxLoop esp bytes (snd (onRxByte b now s), snd (hal_nowMs (EspLoraHal esp) e))"
    by (simp add: case_prod_beta now_def)
  moreover obtain hb n w where "fst (rxLoop esp bytes (snd (onRxByte b now s), snd (hal_nowMs (EspLoraHal esp) e))) =
      (snd (onRxByte b now s))\<lparr> m_lastHeartbeatMs := hb, m_unknownRxByteCount := n, m_lastUnknownRxByteWarnMs := w \<rparr>"
      "0xB0 \<notin> set bytes \<longrightarrow> hb = m_lastHeartbeatMs (snd (onRxByte b now s))"
    using Cons.IH by blast
  moreover have "(snd (onRxByte b now s))\<lparr> m_lastHeartbeatMs := hb, m_unknownRxByteCount := n, m_lastUnknownRxByteWarnMs := w \<rparr> =
      s\<lparr> m_lastHeartbeatMs := hb, m_unknownRxByteCount := n, m_lastUnknownRxByteWarnMs := w \<rparr>"
    by (subst onRx_only(1)) simp
  ultimately show ?case using onRx_only(2)[of b now s]
    by (intro exI[of _ hb] exI[of _ n] exI[of _ w]) auto
qed

text \<open>The radio link carries no commands in: whatever bytes are received, the scheduler changes
  in nothing but the time of the last heartbeat and the statistics of unknown bytes, and
  without a heartbeat byte among them the supervision of the link decides as if nothing
  had been received, so noise cannot keep a dead link up.\<close>

lemma received_bytes_only_heartbeat:
  "\<exists>hb n w. fst (rxLoop esp bytes (s, e)) =
     s\<lparr> m_lastHeartbeatMs := hb, m_unknownRxByteCount := n, m_lastUnknownRxByteWarnMs := w \<rparr> \<and>
     (UKS_HEARTBEAT_BYTE \<notin> set bytes \<longrightarrow>
        m_linkDown (snd (updateLink now boot b (fst (rxLoop esp bytes (s, e))))) = m_linkDown (snd (updateLink now boot b s)))"
  using rxLoop_only[of esp bytes s e] by (auto simp: updateLink_down UKS_HEARTBEAT_BYTE_def)

subsection \<open>The task from its start\<close>

definition loraInv :: "'e LoraTask \<Rightarrow> bool" where
  "loraInv st \<longleftrightarrow> m_replayBurstPerTick (lo_sched st) = 1 \<and> m_linkTimeoutMs (lo_sched st) = 9000 \<and>
     m_bootGraceMs (lo_sched st) = 5000 \<and> m_offlineSamplePeriodMs (lo_sched st) = 1000 \<and>
     TEL_isInitialized (tx_tel (lo_tx st)) \<and> ob_inv (lo_buffer st)"

inductive lora_reach :: "'e EspLora \<Rightarrow> 'e LoraTask \<Rightarrow> bool" for esp where
  lora_boot: "vTask_LoRa_start esp ob_boot n e = Some (LoraRunning st) \<Longrightarrow> lora_reach esp st"
| lora_step: "lora_reach esp st \<Longrightarrow> lora_reach esp (vTask_LoRa_cycle esp queue st)"

lemma txSend_keeps: "TEL_isInitialized (tx_tel (snd (LoRa_txSend esp pkt rep c))) = TEL_isInitialized (tx_tel c)"
  by (auto simp: LoRa_txSend_def Let_def case_prod_beta sendStatus_eq)

lemma replay_keeps:
  "ob_inv b \<Longrightarrow> replayLoop (LoRa_txSend esp) n b c = (k, b', c') \<Longrightarrow>
     ob_inv b' \<and> TEL_isInitialized (tx_tel c') = TEL_isInitialized (tx_tel c)"
proof (induction n arbitrary: b c k)
  case (Suc n)
  show ?case
  proof (cases "ob_peek b")
    case (Some p)
    obtain ok c1 where sd: "LoRa_txSend esp p True c = (ok, c1)" by fastforce
    have c1: "TEL_isInitialized (tx_tel c1) = TEL_isInitialized (tx_tel c)" using txSend_keeps[of esp p True c] sd by simp
    show ?thesis
      using Suc.prems Suc.IH[OF ob.drop_inv[OF Suc.prems(1)], of c1] Some sd c1
      by (cases ok) (auto split: prod.splits)
  qed (use Suc.prems in simp)
qed simp

lemma txTick_inv: "loraInv st \<Longrightarrow> loraInv (txTick esp queue st)"
proof -
  assume inv: "loraInv st"
  obtain n b1 c1 where r: "replayLoop (LoRa_txSend esp) (unat (m_replayBurstPerTick (lo_sched st))) (lo_buffer st) (lo_tx st) = (n, b1, c1)"
    by (metis prod_cases3)
  have k: "ob_inv b1" "TEL_isInitialized (tx_tel c1)" using replay_keeps[OF _ r] inv by (simp_all add: loraInv_def)
  have "TEL_isInitialized (tx_tel (snd (LoRa_txSend esp pkt rep c1)))" for pkt rep using k(2) by (simp add: txSend_keeps)
  then show ?thesis
    using inv k r ob.push_inv
    by (auto simp: txTick_def onTxTickLinkUp_def loraInv_def case_prod_beta Let_def offlineSample_def split: option.splits)
qed

lemma updateLink_keeps:
  "m_replayBurstPerTick (snd (updateLink now boot b s)) = m_replayBurstPerTick s"
  "m_linkTimeoutMs (snd (updateLink now boot b s)) = m_linkTimeoutMs s"
  "m_bootGraceMs (snd (updateLink now boot b s)) = m_bootGraceMs s"
  "m_offlineSamplePeriodMs (snd (updateLink now boot b s)) = m_offlineSamplePeriodMs s"
  by (simp_all add: updateLink_def Let_def)

lemma cycle_inv:
  assumes "loraInv st"
  shows "loraInv (vTask_LoRa_cycle esp queue st)"
proof -
  have rx: "loraInv (st\<lparr> lo_sched := snd (updateLink now boot b (fst (rxLoop esp bytes (lo_sched st, e)))),
      lo_tx := (lo_tx st)\<lparr> tx_esp := e' \<rparr> \<rparr>)" for now boot b bytes e e'
    using assms rxLoop_only[of esp bytes "lo_sched st" e] by (auto simp: loraInv_def updateLink_keeps)
  have esp: "loraInv s \<Longrightarrow> loraInv (s\<lparr> lo_tx := (lo_tx s)\<lparr> tx_esp := e \<rparr> \<rparr>)"
    and tick: "loraInv s \<Longrightarrow> loraInv (s\<lparr> lo_lastTelemetryTick := t \<rparr>)" for s :: "'a LoraTask" and e t
    by (simp_all add: loraInv_def)
  show ?thesis
    unfolding vTask_LoRa_cycle_def Let_def case_prod_beta
    by (auto intro!: esp txTick_inv tick rx)
qed

text \<open>The LoRa task keeps its invariant from a successful start, for every behaviour of the
  hardware: the scheduler keeps the timeouts it was built with, the sender stays
  initialised and the ring buffer well-formed, so whenever the link is up the conditions
  of the transmit tick hold.\<close>

lemma lora_task_invariant:
  assumes "lora_reach esp st"
  shows "loraInv st \<and> (\<not> isLinkDown (lo_sched st) \<longrightarrow> linkUp st)"
proof -
  have "loraInv st" using assms
  proof induction
    case (lora_boot n e st)
    then show ?case
      by (auto simp: vTask_LoRa_start_def loraInv_def Telemetry_begin_def aksScheduler_def UplinkScheduler_new_def
          ob_inv_boot case_prod_beta Let_def split: if_splits option.splits)
  qed (rule cycle_inv)
  then show ?thesis by (auto simp: loraInv_def linkUp_def)
qed

lemma bench_starts: "\<exists>st. vTask_LoRa_start benchEsp ob_boot 0 benchFresh = Some (LoraRunning st)"
proof -
  have b: "EspLoraHal_begin benchEsp benchFresh = (True, benchFresh)"
    unfolding EspLoraHal_begin_def by (subst uartInitLoop.simps) (simp add: uartAttempt_def benchEsp_def)
  obtain r e where "configureE22 (EspLoraHal benchEsp) benchFresh = Some (r, e)"
    using bench.hal.configureE22_returns[of benchFresh] by (auto simp: benchFresh_def)
  then show ?thesis by (simp add: vTask_LoRa_start_def b case_prod_beta Let_def)
qed

end
