(* ===== verification/Aks_Telemetry.thy ===== *)
theory Aks_Telemetry
  imports Aks_System Lora_Uplink
begin

text \<open>
  The way of a battery reading from the CAN bus to the ground station, across the CAN task,
  the shared queue and the LoRa task: what is decoded at the far end are the numbers of the
  last pack frame of the reception cycle, for whatever other frames arrive with it.
\<close>

subsection \<open>The pack frame in a reception cycle\<close>

text \<open>The pack values of the telemetry: voltage, current, state of charge.\<close>

definition packPart :: "CanManager \<Rightarrow> u16 \<times> i32 \<times> u16" where
  "packPart m = (TEL_bmsPackVoltageDeciV (s_telemetryData m), TEL_bmsCurrentCentiA (s_telemetryData m),
     TEL_bmsSocHundredths (s_telemetryData m))"

lemma packPart_keeps [keeps]:
  "packPart (handleMotorStatus tick msg m) = packPart m"
  "packPart (handleCharger1806E5F4 tick msg m) = packPart m"
  "packPart (handleLbBmsE001 tick msg m) = packPart m"
  "packPart (handleCellGroup k (parseCellGroup j) tick msg m) = packPart m"
  "packPart (m\<lparr> CAN_rxRemoteFrameCount := c \<rparr>) = packPart m"
  "packPart (handleAlerts al tick m) = packPart m"
  "packPart (updateMotorStatusValidity now m) = packPart m"
  "packPart (updateBmsValidity now m) = packPart m"
  "packPart (updateCellVoltageValidity now m) = packPart m"
  "packPart (updateChargerValidity now m) = packPart m"
  by (auto simp: packPart_def handleMotorStatus_def handleCharger1806E5F4_def handleLbBmsE001_def handleCellGroup_def
      handleAlerts_def updateMotorStatusValidity_def updateBmsValidity_def updateCellVoltageValidity_def
      updateChargerValidity_def Let_def split: option.splits prod.splits)

lemma dispatch_pack:
  assumes "s_mutex m"
  shows "packPart (dispatch tick msg m) =
    (if accepted CAN_ID_LB_BMS_E000 msg then (word_at msg 2, scast (word_at msg 0) * 10, word_at msg 4) else packPart m)"
proof (cases rule: dispatch_cases[of msg tick m])
  case e000
  then show ?thesis using assms
    by (auto simp: handleLbBmsE000_def parseLbBmsE000_def accepted_def packPart_def Let_def)
qed (auto simp: keeps accepted_def ignored_def handledIds_def)

lemma handleAll_other_pack:
  assumes "s_mutex m" "\<forall>(msg, tick) \<in> set fs. \<not> accepted CAN_ID_LB_BMS_E000 msg"
  shows "packPart (handleAll fs m) = packPart m"
  using assms
proof (induction fs arbitrary: m)
  case (Cons f fs)
  obtain msg tick where f: "f = (msg, tick)" by fastforce
  show ?case
    using Cons.IH[of "dispatch tick msg m"] Cons.prems dispatch_pack[of m tick msg] dispatch_bms_fields(1)[of m tick msg]
    by (simp add: f)
qed simp

lemma cycle_pack:
  assumes "isInitialized m" "s_mutex m" "received CAN_RX_DRAIN_MAX (env_rx env) = pre @ (msg, tick) # rest"
    and "accepted CAN_ID_LB_BMS_E000 msg" "\<forall>(msg', t) \<in> set rest. \<not> accepted CAN_ID_LB_BMS_E000 msg'"
  shows "packPart (processRxMessages env m) = (word_at msg 2, scast (word_at msg 0) * 10, word_at msg 4)"
proof -
  define m0 where "m0 = (case env_alerts env of None \<Rightarrow> m | Some a \<Rightarrow> handleAlerts a (env_alertTick env) m)"
  define m1 where "m1 = handleAll pre m0"
  have "bmsFields m0 = bmsFields m" by (simp add: m0_def keeps split: option.split)
  then have "s_mutex m0" using assms(2) by (simp add: bmsFields_def)
  then have m1: "s_mutex m1" by (simp add: m1_def)
  then have "s_mutex (dispatch tick msg m1)" using dispatch_bms_fields(1) by simp
  then have "packPart (handleAll rest (dispatch tick msg m1)) = packPart (dispatch tick msg m1)"
    by (rule handleAll_other_pack[OF _ assms(5)])
  then have "packPart (drained env m) = packPart (dispatch tick msg m1)"
    by (simp add: drained_def assms(3) handleAll_append m0_def[symmetric] m1_def)
  then show ?thesis
    using dispatch_pack[OF m1, of tick msg] assms(4) by (simp add: processRx_eq[OF assms(1)] keeps)
qed

subsection \<open>What the published snapshot makes of it\<close>

lemma speed_limit: "uint (rpmToSpeedKmhX10 n) \<le> 3000"
proof -
  define X where "X = speedX10 n WHEEL_DIAMETER_M GEAR_RATIO MOTOR_RPM_IS_WHEEL_RPM"
  show ?thesis
  proof (cases "f32_ge_int X TEL_SPD_X10_MAX")
    case False
    then have "f32_val X < 3000" by (simp add: f32_ge_int_iff TEL_SPD_X10_MAX_def)
    moreover have "0 \<le> f32_val X" using speedX10_error(3)[of n] by (simp add: X_def f32_val_def)
    ultimately have "0 \<le> f32_trunc X \<and> f32_trunc X < 3000" by (simp add: f32_trunc_floor floor_less_iff)
    then show ?thesis using False
      by (simp add: rpmToSpeedKmhX10_def rpmToSpeedKmhX10Impl_def X_def[symmetric] uint_word_of_int)
  qed (simp add: rpmToSpeedKmhX10_def rpmToSpeedKmhX10Impl_def X_def TEL_SPD_X10_MAX_def)
qed

lemma sint_of_positive: "uint (w :: u16) \<le> 32767 \<Longrightarrow> sint w = uint w"
proof -
  assume "uint w \<le> 32767"
  then have "signed_take_bit 15 (uint w) = uint w"
    using order_trans[OF _ uint_ge_0[of w], of "- 32768"] by (intro signed_take_bit_int_eq_self) simp_all
  then show ?thesis by (simp add: sint_uint)
qed

text \<open>The motor values the acceptance rules of the ground station bound.\<close>

definition motorInRange :: "TelemetryData \<Rightarrow> bool" where
  "motorInRange d \<longleftrightarrow> uint (TEL_motorRpm d) \<le> 20000 \<and> uint (TEL_motorVoltageDeciV d) \<le> 32767"

lemma publish_in_range: "motorInRange (s_telemetryData m) \<Longrightarrow> uksInRange (publish timeUs m)"
  using speed_limit[of "TEL_motorRpm (s_telemetryData m)"]
  by (simp add: motorInRange_def uksInRange_def publish_def getTelemetryData_def Let_def sint_of_positive)

lemma sanitize_scaled_current: "sint (sanitizeCurrent (scast (w :: i16) * 10)) = 10 * sint w"
proof -
  have "sint (scast w * 10 :: i32) \<noteq> sint INT32_MIN"
    using sint_bounds(2)[of w] by (simp add: sint_scast_mult10 INT32_MIN_def)
  then have "scast w * 10 \<noteq> INT32_MIN" by metis
  then show ?thesis by (simp add: sanitizeCurrent_def sint_scast_mult10)
qed

lemma sanitize_soc: "uint (sanitizeSoc w) = min 10000 (uint w)"
  by (simp add: sanitizeSoc_def word_less_def)

text \<open>The last frame of a transmit tick with an open radio is that of the snapshot.\<close>

lemma tick_sends_live:
  assumes "linkUp st" "\<forall>e. txOpen esp e"
  shows "\<exists>older res seq. wireOf (lo_tx (txTick (wired esp) (Some (Some pkt)) st)) =
    wireOf (lo_tx st) @ older @ [(uplinkBytes seq pkt, res)]"
proof -
  obtain sent where s: "map fst sent = take 1 (ob_list (lo_buffer st)) @ [pkt]"
      "sends sent (lo_tx st) (lo_tx (txTick (wired esp) (Some (Some pkt)) st))"
    using tick_frames[OF assms(1) refl, of esp "Some pkt"] assms(2) by (auto simp: slotList_def)
  then obtain olds res where "sent = olds @ [(pkt, res)]" by (cases sent rule: rev_cases) auto
  then show ?thesis using s(2) by (auto simp: sends_def frames_append)
qed

subsection \<open>From the bus to the ground station\<close>

text \<open>C8. A battery reading reaches the ground station unchanged, end to end: when a CAN cycle of a
  reachable system receives a complete 0xE000 frame, the last of its kind in the cycle, and the
  motor values are within the ranges of the ground station, then a transmit tick with the link
  up and the radio open (AUX ready, room in the transmit ring) sends the published snapshot
  last, and the ground station accepts that frame and decodes the pack voltage and current of
  the CAN frame exactly, its state of charge capped at 100.00 %, and the time of publication.
  With a motor value out of range the ground station would reject the whole frame.\<close>

theorem battery_reading_reaches_ground:
  assumes "sys_reach d s" "sys_can s = Some m"
    and "received CAN_RX_DRAIN_MAX (env_rx env) = pre @ (msg, tick) # rest"
    and "accepted CAN_ID_LB_BMS_E000 msg" "\<forall>(msg', t) \<in> set rest. \<not> accepted CAN_ID_LB_BMS_E000 msg'"
    and "motorInRange (s_telemetryData (processRxMessages env m))"
    and "linkUp st" "\<forall>e. txOpen esp e"
  shows "\<exists>older bytes res fields.
    wireOf (lo_tx (txTick (wired esp) (TEL_sensorDataQueue (vTask_CAN_cycle env timeUs s)) st)) =
      wireOf (lo_tx st) @ older @ [(bytes, res)] \<and>
    uksReceives bytes = Inr fields \<and>
    fields ! 12 = uint (word_at msg 2) \<and> fields ! 13 = 10 * sint (word_at msg 0) \<and>
    fields ! 14 = min 10000 (uint (word_at msg 4)) \<and> fields ! 16 = uint timeUs div 1000 mod 2 ^ 32"
proof -
  let ?m = "processRxMessages env m"
  have ok: "can_ok s" by (rule sys_reach_can[OF assms(1)])
  then have m: "isInitialized m" "s_mutex m" using assms(2) by (simp_all add: can_ok_def canStatic_def)
  obtain older res seq where w: "wireOf (lo_tx (txTick (wired esp) (Some (Some (publish timeUs ?m))) st)) =
      wireOf (lo_tx st) @ older @ [(uplinkBytes seq (publish timeUs ?m), res)]"
    using tick_sends_live[OF assms(7,8)] by blast
  define fields where "fields = telFields seq (sanitizeForUplink (publish timeUs ?m))"
  have "uksReceives (uplinkBytes seq (publish timeUs ?m)) = Inr fields"
    unfolding fields_def by (rule uks_accepts[OF publish_in_range[OF assms(6)]])
  moreover have "uint (ucast (timeUs div 1000) :: u32) = uint timeUs div 1000 mod 2 ^ 32"
    by (simp add: unsigned_ucast_eq take_bit_eq_mod uint_div)
  then have "fields ! 12 = uint (word_at msg 2)" "fields ! 13 = 10 * sint (word_at msg 0)"
    "fields ! 14 = min 10000 (uint (word_at msg 4))" "fields ! 16 = uint timeUs div 1000 mod 2 ^ 32"
    using cycle_pack[OF m assms(3-5)]
    by (simp_all add: fields_def telFields_def sanitizeForUplink_def publish_def getTelemetryData_def Let_def
        packPart_def sanitize_scaled_current sanitize_soc)
  ultimately show ?thesis
    using w cycle_publishes(1)[OF ok assms(2), of env timeUs] by auto
qed


theorem battery_reading_reaches_ground_witness:
  "\<exists>(s :: FakeSpi System) older bytes res fields.
    wireOf (lo_tx (txTick (wired readyEsp) (TEL_sensorDataQueue (vTask_CAN_cycle
       (quietEnv 8 [(frame_of_words CAN_ID_LB_BMS_E000 (- 25) 768 5000 5000, 7)]) 42000 s)) backlogTask)) = older @ [(bytes, res)] \<and>
    uksReceives bytes = Inr fields \<and> fields ! 12 = 768 \<and> fields ! 13 = - 250 \<and> fields ! 14 = 5000 \<and> fields ! 16 = 42"
proof -
  let ?f = "frame_of_words CAN_ID_LB_BMS_E000 (- 25) 768 5000 5000"
  let ?s = "vTask_CAN_start canBoot bootSystem"
  have r: "sys_reach fakeSpi ?s" by (rule sys_can_start[OF bootSystem_reach]) (simp add: bootSystem_def)
  have mot: "motorInRange (s_telemetryData (processRxMessages (quietEnv 8 [(?f, 7)]) canReady))" by code_simp
  have w: "wireOf (lo_tx backlogTask) = []" by (simp add: backlogTask_def)
  show ?thesis
    using battery_reading_reaches_ground[OF r canStart_fields(1), of "quietEnv 8 [(?f, 7)]" "[]" ?f 7 "[]" backlogTask readyEsp 42000]
      mot backlogTask_up(1) readyEsp_open
    by (simp add: w accepted_def) blast
qed

end
