(* ===== verification/Lora_Budget.thy ===== *)
theory Lora_Budget
  imports Lora_Uplink
begin

text \<open>
  The load of the uplink: the budget that include/SystemConfig.h asserts at compile time, and that
  the LoRa task keeps to it in every run.
\<close>

definition LORA_UART_BAUD :: nat where "LORA_UART_BAUD = 9600"

text \<open>The condition of the \<open>static_assert\<close>: peak bytes per second against 80 percent of the line.\<close>

definition linkBudget :: "nat \<times> nat" where
  "linkBudget = ((1 + REPLAY_BURST_PER_TICK) * LORA_TEL_FRAME_MAX_BYTES * 1000 div unat LORA_TX_PERIOD_MS,
     LORA_UART_BAUD * 8 div 100)"

definition wireBytes :: "wire \<Rightarrow> nat" where
  "wireBytes w = sum_list (map (length \<circ> fst) w)"

lemma wireBytes_frames: "wireBytes (framesOf seq ps) \<le> 108 * length ps"
proof (induction seq ps rule: framesOf.induct)
  case (2 seq p res ps)
  then show ?case using telLine_length[of seq "sanitizeForUplink p"] by (simp add: wireBytes_def uplinkBytes_def)
qed (simp add: wireBytes_def)

lemma nowMs_wire [simp]: "snd (snd (hal_nowMs (EspLoraHal (wired esp)) x)) = snd x"
  by (simp add: EspLoraHal_def EspLoraHal_nowMs_def wired_def lifted_def askLog_def case_prod_beta)

lemma rxLoop_wire: "snd (snd (rxLoop (wired esp) bytes (s, x))) = snd x"
proof (induction bytes arbitrary: s x)
  case (Cons b bytes)
  then show ?case by (simp add: case_prod_beta)
qed simp

lemma txTick_bytes:
  assumes "loraInv st"
  shows "wireBytes (wireOf (lo_tx (txTick (wired esp) queue st))) \<le> wireBytes (wireOf (lo_tx st)) + 216"
proof (cases "queue = None \<or> isLinkDown (lo_sched st)")
  case True
  then have "wireOf (lo_tx (txTick (wired esp) queue st)) = wireOf (lo_tx st)"
    by (auto simp: txTick_def Let_def case_prod_beta split: option.splits)
  then show ?thesis by simp
next
  case False
  then obtain slot where q: "queue = Some slot" and up: "linkUp st" using assms by (auto simp: loraInv_def linkUp_def)
  obtain sent where s: "map fst sent = take (openCount esp (lo_tx st)) (ob_list (lo_buffer st)) @
        take (openCount esp (afterReplay esp st)) (slotList slot)" "sends sent (lo_tx st) (lo_tx (txTick (wired esp) queue st))"
    using tick_frames[OF up refl, of esp slot] q by blast
  have "length sent = length (take (openCount esp (lo_tx st)) (ob_list (lo_buffer st)) @
        take (openCount esp (afterReplay esp st)) (slotList slot))" using s(1) by (metis length_map)
  then have "length sent \<le> 2" by (auto simp: openCount_def min_def)
  then show ?thesis
    using s(2) wireBytes_frames[of "TEL_sequenceCounter (tx_tel (lo_tx st))" sent] by (simp add: sends_def wireBytes_def)
qed

lemma txTick_last [simp]: "lo_lastTelemetryTick (txTick esp queue st) = lo_lastTelemetryTick st"
  by (simp add: txTick_def Let_def case_prod_beta split: option.split)

text \<open>One cycle: nothing is sent before a period has passed, and then at most two frames.\<close>

lemma cycle_bytes:
  assumes "loraInv st" "st' = vTask_LoRa_cycle (wired esp) queue st"
  shows "wireBytes (wireOf (lo_tx st')) \<le> wireBytes (wireOf (lo_tx st)) +
      (if lo_lastTelemetryTick st' - lo_lastTelemetryTick st \<ge> 50 then 216 else 0)"
proof -
  define x0 where "x0 = esp_task_wdt_reset (wired esp) (tx_esp (lo_tx st))"
  define rd where "rd = hal_uartRead (EspLoraHal (wired esp)) 4 LORA_RX_TIMEOUT_MS x0"
  define rx where "rx = rxLoop (wired esp) (take (nat (fst (fst rd))) (snd (fst rd))) (lo_sched st, snd rd)"
  define nw where "nw = hal_nowMs (EspLoraHal (wired esp)) (snd rx)"
  define tk where "tk = xTaskGetTickCount (wired esp) (snd nw)"
  define st1 where "st1 = st\<lparr> lo_sched := snd (updateLink (fst nw) (lo_bootMs st) (lo_buffer st) (fst rx)),
    lo_tx := (lo_tx st)\<lparr> tx_esp := snd tk \<rparr> \<rparr>"
  define st2 where "st2 = (if fst tk - lo_lastTelemetryTick st \<ge> pdMS_TO_TICKS LORA_TX_PERIOD_MS
    then txTick (wired esp) queue (st1\<lparr> lo_lastTelemetryTick := fst tk \<rparr>) else st1)"
  have st': "st' = st2\<lparr> lo_tx := (lo_tx st2)\<lparr> tx_esp := vTaskDelay (wired esp) (pdMS_TO_TICKS 10) (tx_esp (lo_tx st2)) \<rparr> \<rparr>"
    unfolding assms(2) vTask_LoRa_cycle_def Let_def case_prod_beta
    by (simp add: st2_def st1_def tk_def nw_def rx_def rd_def x0_def)
  have "snd (snd tk) = snd (tx_esp (lo_tx st))"
    by (simp add: tk_def nw_def rx_def rxLoop_wire) (simp add: rd_def x0_def EspLoraHal_def wired_def lifted_def askLog_def keepLog_def)
  then have w1: "wireOf (lo_tx st1) = wireOf (lo_tx st)" by (simp add: st1_def)
  have i1: "loraInv (st1\<lparr> lo_lastTelemetryTick := t \<rparr>)" for t
    using assms(1) rxLoop_only[of "wired esp" "take (nat (fst (fst rd))) (snd (fst rd))" "lo_sched st" "snd rd"]
    by (auto simp: loraInv_def st1_def rx_def updateLink_keeps)
  have p: "pdMS_TO_TICKS LORA_TX_PERIOD_MS = 50" by (simp add: pdMS_TO_TICKS_def cfg)
  have l1: "lo_lastTelemetryTick st1 = lo_lastTelemetryTick st" by (simp add: st1_def)
  show ?thesis
  proof (cases "fst tk - lo_lastTelemetryTick st \<ge> 50")
    case True
    then have "st2 = txTick (wired esp) queue (st1\<lparr> lo_lastTelemetryTick := fst tk \<rparr>)" by (simp add: st2_def p)
    then show ?thesis using txTick_bytes[OF i1[of "fst tk"], of esp queue] True w1 by (simp add: st')
  next
    case False
    then have "st2 = st1" by (simp add: st2_def p)
    then show ?thesis using w1 l1 by (simp add: st')
  qed
qed

text \<open>A run of the task: its state and the ticks between its transmissions.\<close>

fun uplinkRun :: "'e EspLora \<Rightarrow> TelemetryData option option list \<Rightarrow> 'e LoraTask \<Rightarrow> 'e LoraTask \<times> nat" where
  "uplinkRun esp [] st = (st, 0)"
| "uplinkRun esp (queue # qs) st =
    (let st1 = vTask_LoRa_cycle esp queue st;
         (st2, n) = uplinkRun esp qs st1
     in (st2, unat (lo_lastTelemetryTick st1 - lo_lastTelemetryTick st) + n))"

lemma run_bytes:
  "loraInv st \<Longrightarrow> uplinkRun (wired esp) qs st = (st', ticks) \<Longrightarrow>
   50 * wireBytes (wireOf (lo_tx st')) \<le> 50 * wireBytes (wireOf (lo_tx st)) + 216 * ticks"
proof (induction qs arbitrary: st ticks)
  case (Cons queue qs)
  let ?s1 = "vTask_LoRa_cycle (wired esp) queue st"
  let ?d = "lo_lastTelemetryTick ?s1 - lo_lastTelemetryTick st"
  obtain n where n: "uplinkRun (wired esp) qs ?s1 = (st', n)" "ticks = unat ?d + n"
    using Cons.prems(2) by (auto simp: Let_def split: prod.splits)
  have "50 \<le> ?d \<longleftrightarrow> 50 \<le> unat ?d" by (simp add: word_le_nat_alt)
  then have "50 * wireBytes (wireOf (lo_tx ?s1)) \<le> 50 * wireBytes (wireOf (lo_tx st)) + 216 * unat ?d"
    using cycle_bytes[OF Cons.prems(1) refl, of esp queue] by (auto split: if_splits)
  then show ?case using Cons.IH[OF cycle_inv[OF Cons.prems(1)] n(1)] n(2) by simp
qed simp

text \<open>C21. The uplink keeps to its budget: in any run of the LoRa task, for every behaviour of the
  hardware and whatever is queued and buffered, at most 216 bytes go out per 50 ticks (500 ms)
  between transmissions; that is 432 bytes a second, below the 480 that the compile-time check
  assumes, which are below 80 percent of what the UART can carry.\<close>

theorem uplink_within_budget:
  assumes "lora_reach (wired esp) st" "uplinkRun (wired esp) qs st = (st', ticks)"
  shows "50 * wireBytes (wireOf (lo_tx st')) \<le> 50 * wireBytes (wireOf (lo_tx st)) + 216 * ticks \<and>
    216 * 100 div 50 \<le> fst linkBudget \<and> fst linkBudget \<le> snd linkBudget"
proof -
  have "loraInv st" using lora_task_invariant[OF assms(1)] by blast
  then have "50 * wireBytes (wireOf (lo_tx st')) \<le> 50 * wireBytes (wireOf (lo_tx st)) + 216 * ticks"
    using run_bytes assms(2) by blast
  moreover have l: "linkBudget = (480, 768)"
    by (simp add: linkBudget_def LORA_TEL_FRAME_MAX_BYTES_def LORA_UART_BAUD_def LORA_TX_PERIOD_MS_def)
  ultimately show ?thesis unfolding l by simp
qed

lemma wired_clock: "esp_clock esp micros slack \<Longrightarrow> esp_clock (wired esp) (\<lambda>x. micros (fst x)) slack"
  by (auto simp: esp_clock_def wired_def lifted_def keepLog_def askLog_def takes_def case_prod_beta)

lemma wired_bench_starts: "\<exists>st. vTask_LoRa_start (wired benchEsp) ob_boot 0 (benchFresh, []) = Some (LoraRunning st)"
proof -
  note clock = esp_clock.hal_clock[OF wired_clock[OF bench.esp_clock_axioms]]
  have b: "EspLoraHal_begin (wired benchEsp) (benchFresh, []) = (True, benchFresh, [])"
    unfolding EspLoraHal_begin_def
    by (subst uartInitLoop.simps) (simp add: uartAttempt_def benchEsp_def wired_def lifted_def askLog_def)
  obtain r e where "configureE22 (EspLoraHal (wired benchEsp)) (benchFresh, []) = Some (r, e)"
    using lora_clock.configureE22_returns[OF clock, of "(benchFresh, [])"] by (auto simp: benchFresh_def)
  then show ?thesis by (simp add: vTask_LoRa_start_def b case_prod_beta Let_def)
qed

theorem uplink_within_budget_witness:
  "\<exists>st st' ticks. lora_reach (wired benchEsp) st \<and> uplinkRun (wired benchEsp) (replicate 100 (Some None)) st = (st', ticks) \<and>
    50 * wireBytes (wireOf (lo_tx st')) \<le> 50 * wireBytes (wireOf (lo_tx st)) + 216 * ticks"
proof -
  obtain st where "vTask_LoRa_start (wired benchEsp) ob_boot 0 (benchFresh, []) = Some (LoraRunning st)"
    using wired_bench_starts ..
  then have r: "lora_reach (wired benchEsp) st" by (rule lora_boot)
  obtain st' ticks where u: "uplinkRun (wired benchEsp) (replicate 100 (Some None)) st = (st', ticks)" by fastforce
  show ?thesis using uplink_within_budget[OF r u] r u by blast
qed

end
