(* ===== verification/Can_Sniffer.thy ===== *)
theory Can_Sniffer
  imports Can_Manager C_Scan
begin

text \<open>
  What \<open>CanManager::handleLbBmsStub\<close> logs of the battery frames whose fields are not known yet: in
  the normal build the bytes, in the sniffer build (\<open>ENABLE_BMS_DIAGNOSTIC_SNIFFER\<close>) also the words
  that could be cell voltages.  The texts are built in local arrays of 25 and 64 bytes.  \<open>None\<close> is the
  early return for a frame without data.
\<close>

fun hexDigits :: "nat \<Rightarrow> nat" where
  "hexDigits n = (if n < 16 then 1 else 1 + hexDigits (n div 16))"

declare hexDigits.simps [simp del]

text \<open>The conversion \<open>%04lX\<close>: at least four digits.\<close>

definition show_hex4 :: "nat \<Rightarrow> string" where
  "show_hex4 n = show_hexw (max 4 (hexDigits n)) n"

definition stubHex :: "twai_message \<Rightarrow> string" where
  "stubHex msg = concat (map (\<lambda>i. fst (snprintf 4 (show_hex2 (payload msg ! i) @ '' '')))
     [0..<min (unat (data_length_code msg)) 8])"

definition stubLog :: "twai_message \<Rightarrow> u32 \<Rightarrow> string option" where
  "stubLog msg canId =
    (if data_length_code msg = 0 then None
     else Some (''LB-0x'' @ show_hex4 (unat canId) @ '' [DLC='' @ show_nat (unat (data_length_code msg)) @ '']: '' @
                stubHex msg @ ''(DO'' @ [CHR 0xC4, CHR 0x9E] @ ''RULANMADI '' @ [CHR 0xE2, CHR 0x80, CHR 0x94] @ '' ham veri)''))"

definition cellCandidate :: "u16 \<Rightarrow> bool" where
  "cellCandidate val \<longleftrightarrow> (val \<ge> 2500 \<and> val \<le> 3650) \<or> (val \<ge> 25000 \<and> val \<le> 36500)"

definition candidateText :: "nat \<Rightarrow> u16 \<Rightarrow> string" where
  "candidateText i val = '' [b'' @ show_nat i @ '':'' @ show_nat (i + 1) @ ''='' @ show_int (uint val) @ '']''"

text \<open>The loop over the even positions below the last byte; each text is appended to what the array holds.\<close>

definition scanAt :: "twai_message \<Rightarrow> nat \<Rightarrow> bool \<times> string \<Rightarrow> bool \<times> string" where
  "scanAt msg i s =
    (let (foundMatch, matchLog) = s;
         val = word_at msg i
     in if cellCandidate val
        then (True, matchLog @ fst (snprintf (64 - length matchLog) (candidateText i val)))
        else (foundMatch, matchLog))"

definition snifferScan :: "twai_message \<Rightarrow> bool \<times> string" where
  "snifferScan msg =
    fold (scanAt msg)
      (if data_length_code msg \<ge> 2 then filter even [0..<unat (data_length_code msg) - 1] else []) (False, [])"

definition snifferLog :: "twai_message \<Rightarrow> u32 \<Rightarrow> u32 \<Rightarrow> string option" where
  "snifferLog msg canId tick =
    (if data_length_code msg = 0 then None
     else let (foundMatch, matchLog) = snifferScan msg;
              head = ''[DIAG] ID:0x'' @ show_hex4 (unat canId) @ '' T:'' @ show_int (uint tick) @ '' '' @ stubHex msg
          in Some (if foundMatch then head @ '' ---> H'' @ [CHR 0xC3, CHR 0x9C] @ ''CRE ADAYI!'' @ matchLog else head))"

text \<open>The switch between the two builds; the firmware is built without the sniffer.\<close>

definition ENABLE_BMS_DIAGNOSTIC_SNIFFER :: bool where [cfg]: "ENABLE_BMS_DIAGNOSTIC_SNIFFER = False"

definition unknownFrameLog :: "twai_message \<Rightarrow> u32 \<Rightarrow> u32 \<Rightarrow> string option" where
  "unknownFrameLog msg canId tick = (if ENABLE_BMS_DIAGNOSTIC_SNIFFER then snifferLog msg canId tick else stubLog msg canId)"

subsection \<open>The arrays are large enough\<close>

lemma stubHex_eq:
  "stubHex msg = concat (map (\<lambda>i. show_hex2 (payload msg ! i) @ '' '') [0..<min (unat (data_length_code msg)) 8])"
  by (simp add: stubHex_def snprintf_def show_hex2_def Let_def)

lemma stubHex_fits: "length (stubHex msg) \<le> 24"
  by (simp add: stubHex_eq length_concat comp_def show_hex2_def Let_def sum_list_triv)

lemma candidateText_length:
  assumes "i < 9"
  shows "length (candidateText i val) \<le> 13"
proof -
  have "length (show_nat i) \<le> 1" "length (show_nat (Suc i)) \<le> 1" using assms length_show_nat[of _ 1] by simp_all
  moreover have "length (show_int (uint val)) \<le> 5" using unsigned_less[of val, where 'a = int] by (intro length_show_pos) simp_all
  ultimately show ?thesis by (simp add: candidateText_def)
qed

text \<open>With the standard length of at most eight bytes no candidate is cut off: the scan lists all of them.\<close>

lemma scan_fold:
  assumes "\<forall>i \<in> set js. i < 9" "length log + 13 * length js < 64"
  shows "fold (scanAt msg) js (b, log) =
    (b \<or> filter (\<lambda>i. cellCandidate (word_at msg i)) js \<noteq> [],
     log @ concat (map (\<lambda>i. candidateText i (word_at msg i)) (filter (\<lambda>i. cellCandidate (word_at msg i)) js)))"
  using assms
proof (induction js arbitrary: b log)
  case (Cons j js)
  have l: "length (candidateText j (word_at msg j)) \<le> 13" using Cons.prems(1) candidateText_length by simp
  then have "fst (snprintf (64 - length log) (candidateText j (word_at msg j))) = candidateText j (word_at msg j)"
    using Cons.prems(2) by (simp add: snprintf_def)
  then show ?case
    using Cons.IH[of "log @ candidateText j (word_at msg j)" True] Cons.IH[of log b] Cons.prems l by (simp add: scanAt_def)
qed simp

lemma even_positions: "n \<le> 8 \<Longrightarrow> length (filter even [0..<n - 1]) \<le> 4"
proof -
  have "list_all (\<lambda>n. length (filter even [0..<n - 1]) \<le> 4) [0..<9]" by code_simp
  then show "n \<le> 8 \<Longrightarrow> ?thesis" by (simp add: list_all_iff del: upt_rec_numeral)
qed

lemma snifferScan_complete:
  assumes "data_length_code msg \<le> 8"
  shows "snifferScan msg =
    (let hits = filter (\<lambda>i. cellCandidate (word_at msg i)) (filter even [0..<unat (data_length_code msg) - 1])
     in (hits \<noteq> [], concat (map (\<lambda>i. candidateText i (word_at msg i)) hits)))"
proof -
  let ?n = "unat (data_length_code msg)"
  have n: "?n \<le> 8" using assms by (simp add: word_le_nat_alt)
  have js: "(if data_length_code msg \<ge> 2 then filter even [0..<?n - 1] else []) = filter even [0..<?n - 1]"
    by (auto simp: word_le_nat_alt)
  have f: "snifferScan msg = fold (scanAt msg) (filter even [0..<?n - 1]) (False, [])"
    unfolding snifferScan_def js ..
  show ?thesis unfolding f using n even_positions[OF n] by (subst scan_fold) (auto simp: Let_def)
qed

end
