(* ===== verification/Bms_Algo.thy ===== *)
theory Bms_Algo
  imports Vehicle_Data
begin

text \<open>
  The interpretation of a pack snapshot for the display: \<open>computePack\<close> of
  lib/BmsAlgo/BmsAlgo.cpp with the data types of BmsModel.h and BmsComputed.h.
  The array loops are folds over the indices; the accumulator of the first loop is
  the record \<open>Scan\<close> of its local variables.
\<close>

definition BMS_CELL_COUNT :: nat where [simp]: "BMS_CELL_COUNT = 24"

record BmsPackData =
  cellVoltageMv :: "u16 list"
  cellTempC :: "i16 list"
  packCurrentMa :: i32
  pack_isValid :: bool
  cellDataValid :: bool

record BmsComputed =
  packVoltageMv :: u32
  cellMaxMv :: u16
  cellMinMv :: u16
  cellMaxIndex :: u8
  cellMinIndex :: u8
  cellDeltaMv :: u16
  socPercent :: u8
  balanceFlag :: "bool list"
  warningLevel :: u8
  tempMaxC :: i16
  tempMinC :: i16

definition BmsComputed_zero :: BmsComputed where
  "BmsComputed_zero = \<lparr> packVoltageMv = 0, cellMaxMv = 0, cellMinMv = 0, cellMaxIndex = 0,
     cellMinIndex = 0, cellDeltaMv = 0, socPercent = 0, balanceFlag = replicate BMS_CELL_COUNT False,
     warningLevel = 0, tempMaxC = 0, tempMinC = 0 \<rparr>"

definition BMS_WARN_OK :: u8 where "BMS_WARN_OK = 0"
definition BMS_WARN_WARNING :: u8 where "BMS_WARN_WARNING = 1"
definition BMS_WARN_CRITICAL :: u8 where "BMS_WARN_CRITICAL = 2"
definition BMS_WARN_NO_DATA :: u8 where "BMS_WARN_NO_DATA = 3"

definition BMS_BALANCE_THRESHOLD_MV :: u16 where "BMS_BALANCE_THRESHOLD_MV = 50"
definition BMS_BALANCE_TOP_MARGIN_MV :: u16 where "BMS_BALANCE_TOP_MARGIN_MV = 5"
definition BMS_SOC_EMPTY_MV :: u16 where "BMS_SOC_EMPTY_MV = 2500"
definition BMS_SOC_FULL_MV :: u16 where "BMS_SOC_FULL_MV = 3650"
definition BMS_TEMP_OVERTEMP_CRIT_C :: i16 where "BMS_TEMP_OVERTEMP_CRIT_C = 70"
definition BMS_TEMP_OVERTEMP_WARN_C :: i16 where "BMS_TEMP_OVERTEMP_WARN_C = 55"

definition makeSafeInvalid :: BmsComputed where
  "makeSafeInvalid = BmsComputed_zero\<lparr> warningLevel := BMS_WARN_CRITICAL, socPercent := 0 \<rparr>"

definition makeNoCellData :: BmsComputed where
  "makeNoCellData = BmsComputed_zero\<lparr> warningLevel := BMS_WARN_NO_DATA, socPercent := 0 \<rparr>"

definition socFromAvgMv :: "u32 \<Rightarrow> u8" where
  "socFromAvgMv avgMv =
    (if avgMv \<le> ucast BMS_SOC_EMPTY_MV then 0
     else if avgMv \<ge> ucast BMS_SOC_FULL_MV then 100
     else let span = ucast BMS_SOC_FULL_MV - ucast BMS_SOC_EMPTY_MV :: u32;
              above = avgMv - ucast BMS_SOC_EMPTY_MV
          in ucast ((above * 100) div span))"

record Scan =
  sumMv :: u32
  maxMv :: u16
  minMv :: u16
  maxIdx :: u8
  minIdx :: u8
  tMax :: i16
  tMin :: i16

definition scanStart :: "BmsPackData \<Rightarrow> Scan" where
  "scanStart p = \<lparr> sumMv = 0, maxMv = cellVoltageMv p ! 0, minMv = cellVoltageMv p ! 0,
     maxIdx = 0, minIdx = 0, tMax = cellTempC p ! 0, tMin = cellTempC p ! 0 \<rparr>"

definition scanStep :: "BmsPackData \<Rightarrow> nat \<Rightarrow> Scan \<Rightarrow> Scan" where
  "scanStep p i a =
    (let v = cellVoltageMv p ! i;
         a = a\<lparr> sumMv := sumMv a + ucast v \<rparr>;
         a = (if v > maxMv a then a\<lparr> maxMv := v, maxIdx := of_nat i \<rparr> else a);
         a = (if v < minMv a then a\<lparr> minMv := v, minIdx := of_nat i \<rparr> else a);
         t = cellTempC p ! i;
         a = (if sint t > sint (tMax a) then a\<lparr> tMax := t \<rparr> else a)
     in if sint t < sint (tMin a) then a\<lparr> tMin := t \<rparr> else a)"

definition scanCells :: "BmsPackData \<Rightarrow> Scan" where
  "scanCells p = fold (scanStep p) [0..<BMS_CELL_COUNT] (scanStart p)"

definition balanceCells :: "BmsPackData \<Rightarrow> u16 \<Rightarrow> bool list \<Rightarrow> bool list" where
  "balanceCells p lowBound flags =
     fold (\<lambda>i flags. if cellVoltageMv p ! i \<ge> lowBound then flags[i := True] else flags) [0..<BMS_CELL_COUNT] flags"

definition warningOf :: "u16 \<Rightarrow> u16 \<Rightarrow> i16 \<Rightarrow> u8" where
  "warningOf minV maxV tMaxC =
    (if minV < BMS_CELL_UNDERVOLT_CRIT_MV \<or> maxV > BMS_CELL_OVERVOLT_CRIT_MV \<or>
        sint tMaxC \<ge> sint BMS_TEMP_OVERTEMP_CRIT_C then BMS_WARN_CRITICAL
     else if minV < BMS_CELL_UNDERVOLT_WARN_MV \<or> maxV > BMS_CELL_OVERVOLT_WARN_MV \<or>
        sint tMaxC \<ge> sint BMS_TEMP_OVERTEMP_WARN_C then BMS_WARN_WARNING
     else BMS_WARN_OK)"

definition computePack :: "BmsPackData \<Rightarrow> BmsComputed" where
  "computePack p =
    (if \<not> pack_isValid p then makeSafeInvalid
     else if \<not> cellDataValid p then makeNoCellData
     else
       let a = scanCells p;
           c = BmsComputed_zero\<lparr> packVoltageMv := sumMv a, cellMaxMv := maxMv a, cellMinMv := minMv a,
                 cellMaxIndex := maxIdx a, cellMinIndex := minIdx a, cellDeltaMv := maxMv a - minMv a,
                 tempMaxC := tMax a, tempMinC := tMin a \<rparr>;
           avgMv = sumMv a div of_nat BMS_CELL_COUNT;
           c = c\<lparr> socPercent := socFromAvgMv avgMv \<rparr>;
           c = (if cellDeltaMv c > BMS_BALANCE_THRESHOLD_MV
                then let lowBound = (if maxMv a > BMS_BALANCE_TOP_MARGIN_MV
                                     then maxMv a - BMS_BALANCE_TOP_MARGIN_MV else 0)
                     in c\<lparr> balanceFlag := balanceCells p lowBound (balanceFlag c) \<rparr>
                else c)
       in c\<lparr> warningLevel := warningOf (minMv a) (maxMv a) (tMax a) \<rparr>)"

subsection \<open>The scan\<close>

definition pack_wf :: "BmsPackData \<Rightarrow> bool" where
  "pack_wf p \<longleftrightarrow> length (cellVoltageMv p) = BMS_CELL_COUNT \<and> length (cellTempC p) = BMS_CELL_COUNT"

text \<open>What the loop knows after \<open>n\<close> cells, for each pair of local variables.\<close>

definition max_inv :: "BmsPackData \<Rightarrow> nat \<Rightarrow> Scan \<Rightarrow> bool" where
  "max_inv p n a \<longleftrightarrow> unat (maxIdx a) < 24 \<and> cellVoltageMv p ! unat (maxIdx a) = maxMv a \<and>
     (\<forall>i<n. cellVoltageMv p ! i \<le> maxMv a) \<and> (\<forall>i<unat (maxIdx a). cellVoltageMv p ! i < maxMv a)"

definition min_inv :: "BmsPackData \<Rightarrow> nat \<Rightarrow> Scan \<Rightarrow> bool" where
  "min_inv p n a \<longleftrightarrow> unat (minIdx a) < 24 \<and> cellVoltageMv p ! unat (minIdx a) = minMv a \<and>
     (\<forall>i<n. minMv a \<le> cellVoltageMv p ! i) \<and> (\<forall>i<unat (minIdx a). minMv a < cellVoltageMv p ! i)"

definition temp_inv :: "BmsPackData \<Rightarrow> nat \<Rightarrow> Scan \<Rightarrow> bool" where
  "temp_inv p n a \<longleftrightarrow>
     (\<exists>i<24. cellTempC p ! i = tMax a) \<and> (\<forall>i<n. sint (cellTempC p ! i) \<le> sint (tMax a)) \<and>
     (\<exists>i<24. cellTempC p ! i = tMin a) \<and> (\<forall>i<n. sint (tMin a) \<le> sint (cellTempC p ! i))"

definition scan_inv :: "BmsPackData \<Rightarrow> nat \<Rightarrow> Scan \<Rightarrow> bool" where
  "scan_inv p n a \<longleftrightarrow> unat (sumMv a) = (\<Sum>i<n. unat (cellVoltageMv p ! i)) \<and>
     max_inv p n a \<and> min_inv p n a \<and> temp_inv p n a"

lemmas scan_invs = scan_inv_def max_inv_def min_inv_def temp_inv_def

lemma scanStep_fields [simp]:
  "sumMv (scanStep p i a) = sumMv a + ucast (cellVoltageMv p ! i)"
  "maxMv (scanStep p i a) = (if cellVoltageMv p ! i > maxMv a then cellVoltageMv p ! i else maxMv a)"
  "maxIdx (scanStep p i a) = (if cellVoltageMv p ! i > maxMv a then of_nat i else maxIdx a)"
  "minMv (scanStep p i a) = (if cellVoltageMv p ! i < minMv a then cellVoltageMv p ! i else minMv a)"
  "minIdx (scanStep p i a) = (if cellVoltageMv p ! i < minMv a then of_nat i else minIdx a)"
  "tMax (scanStep p i a) = (if sint (cellTempC p ! i) > sint (tMax a) then cellTempC p ! i else tMax a)"
  "tMin (scanStep p i a) = (if sint (cellTempC p ! i) < sint (tMin a) then cellTempC p ! i else tMin a)"
  by (simp_all add: scanStep_def Let_def)

lemma sum_bound: "(\<Sum>i<n. unat ((f :: nat \<Rightarrow> u16) i)) \<le> n * 65535"
proof (induction n)
  case (Suc n)
  have "unat (f n) \<le> 65535" using u16_unat_less[of "f n"] by linarith
  then show ?case using Suc by simp
qed simp

lemma sum_step:
  assumes "unat (s :: u32) \<le> 24 * 65535" shows "unat (s + ucast (v :: u16)) = unat s + unat v"
proof -
  have "unat (ucast v :: u32) = unat v"
    using u16_unat_less[of v] by (simp add: unsigned_ucast_eq take_bit_nat_eq_self)
  then show ?thesis using assms u16_unat_less[of v] by (simp add: unat_word_ariths)
qed

lemma inv_steps:
  assumes "n < 24"
  shows "max_inv p n a \<Longrightarrow> max_inv p (Suc n) (scanStep p n a)"
    "min_inv p n a \<Longrightarrow> min_inv p (Suc n) (scanStep p n a)"
    "temp_inv p n a \<Longrightarrow> temp_inv p (Suc n) (scanStep p n a)"
proof -
  have n: "unat (of_nat n :: u8) = n" using assms by (simp add: unat_of_nat)
  show "max_inv p n a \<Longrightarrow> max_inv p (Suc n) (scanStep p n a)"
    using assms by (auto simp: max_inv_def n less_Suc_eq)
  show "min_inv p n a \<Longrightarrow> min_inv p (Suc n) (scanStep p n a)"
    using assms by (auto simp: min_inv_def n less_Suc_eq)
  show "temp_inv p n a \<Longrightarrow> temp_inv p (Suc n) (scanStep p n a)"
    using assms by (auto simp: temp_inv_def less_Suc_eq intro: order_trans less_imp_le)
qed

lemma scan_inv_step:
  assumes "scan_inv p n a" "n < 24" shows "scan_inv p (Suc n) (scanStep p n a)"
proof -
  have "unat (sumMv a) \<le> 24 * 65535"
    using sum_bound[of "(!) (cellVoltageMv p)" n] assms by (simp add: scan_inv_def)
  from sum_step[OF this] show ?thesis using assms inv_steps[OF assms(2)] by (simp add: scan_inv_def)
qed

lemma scanCells_inv: "scan_inv p 24 (scanCells p)"
proof -
  have "n \<le> 24 \<Longrightarrow> scan_inv p n (fold (scanStep p) [0..<n] (scanStart p))" for n
  proof (induction n)
    case 0
    show ?case by (auto simp: scan_invs scanStart_def intro: exI[of _ 0])
  next
    case (Suc n)
    then show ?case using scan_inv_step by simp
  qed
  from this[of 24] show ?thesis by (simp add: scanCells_def)
qed

lemma balanceCells_nth:
  assumes "i < 24"
  shows "balanceCells p b (replicate 24 False) ! i \<longleftrightarrow> b \<le> cellVoltageMv p ! i"
proof -
  have "n \<le> 24 \<Longrightarrow> length (fold (\<lambda>i flags. if b \<le> cellVoltageMv p ! i then flags[i := True] else flags) [0..<n] (replicate 24 False)) = 24 \<and>
     (\<forall>i<24. fold (\<lambda>i flags. if b \<le> cellVoltageMv p ! i then flags[i := True] else flags) [0..<n] (replicate 24 False) ! i
       \<longleftrightarrow> i < n \<and> b \<le> cellVoltageMv p ! i)" for n
    by (induction n) (auto simp: nth_list_update less_Suc_eq)
  from this[of 24] show ?thesis using assms by (simp add: balanceCells_def)
qed

lemma word_diff_u16: "(b :: u16) \<le> a \<Longrightarrow> unat (a - b) = unat a - unat b"
  by (simp add: unat_sub)

text \<open>C30. The pack computation: for a valid pack with valid cells the voltage is the exact sum
  of the 24 cells, maximum and minimum are attained at the reported indices, the first such
  ones, and bound all cells, and the spread is their difference without wrap-around.\<close>

theorem computePack_extremes:
  assumes "pack_isValid p" "cellDataValid p"
  shows "unat (packVoltageMv (computePack p)) = (\<Sum>i<24. unat (cellVoltageMv p ! i)) \<and>
    unat (cellMaxIndex (computePack p)) < 24 \<and> unat (cellMinIndex (computePack p)) < 24 \<and>
    cellVoltageMv p ! unat (cellMaxIndex (computePack p)) = cellMaxMv (computePack p) \<and>
    cellVoltageMv p ! unat (cellMinIndex (computePack p)) = cellMinMv (computePack p) \<and>
    (\<forall>i<24. cellMinMv (computePack p) \<le> cellVoltageMv p ! i \<and> cellVoltageMv p ! i \<le> cellMaxMv (computePack p)) \<and>
    (\<forall>i<unat (cellMaxIndex (computePack p)). cellVoltageMv p ! i < cellMaxMv (computePack p)) \<and>
    (\<forall>i<unat (cellMinIndex (computePack p)). cellMinMv (computePack p) < cellVoltageMv p ! i) \<and>
    unat (cellDeltaMv (computePack p)) = unat (cellMaxMv (computePack p)) - unat (cellMinMv (computePack p))"
proof -
  let ?a = "scanCells p"
  have inv: "scan_inv p 24 ?a" by (rule scanCells_inv)
  then have "minMv ?a \<le> cellVoltageMv p ! 0" "cellVoltageMv p ! 0 \<le> maxMv ?a" by (auto simp: scan_invs)
  then have "unat (maxMv ?a - minMv ?a) = unat (maxMv ?a) - unat (minMv ?a)"
    using word_diff_u16 order_trans by blast
  then show ?thesis
    using inv assms by (simp add: computePack_def Let_def scan_invs BmsComputed_zero_def)
qed

definition samplePack :: BmsPackData where
  "samplePack = \<lparr> cellVoltageMv = (replicate 24 3300)[5 := 3360, 7 := 2400], cellTempC = replicate 24 20,
     packCurrentMa = 0, pack_isValid = True, cellDataValid = True \<rparr>"

theorem computePack_extremes_witness:
  "cellVoltageMv samplePack ! unat (cellMaxIndex (computePack samplePack)) = cellMaxMv (computePack samplePack)"
  using computePack_extremes[of samplePack] by (simp add: samplePack_def)

lemma extremes_iff:
  assumes "pack_wf p"
  shows "minMv (scanCells p) < k \<longleftrightarrow> (\<exists>v \<in> set (cellVoltageMv p). v < k)"
    "k < maxMv (scanCells p) \<longleftrightarrow> (\<exists>v \<in> set (cellVoltageMv p). k < v)"
    "s \<le> sint (tMax (scanCells p)) \<longleftrightarrow> (\<exists>t \<in> set (cellTempC p). s \<le> sint t)"
proof -
  have nth: "(\<exists>v \<in> set (cellVoltageMv p). P v) \<longleftrightarrow> (\<exists>i<24. P (cellVoltageMv p ! i))" for P
    using assms unfolding pack_wf_def BMS_CELL_COUNT_def by (metis in_set_conv_nth)
  have nth': "(\<exists>t \<in> set (cellTempC p). P t) \<longleftrightarrow> (\<exists>i<24. P (cellTempC p ! i))" for P
    using assms unfolding pack_wf_def BMS_CELL_COUNT_def by (metis in_set_conv_nth)
  have mn: "\<exists>i<24. cellVoltageMv p ! i = minMv (scanCells p)" "\<forall>i<24. minMv (scanCells p) \<le> cellVoltageMv p ! i"
    and mx: "\<exists>i<24. cellVoltageMv p ! i = maxMv (scanCells p)" "\<forall>i<24. cellVoltageMv p ! i \<le> maxMv (scanCells p)"
    and tm: "\<exists>i<24. cellTempC p ! i = tMax (scanCells p)" "\<forall>i<24. sint (cellTempC p ! i) \<le> sint (tMax (scanCells p))"
    using scanCells_inv[of p] unfolding scan_invs by blast+
  show "minMv (scanCells p) < k \<longleftrightarrow> (\<exists>v \<in> set (cellVoltageMv p). v < k)"
    unfolding nth using mn by (auto intro: order.strict_trans1)
  show "k < maxMv (scanCells p) \<longleftrightarrow> (\<exists>v \<in> set (cellVoltageMv p). k < v)"
    unfolding nth using mx by (auto intro: order.strict_trans2)
  show "s \<le> sint (tMax (scanCells p)) \<longleftrightarrow> (\<exists>t \<in> set (cellTempC p). s \<le> sint t)"
    unfolding nth' using tm by (auto intro: order_trans)
qed

text \<open>The lower edge of the balancing band saturates at zero.\<close>

lemma low_bound_iff:
  "(if m > BMS_BALANCE_TOP_MARGIN_MV then m - BMS_BALANCE_TOP_MARGIN_MV else 0) \<le> v \<longleftrightarrow> unat m \<le> unat v + 5"
proof (cases "m > BMS_BALANCE_TOP_MARGIN_MV")
  case True
  then have "unat (m - 5) = unat m - 5" "5 < unat m"
    by (simp_all add: BMS_BALANCE_TOP_MARGIN_MV_def word_less_nat_alt word_diff_u16 word_le_nat_alt)
  then show ?thesis using True by (auto simp: BMS_BALANCE_TOP_MARGIN_MV_def word_le_nat_alt)
next
  case False
  then show ?thesis by (auto simp: BMS_BALANCE_TOP_MARGIN_MV_def word_less_nat_alt)
qed

lemma threshold_iff: "BMS_BALANCE_THRESHOLD_MV < d \<longleftrightarrow> 50 < unat d"
  by (simp add: BMS_BALANCE_THRESHOLD_MV_def word_less_nat_alt)

lemma balance_iff:
  assumes "i < 24"
  shows "balanceFlag (computePack p) ! i \<longleftrightarrow>
    pack_isValid p \<and> cellDataValid p \<and> 50 < unat (cellDeltaMv (computePack p)) \<and>
    unat (cellMaxMv (computePack p)) \<le> unat (cellVoltageMv p ! i) + 5"
  using assms
  by (simp add: computePack_def Let_def makeSafeInvalid_def makeNoCellData_def BmsComputed_zero_def
      threshold_iff balanceCells_nth low_bound_iff)

text \<open>Balancing and warnings: a cell is discharged exactly when the spread of the pack exceeds
  50 mV and the cell lies within 5 mV of the highest one; the level is critical exactly when
  some cell is below 2500 mV or above 3650 mV or some cell is at 70 degrees or more, and
  otherwise a warning exactly when some cell leaves 2800 to 3550 mV or reaches 55 degrees.
  Without valid data no cell is ever discharged.\<close>

lemma computePack_decisions:
  assumes "pack_wf p"
  defines "c \<equiv> computePack p"
  shows "(\<forall>i<24. balanceFlag c ! i \<longleftrightarrow>
           pack_isValid p \<and> cellDataValid p \<and> 50 < unat (cellDeltaMv c) \<and>
           unat (cellMaxMv c) \<le> unat (cellVoltageMv p ! i) + 5) \<and>
    warningLevel c =
      (if \<not> pack_isValid p then BMS_WARN_CRITICAL
       else if \<not> cellDataValid p then BMS_WARN_NO_DATA
       else if (\<exists>v \<in> set (cellVoltageMv p). unat v < 2500 \<or> 3650 < unat v) \<or> (\<exists>t \<in> set (cellTempC p). 70 \<le> sint t)
       then BMS_WARN_CRITICAL
       else if (\<exists>v \<in> set (cellVoltageMv p). unat v < 2800 \<or> 3550 < unat v) \<or> (\<exists>t \<in> set (cellTempC p). 55 \<le> sint t)
       then BMS_WARN_WARNING else BMS_WARN_OK)"
proof -
  have "balanceFlag c ! i \<longleftrightarrow> pack_isValid p \<and> cellDataValid p \<and> 50 < unat (cellDeltaMv c) \<and>
      unat (cellMaxMv c) \<le> unat (cellVoltageMv p ! i) + 5" if "i < 24" for i
    using balance_iff[OF that, of p] by (simp add: c_def)
  moreover have "warningLevel c = warningOf (minMv (scanCells p)) (maxMv (scanCells p)) (tMax (scanCells p))"
    if "pack_isValid p" "cellDataValid p" using that by (simp add: c_def computePack_def Let_def)
  moreover have "warningLevel c = BMS_WARN_CRITICAL" if "\<not> pack_isValid p"
    using that by (simp add: c_def computePack_def makeSafeInvalid_def)
  moreover have "warningLevel c = BMS_WARN_NO_DATA" if "pack_isValid p" "\<not> cellDataValid p"
    using that by (simp add: c_def computePack_def makeNoCellData_def)
  moreover have "warningOf (minMv (scanCells p)) (maxMv (scanCells p)) (tMax (scanCells p)) =
      (if (\<exists>v \<in> set (cellVoltageMv p). unat v < 2500 \<or> 3650 < unat v) \<or> (\<exists>t \<in> set (cellTempC p). 70 \<le> sint t)
       then BMS_WARN_CRITICAL
       else if (\<exists>v \<in> set (cellVoltageMv p). unat v < 2800 \<or> 3550 < unat v) \<or> (\<exists>t \<in> set (cellTempC p). 55 \<le> sint t)
       then BMS_WARN_WARNING else BMS_WARN_OK)"
    unfolding warningOf_def extremes_iff[OF assms(1)]
    by (auto simp: BMS_TEMP_OVERTEMP_CRIT_C_def BMS_TEMP_OVERTEMP_WARN_C_def word_less_nat_alt)
  ultimately show ?thesis by auto
qed

end
