(* ===== verification/Aks_Config.thy ===== *)
theory Aks_Config
  imports Aks_System Lora_Budget Can_Sniffer Bms_Algo
begin

text \<open>
  The rest of include/SystemConfig.h and what src/main.cpp does with it: the pins and
  peripherals of the modules, the channel numbers of the contactors, the tasks
  \<open>app_main\<close> creates with their priorities, cores and stacks, and the periodic report of the
  stack that every task makes.  The lemmas say that the table is consistent: no pin is used
  twice, what is driven can be driven, the thresholds agree with the cells of the pack, and
  the priorities give the order the comments ask for.
\<close>

subsection \<open>Pins and peripherals\<close>

definition CAN_TX_PIN :: nat where [cfg]: "CAN_TX_PIN = 5"
definition CAN_RX_PIN :: nat where [cfg]: "CAN_RX_PIN = 4"
definition HMI_UART_NUM :: nat where [cfg]: "HMI_UART_NUM = 1"
definition HMI_TX_PIN :: nat where [cfg]: "HMI_TX_PIN = 33"
definition HMI_RX_PIN :: nat where [cfg]: "HMI_RX_PIN = 32"
definition LORA_UART_NUM :: nat where [cfg]: "LORA_UART_NUM = 2"
definition LORA_TX_PIN :: nat where [cfg]: "LORA_TX_PIN = 16"
definition LORA_RX_PIN :: nat where [cfg]: "LORA_RX_PIN = 17"
definition RELAY_SPI_MOSI :: nat where [cfg]: "RELAY_SPI_MOSI = 23"
definition RELAY_SPI_MISO :: nat where [cfg]: "RELAY_SPI_MISO = 19"
definition RELAY_SPI_CLK :: nat where [cfg]: "RELAY_SPI_CLK = 18"
definition RELAY_SPI_CS :: nat where [cfg]: "RELAY_SPI_CS = 14"
definition CONFIG_ESP_CONSOLE_UART_NUM :: nat where [cfg]: "CONFIG_ESP_CONSOLE_UART_NUM = 0"

text \<open>The pins the firmware drives and the pins it reads.\<close>

definition drivenPins :: "nat list" where
  "drivenPins = [CAN_TX_PIN, HMI_TX_PIN, LORA_TX_PIN, LORA_M0_PIN, LORA_M1_PIN,
     RELAY_SPI_MOSI, RELAY_SPI_CLK, RELAY_SPI_CS]"

definition readPins :: "nat list" where
  "readPins = [CAN_RX_PIN, HMI_RX_PIN, LORA_RX_PIN, LORA_AUX_PIN, RELAY_SPI_MISO]"

text \<open>On the ESP32 the pins 34 to 39 have no output driver, the pins 6 to 11 are wired to the
  flash, and the pins 1 and 3 are the console.\<close>

definition inputOnly :: "nat \<Rightarrow> bool" where "inputOnly p \<longleftrightarrow> 34 \<le> p \<and> p \<le> 39"
definition reservedPin :: "nat \<Rightarrow> bool" where "reservedPin p \<longleftrightarrow> p = 1 \<or> p = 3 \<or> 6 \<le> p \<and> p \<le> 11"

lemma pins_consistent:
  "distinct (drivenPins @ readPins)" "\<forall>p \<in> set drivenPins. \<not> inputOnly p"
  "\<forall>p \<in> set (drivenPins @ readPins). p < 40 \<and> \<not> reservedPin p"
  "distinct [CONFIG_ESP_CONSOLE_UART_NUM, HMI_UART_NUM, LORA_UART_NUM]"
  by (simp_all add: drivenPins_def readPins_def inputOnly_def reservedPin_def cfg LORA_M0_PIN_def LORA_M1_PIN_def LORA_AUX_PIN_def)

subsection \<open>Contactor channels\<close>

definition RELAY_CH_POS_0 :: u8 where [cfg]: "RELAY_CH_POS_0 = 0"
definition RELAY_CH_POS_1 :: u8 where [cfg]: "RELAY_CH_POS_1 = 1"
definition RELAY_CH_POS_2 :: u8 where [cfg]: "RELAY_CH_POS_2 = 2"
definition RELAY_CH_POS_3 :: u8 where [cfg]: "RELAY_CH_POS_3 = 3"
definition RELAY_CH_POS_4 :: u8 where [cfg]: "RELAY_CH_POS_4 = 4"
definition RELAY_CH_POS_5 :: u8 where [cfg]: "RELAY_CH_POS_5 = 5"
definition RELAY_CH_POS_6 :: u8 where [cfg]: "RELAY_CH_POS_6 = 6"
definition RELAY_CH_POS_7 :: u8 where [cfg]: "RELAY_CH_POS_7 = 7"
definition RELAY_CH_POS_8 :: u8 where [cfg]: "RELAY_CH_POS_8 = 8"
definition RELAY_CH_POS_9 :: u8 where [cfg]: "RELAY_CH_POS_9 = 9"

abbreviation relayChannels :: "u8 list" where
  "relayChannels \<equiv> [RELAY_CH_POS_0, RELAY_CH_POS_1, RELAY_CH_POS_2, RELAY_CH_POS_3, RELAY_CH_POS_4,
     RELAY_CH_POS_5, RELAY_CH_POS_6, RELAY_CH_POS_7, RELAY_CH_POS_8, RELAY_CH_POS_9]"

text \<open>The named channels are the ones the relay driver accepts.\<close>

lemma relay_channels: "relayChannels = map of_nat [0..<unat RELAY_TOTAL_CHANNELS]" "distinct relayChannels"
proof -
  have "[0..<10] = [0, 1, 2, 3, 4, 5, 6, 7, 8, 9 :: nat]" by (simp add: upt_rec)
  then show "relayChannels = map of_nat [0..<unat RELAY_TOTAL_CHANNELS]" by (simp add: cfg)
qed (simp add: cfg)

subsection \<open>Thresholds\<close>

definition BMS_CRITICAL_MIN_CELL_VOLTAGE_MV :: u16 where [cfg]: "BMS_CRITICAL_MIN_CELL_VOLTAGE_MV = 2500"
definition BMS_CRITICAL_MAX_CELL_VOLTAGE_MV :: u16 where [cfg]: "BMS_CRITICAL_MAX_CELL_VOLTAGE_MV = 3650"
definition TEL_SANITIZE_WARN_THROTTLE_MS :: u32 where [cfg]: "TEL_SANITIZE_WARN_THROTTLE_MS = 10000"

text \<open>A decivolt of the pack is 100 mV over its 24 cells.\<close>

definition packOfCell :: "u16 \<Rightarrow> nat" where "packOfCell mv = BMS_CELL_COUNT * unat mv div 100"

lemma thresholds_consistent:
  "unat BMS_CRITICAL_MIN_PACK_VOLTAGE_DECI_V = packOfCell BMS_CRITICAL_MIN_CELL_VOLTAGE_MV"
  "unat BMS_CRITICAL_MAX_PACK_VOLTAGE_DECI_V = packOfCell BMS_CRITICAL_MAX_CELL_VOLTAGE_MV"
  "BMS_CELL_UNDERVOLT_CRIT_MV = BMS_CRITICAL_MIN_CELL_VOLTAGE_MV" "BMS_CELL_OVERVOLT_CRIT_MV = BMS_CRITICAL_MAX_CELL_VOLTAGE_MV"
  "BMS_SOC_EMPTY_MV = BMS_CRITICAL_MIN_CELL_VOLTAGE_MV" "BMS_SOC_FULL_MV = BMS_CRITICAL_MAX_CELL_VOLTAGE_MV"
  "unat BMS_WARN_MAX_PACK_VOLTAGE_DECI_V = packOfCell BMS_CELL_OVERVOLT_WARN_MV"
  "sint BMS_TEMP_OVERTEMP_WARN_C = BMS_WARN_MAX_TEMP_C" "sint BMS_TEMP_OVERTEMP_CRIT_C = BMS_CRITICAL_MAX_TEMP_C"
  by (simp_all add: cfg packOfCell_def BMS_CELL_COUNT_def BMS_SOC_EMPTY_MV_def BMS_SOC_FULL_MV_def
      BMS_TEMP_OVERTEMP_WARN_C_def BMS_TEMP_OVERTEMP_CRIT_C_def)

text \<open>The lower warning levels do not agree: 72.0 V are 3.00 V in each cell, but a cell warns only below 2.80 V.\<close>

lemma warn_min_differs: "packOfCell BMS_CELL_UNDERVOLT_WARN_MV < unat BMS_WARN_MIN_PACK_VOLTAGE_DECI_V"
  by (simp add: packOfCell_def BMS_CELL_COUNT_def)

lemma can_ids_distinct:
  "distinct [CAN_ID_LB_BMS_E000, CAN_ID_LB_BMS_E001, CAN_ID_LB_BMS_E002, CAN_ID_LB_BMS_E003, CAN_ID_LB_BMS_E004,
     CAN_ID_LB_BMS_E005, CAN_ID_LB_BMS_E006, CAN_ID_LB_BMS_E015, CAN_ID_LB_BMS_E016, CAN_ID_LB_BMS_E017, CAN_ID_LB_BMS_E018,
     CAN_ID_LB_BMS_E019, CAN_ID_LB_BMS_E020, CAN_ID_LB_BMS_E032, CAN_ID_LB_BMS_E033, CAN_ID_LB_CHARGER_CMD]"
  "CAN_ID_MOTOR_STATUS \<noteq> CAN_ID_LB_STD_0x000"
  by simp_all

subsection \<open>Tasks\<close>

datatype TaskFunction = vTask_CAN_Comm | vTask_HMI_Display | vTask_VCU_Logic | vTask_LoRa_UKS

record TaskSpec =
  task_fun :: TaskFunction
  task_name :: string
  task_stack :: nat
  task_priority :: nat
  task_core :: nat

definition TASK_PRIORITY_VCU :: nat where [cfg]: "TASK_PRIORITY_VCU = 10"
definition TASK_PRIORITY_CAN :: nat where [cfg]: "TASK_PRIORITY_CAN = 8"
definition TASK_PRIORITY_LORA :: nat where [cfg]: "TASK_PRIORITY_LORA = 5"
definition TASK_PRIORITY_HMI :: nat where [cfg]: "TASK_PRIORITY_HMI = 2"

text \<open>The calls of \<open>xTaskCreatePinnedToCore\<close> at the end of \<open>app_main\<close>, in order.\<close>

definition app_main_tasks :: "TaskSpec list" where
  "app_main_tasks =
    [\<lparr> task_fun = vTask_CAN_Comm, task_name = ''CAN_Task'', task_stack = 4096, task_priority = TASK_PRIORITY_CAN, task_core = 0 \<rparr>,
     \<lparr> task_fun = vTask_HMI_Display, task_name = ''HMI_Task'', task_stack = 4096, task_priority = TASK_PRIORITY_HMI, task_core = 0 \<rparr>,
     \<lparr> task_fun = vTask_VCU_Logic, task_name = ''VCU_Task'', task_stack = 4096, task_priority = TASK_PRIORITY_VCU, task_core = 1 \<rparr>,
     \<lparr> task_fun = vTask_LoRa_UKS, task_name = ''LoRa_Task'', task_stack = 3072, task_priority = TASK_PRIORITY_LORA, task_core = 0 \<rparr>]"

text \<open>The tasks a preemptive scheduler with fixed priorities may run on a core: ready, pinned to it,
  and no ready task of the core has a higher priority.\<close>

definition mayRun :: "TaskSpec list \<Rightarrow> (TaskSpec \<Rightarrow> bool) \<Rightarrow> nat \<Rightarrow> TaskSpec \<Rightarrow> bool" where
  "mayRun tasks ready core t \<longleftrightarrow> t \<in> set tasks \<and> ready t \<and> task_core t = core \<and>
     list_all (\<lambda>t'. ready t' \<and> task_core t' = core \<longrightarrow> task_priority t' \<le> task_priority t) tasks"

text \<open>The telemetry never keeps the reception waiting: while the CAN task is ready, core 0 runs it and
  nothing else; the state machine has core 1 for itself; of two tasks of one core that are ready, only
  one may run.\<close>

lemma task_priorities_distinct: "distinct (map task_priority app_main_tasks)"
  by (simp add: app_main_tasks_def cfg)

lemma mayRun_priority:
  "mayRun tasks ready core t \<Longrightarrow> t' \<in> set tasks \<Longrightarrow> ready t' \<Longrightarrow> task_core t' = core \<Longrightarrow> task_priority t' \<le> task_priority t"
  by (auto simp: mayRun_def list_all_iff)

lemma tasks_by_priority:
  assumes "mayRun app_main_tasks ready core t"
  shows "core = 0 \<Longrightarrow> ready (app_main_tasks ! 0) \<Longrightarrow> task_fun t = vTask_CAN_Comm"
    "core = 1 \<Longrightarrow> task_fun t = vTask_VCU_Logic"
    "mayRun app_main_tasks ready core t' \<Longrightarrow> t' = t"
proof -
  have t: "t \<in> set app_main_tasks" "task_core t = core" "ready t" using assms by (simp_all add: mayRun_def)
  show "task_fun t = vTask_CAN_Comm" if "core = 0" "ready (app_main_tasks ! 0)"
  proof -
    have "TASK_PRIORITY_CAN \<le> task_priority t"
      using mayRun_priority[OF assms, of "app_main_tasks ! 0"] that by (simp add: app_main_tasks_def)
    then show ?thesis using t that(1) by (auto simp: app_main_tasks_def cfg)
  qed
  show "core = 1 \<Longrightarrow> task_fun t = vTask_VCU_Logic" using t by (auto simp: app_main_tasks_def)
  assume t': "mayRun app_main_tasks ready core t'"
  have m: "t' \<in> set app_main_tasks" "task_core t' = core" "ready t'" using t' by (simp_all add: mayRun_def)
  have "task_priority t' = task_priority t"
    using mayRun_priority[OF assms m(1,3,2)] mayRun_priority[OF t' t(1,3,2)] by simp
  then show "t' = t" using task_priorities_distinct m(1) t(1) by (auto simp: distinct_map inj_on_def)
qed

subsection \<open>The stack report\<close>

definition STACK_LOG_INTERVAL_MS :: u32 where [cfg]: "STACK_LOG_INTERVAL_MS = 30000"

text \<open>Given the tick count, the high water mark and the size of a stack entry: the two numbers that
  are logged, if any, and the new time of the last report.\<close>

definition logStackUsage :: "u32 \<Rightarrow> u32 \<Rightarrow> u32 \<Rightarrow> u32 \<Rightarrow> (u32 \<times> u32) option \<times> u32" where
  "logStackUsage sizeofStackType now hwm lastLogTick =
    (if now - lastLogTick \<ge> pdMS_TO_TICKS STACK_LOG_INTERVAL_MS
     then (Some (hwm, hwm * sizeofStackType), now) else (None, lastLogTick))"

text \<open>A sequence of calls with their tick counts: the times of the reports.\<close>

fun stackReports :: "u32 list \<Rightarrow> u32 \<Rightarrow> u32 list" where
  "stackReports [] lastLogTick = []"
| "stackReports (now # nows) lastLogTick =
    (case logStackUsage 1 now 0 lastLogTick of
       (Some _, lastLogTick') \<Rightarrow> now # stackReports nows lastLogTick'
     | (None, lastLogTick') \<Rightarrow> stackReports nows lastLogTick')"

text \<open>Reports of a task are at least 30 s apart, through the wrap of the tick counter.\<close>

lemma stack_reports_apart:
  "\<forall>i < length (stackReports nows prev).
     stackReports nows prev ! i - (prev # stackReports nows prev) ! i \<ge> 3000"
proof (induction nows arbitrary: prev)
  case (Cons now nows)
  have t: "pdMS_TO_TICKS STACK_LOG_INTERVAL_MS = 3000" by (simp add: pdMS_TO_TICKS_def cfg)
  show ?case
  proof (cases "now - prev \<ge> 3000")
    case True
    then have e: "stackReports (now # nows) prev = now # stackReports nows now" by (simp add: logStackUsage_def t)
    show ?thesis unfolding e using Cons.IH[of now] True by (auto simp: nth_Cons split: nat.split)
  next
    case False
    then have "stackReports (now # nows) prev = stackReports nows prev" by (simp add: logStackUsage_def t)
    then show ?thesis using Cons.IH[of prev] by simp
  qed
qed simp

end
