(* ===== verification/Lora_Watchdog.thy ===== *)
theory Lora_Watchdog
  imports Lora_Uplink
begin

text \<open>
  The LoRa task and the task watchdog of the ESP32, which bites when a task does not reset it for
  five seconds (\<open>CONFIG_ESP_TASK_WDT_TIMEOUT_S\<close>).  The boot configuration of the radio never resets
  it, so what counts is the sum of its waits.  The laws here are finer than those of \<open>esp_clock\<close>: a
  read takes no longer than its timeout, a delay no longer than it is asked for, and everything
  else a bounded overhead.
\<close>

definition CONFIG_ESP_TASK_WDT_TIMEOUT_S :: nat where "CONFIG_ESP_TASK_WDT_TIMEOUT_S = 5"

text \<open>A call that takes at most \<open>n\<close> microseconds and leaves a part of the state alone.\<close>

definition spends :: "('h \<Rightarrow> nat) \<Rightarrow> ('h \<Rightarrow> 'v) \<Rightarrow> nat \<Rightarrow> 'h \<Rightarrow> 'h \<Rightarrow> bool" where
  "spends micros view n h h' \<longleftrightarrow> takes micros n h h' \<and> view h' = view h"

lemma spends_trans: "spends m v a h h1 \<Longrightarrow> spends m v b h1 h2 \<Longrightarrow> spends m v (a + b) h h2"
  by (simp add: spends_def takes_def)

lemma spends_le: "spends m v a h h1 \<Longrightarrow> a \<le> b \<Longrightarrow> spends m v b h h1"
  by (simp add: spends_def takes_def)

lemma spends_refl: "spends m v n h h"
  by (simp add: spends_def takes_def)

subsection \<open>The boot configuration\<close>

locale lora_timing =
  fixes hal :: "'h ILoraHal" and micros :: "'h \<Rightarrow> nat" and view :: "'h \<Rightarrow> 'v" and eps :: nat
  assumes now_value: "micros (snd (hal_nowMs hal h)) < 2 ^ 63 \<Longrightarrow>
      fst (hal_nowMs hal h) = of_nat (micros (snd (hal_nowMs hal h)) div 1000)"
    and delay_passes: "10 \<le> ms \<Longrightarrow> ms \<le> 1000 \<Longrightarrow> micros h < micros (hal_delayMs hal ms h)"
    and quick:
      "spends micros view eps h (hal_setModePins hal m0 m1 h)"
      "spends micros view eps h (snd (hal_isAuxReady hal h))"
      "spends micros view eps h (snd (hal_auxRawLevel hal h))"
      "spends micros view eps h (hal_uartFlush hal h)"
      "spends micros view eps h (snd (hal_nowMs hal h))"
      "spends micros view eps h (hal_hexDumpE22 hal buf len h)"
    and sending: "length bytes \<le> 120 \<Longrightarrow> spends micros view eps h (snd (hal_uartWrite hal bytes h))"
    and reading: "timeoutMs \<le> 10000 \<Longrightarrow>
      spends micros view (unat timeoutMs * 1000 + eps) h (snd (hal_uartRead hal n timeoutMs h))"
    and delay: "ms \<le> 10000 \<Longrightarrow> spends micros view (unat ms * 1000 + eps) h (hal_delayMs hal ms h)"
begin

lemma auxLoop_spends:
  assumes "s \<le> micros h" "micros h \<le> s + (unat timeoutMs + 11) * 1000 + 2 * eps"
    and "s + (unat timeoutMs + 11) * 1000 + 3 * eps < 2 ^ 63"
  shows "\<exists>r h'. auxLoop hal (of_nat (s div 1000)) timeoutMs h = Some (r, h') \<and> view h' = view h \<and>
    micros h \<le> micros h' \<and> micros h' \<le> s + (unat timeoutMs + 11) * 1000 + 3 * eps"
  using assms(1,2)
proof (induction "s + (unat timeoutMs + 11) * 1000 + 2 * eps - micros h" arbitrary: h rule: less_induct)
  case less
  define h1 where "h1 = snd (hal_nowMs hal h)"
  define h2 where "h2 = snd (hal_isAuxReady hal h1)"
  define h3 where "h3 = hal_delayMs hal 10 h2"
  note sp = spends_def takes_def
  have t1: "micros h \<le> micros h1" "micros h1 \<le> micros h + eps" "view h1 = view h"
    using quick(5)[of h] by (simp_all add: h1_def sp)
  have t2: "micros h1 \<le> micros h2" "micros h2 \<le> micros h1 + eps" "view h2 = view h1"
    using quick(2)[of h1] by (simp_all add: h2_def sp)
  have t3: "micros h2 < micros h3" "micros h3 \<le> micros h2 + 10000 + eps" "view h3 = view h2"
    using delay_passes[of 10 h2] delay[of 10 h2] by (simp_all add: h3_def sp)
  have now: "fst (hal_nowMs hal h) = of_nat (micros h1 div 1000)"
    using now_value[of h] t1 less.prems assms(3) by (simp add: h1_def)
  have test: "fst (hal_nowMs hal h) - of_nat (s div 1000) < ucast timeoutMs \<longleftrightarrow>
      micros h1 div 1000 < s div 1000 + unat timeoutMs"
    unfolding now by (rule elapsed) (use t1 less.prems assms(3) in linarith)+
  show ?case
  proof (cases "micros h1 div 1000 < s div 1000 + unat timeoutMs")
    case False
    then have "auxLoop hal (of_nat (s div 1000)) timeoutMs h = Some (False, h1)"
      using test by (subst auxLoop.simps) (simp add: case_prod_beta h1_def)
    then show ?thesis using t1 less.prems by auto
  next
    case True
    then have lim: "micros h1 < s + (unat timeoutMs + 1) * 1000" by simp
    show ?thesis
    proof (cases "fst (hal_isAuxReady hal h1)")
      case ready: True
      then have "auxLoop hal (of_nat (s div 1000)) timeoutMs h = Some (True, h2)"
        using test True by (subst auxLoop.simps) (simp add: case_prod_beta h1_def h2_def)
      then show ?thesis using t1 t2 less.prems lim by auto
    next
      case False
      then have "auxLoop hal (of_nat (s div 1000)) timeoutMs h = auxLoop hal (of_nat (s div 1000)) timeoutMs h3"
        using test True by (subst auxLoop.simps) (simp add: case_prod_beta h1_def h2_def h3_def)
      moreover have "\<exists>r h'. auxLoop hal (of_nat (s div 1000)) timeoutMs h3 = Some (r, h') \<and> view h' = view h3 \<and>
          micros h3 \<le> micros h' \<and> micros h' \<le> s + (unat timeoutMs + 11) * 1000 + 3 * eps"
        by (rule less.hyps) (use t1 t2 t3 less.prems lim in \<open>simp_all add: algebra_simps\<close>)
      ultimately show ?thesis using t1 t2 t3 by auto
    qed
  qed
qed

lemma wait_spends:
  assumes "micros h + (unat timeoutMs + 11) * 1000 + 4 * eps < 2 ^ 63"
  shows "\<exists>r h'. waitAuxReady hal timeoutMs h = Some (r, h') \<and> spends micros view ((unat timeoutMs + 11) * 1000 + 4 * eps) h h'"
proof -
  define h1 where "h1 = snd (hal_nowMs hal h)"
  have t: "micros h \<le> micros h1" "micros h1 \<le> micros h + eps" "view h1 = view h"
    using quick(5)[of h] by (simp_all add: h1_def spends_def takes_def)
  have "fst (hal_nowMs hal h) = of_nat (micros h1 div 1000)"
    using now_value[of h] t assms by (simp add: h1_def)
  then have w: "waitAuxReady hal timeoutMs h = auxLoop hal (of_nat (micros h1 div 1000)) timeoutMs h1"
    by (simp add: waitAuxReady_def case_prod_beta h1_def)
  show ?thesis unfolding w
    using auxLoop_spends[of "micros h1" h1 timeoutMs] t assms by (fastforce simp: spends_def takes_def)
qed

lemma reply_spends: "spends micros view (500000 + eps) h (snd (snd (readReply hal n h)))"
  using reading[of LORA_CFG_READ_TIMEOUT_MS h n] by (simp add: readReply_def case_prod_beta LORA_CFG_READ_TIMEOUT_MS_def)

text \<open>Flush, command, answer, dump.\<close>

lemma exchange_spends:
  assumes "length cmd \<le> 120"
  shows "spends micros view (500000 + 4 * eps) h
    (hal_hexDumpE22 hal buf len (snd (snd (readReply hal n (snd (hal_uartWrite hal cmd (hal_uartFlush hal h)))))))"
  by (rule spends_le[OF spends_trans[OF quick(4) spends_trans[OF sending[OF assms] spends_trans[OF reply_spends quick(6)]]]]) simp

lemma cryptRefresh_spends: "spends micros view (500000 + 4 * eps) h (snd (cryptRefresh hal h))"
  using exchange_spends[of "e22_buildWriteCryptTempCommand (Some 5)"]
  by (simp add: cryptRefresh_def Let_def case_prod_beta cryptCommand)

lemma writeContract_spends:
  assumes "micros h + 2561000 + 9 * eps < 2 ^ 63"
  shows "\<exists>r h'. writeContract hal h = Some (r, h') \<and> spends micros view (2561000 + 9 * eps) h h'"
proof -
  let ?cmd = "e22_buildWriteCommand E22_CONTRACT_REGS (Some 12)"
  define h3 where "h3 = hal_delayMs hal 50 (snd (hal_uartWrite hal ?cmd (hal_uartFlush hal h)))"
  have l: "length ?cmd \<le> 120" by (simp add: writeCommand regBlock_def)
  have d: "spends micros view (50000 + eps) h' (hal_delayMs hal 50 h')" for h' using delay[of 50 h'] by simp
  have t3: "spends micros view (50000 + 3 * eps) h h3"
    unfolding h3_def by (rule spends_le[OF spends_trans[OF quick(4) spends_trans[OF sending[OF l] d]]]) simp
  then obtain r h4 where w: "waitAuxReady hal LORA_AUX_CFG_TIMEOUT_MS h3 = Some (r, h4)"
    and t4: "spends micros view (2011000 + 4 * eps) h3 h4"
    using wait_spends[of h3 LORA_AUX_CFG_TIMEOUT_MS] assms
    by (auto simp: spends_def takes_def LORA_AUX_CFG_TIMEOUT_MS_def)
  define rr where "rr = readReply hal 12 h4"
  have "spends micros view (500000 + 2 * eps) h4 (hal_hexDumpE22 hal buf len (snd (snd rr)))" for buf len
    unfolding rr_def by (rule spends_le[OF spends_trans[OF reply_spends quick(6)]]) simp
  note t5 = spends_trans[OF t3 spends_trans[OF t4 this]]
  show ?thesis
  proof (cases r)
    case True
    then show ?thesis using w spends_le[OF t5]
      by (auto simp: writeContract_def Let_def h3_def[symmetric] rr_def[symmetric] case_prod_beta)
  next
    case False
    then show ?thesis using w spends_le[OF spends_trans[OF t3 t4]]
      by (auto simp: writeContract_def Let_def h3_def[symmetric])
  qed
qed

lemma configSession_spends:
  assumes "micros h + 3061000 + 13 * eps < 2 ^ 63"
  shows "\<exists>r h'. configSession hal h = Some (r, h') \<and> spends micros view (3061000 + 13 * eps) h h'"
proof -
  define rr where "rr = readReply hal (3 + unat E22_REG_BLOCK_LEN)
    (snd (hal_uartWrite hal (e22_buildReadAllCommand (Some 3)) (hal_uartFlush hal h)))"
  define h4 where "h4 = hal_hexDumpE22 hal (fst (snd rr)) (if fst rr > 0 then fst rr else 0) (snd (snd rr))"
  have s: "configSession hal h =
      (if configMatches (fst rr) (fst (snd rr)) then Some (cryptRefresh hal h4) else writeContract hal h4)"
    by (simp add: configSession_def Let_def case_prod_beta rr_def h4_def)
  have t: "spends micros view (500000 + 4 * eps) h h4"
    unfolding h4_def rr_def by (rule exchange_spends) (simp add: readCommand)
  show ?thesis
  proof (cases "configMatches (fst rr) (fst (snd rr))")
    case True
    have "spends micros view (3061000 + 13 * eps) h (snd (cryptRefresh hal h4))"
      by (rule spends_le[OF spends_trans[OF t cryptRefresh_spends]]) simp
    then show ?thesis using s True by (cases "cryptRefresh hal h4") simp
  next
    case False
    then obtain r h' where "configSession hal h = Some (r, h')" "spends micros view (2561000 + 9 * eps) h4 h'"
      using s writeContract_spends[of h4] t assms by (auto simp: spends_def takes_def)
    then show ?thesis using spends_le[OF spends_trans[OF t]] by (fastforce simp: algebra_simps)
  qed
qed

lemma configureE22_spends:
  assumes "micros h + 4083000 + 24 * eps < 2 ^ 63"
  shows "\<exists>r h'. configureE22 hal h = Some (r, h') \<and> spends micros view (4083000 + 24 * eps) h h'"
proof -
  define h1 where "h1 = hal_setModePins hal LORA_MODE_CONFIG_M0_LEVEL LORA_MODE_CONFIG_M1_LEVEL h"
  have t1: "spends micros view eps h h1" using quick(1) by (simp add: h1_def)
  obtain r h2 where w: "waitAuxReady hal LORA_AUX_MODE_TIMEOUT_MS h1 = Some (r, h2)"
    and t2: "spends micros view (511000 + 4 * eps) h1 h2"
    using wait_spends[of h1 LORA_AUX_MODE_TIMEOUT_MS] t1 assms
    by (auto simp: spends_def takes_def LORA_AUX_MODE_TIMEOUT_MS_def)
  have t12: "spends micros view (511000 + 5 * eps) h h2" using spends_trans[OF t1 t2] by (simp add: algebra_simps)
  obtain o3 h3 where s: "(if \<not> r then Some (AUX_TIMEOUT, h2) else configSession hal h2) = Some (o3, h3)"
    and t3: "spends micros view (3061000 + 13 * eps) h2 h3"
    using configSession_spends[of h2] t12 assms spends_refl[of micros view] by (cases r) (auto simp: spends_def takes_def)
  define h4 where "h4 = hal_setModePins hal LORA_MODE_NORMAL_M0_LEVEL LORA_MODE_NORMAL_M1_LEVEL h3"
  have t4: "spends micros view (3572000 + 19 * eps) h h4"
    unfolding h4_def by (rule spends_le[OF spends_trans[OF t12 spends_trans[OF t3 quick(1)]]]) simp
  obtain r' h5 where w': "waitAuxReady hal LORA_AUX_MODE_TIMEOUT_MS h4 = Some (r', h5)"
    and t5: "spends micros view (511000 + 4 * eps) h4 h5"
    using wait_spends[of h4 LORA_AUX_MODE_TIMEOUT_MS] t4 assms
    by (auto simp: spends_def takes_def LORA_AUX_MODE_TIMEOUT_MS_def)
  have "spends micros view (4083000 + 24 * eps) h (snd (hal_auxRawLevel hal h5))"
    by (rule spends_le[OF spends_trans[OF t4 spends_trans[OF t5 quick(3)]]]) simp
  moreover have "configureE22 hal h = Some (o3, snd (hal_auxRawLevel hal h5))"
    using w s w' by (simp add: configureE22_def Let_def h1_def[symmetric] h4_def[symmetric])
  ultimately show ?thesis by blast
qed

end

subsection \<open>The calls of the ESP-IDF\<close>

locale esp_timing =
  fixes esp :: "'e EspLora" and micros :: "'e \<Rightarrow> nat" and view :: "'e \<Rightarrow> 'v" and eps :: nat
  assumes timer: "micros (snd (esp_timer_get_time esp e)) < 2 ^ 63 \<Longrightarrow>
      fst (esp_timer_get_time esp e) = of_nat (micros (snd (esp_timer_get_time esp e)))"
    and delay_advances: "0 < ticks \<Longrightarrow> micros e < micros (vTaskDelay esp ticks e)"
    and esp_quick:
      "spends micros view eps e (gpio_set_level esp pin v e)"
      "spends micros view eps e (snd (gpio_get_level esp pin e))"
      "spends micros view eps e (uart_flush esp e)"
      "spends micros view eps e (snd (uart_get_tx_buffer_free_size esp e))"
      "spends micros view eps e (snd (uart_is_driver_installed esp e))"
      "spends micros view eps e (uart_driver_delete esp e)"
      "spends micros view eps e (snd (uart_param_config esp e))"
      "spends micros view eps e (snd (uart_set_pin esp e))"
      "spends micros view eps e (snd (uart_driver_install esp e))"
      "spends micros view eps e (snd (xTaskGetTickCount esp e))"
      "spends micros view eps e (snd (esp_timer_get_time esp e))"
      "spends micros view eps e (esp_printf esp text e)"
    and esp_sending: "length bytes \<le> 120 \<Longrightarrow> spends micros view eps e (snd (uart_write_bytes esp bytes e))"
    and esp_reading: "spends micros view (unat t * 10000 + eps) e (snd (uart_read_bytes esp n t e))"
    and esp_delaying: "spends micros view (unat ticks * 10000 + eps) e (vTaskDelay esp ticks e)"
    and read_count: "length (snd (fst (uart_read_bytes esp n t e))) \<le> n"
    and feeding: "takes micros eps e (esp_task_wdt_reset esp e)"
begin

lemma dump_spends: "spends micros view (9 * eps) e (E22_logHexDump esp buf len e)"
proof -
  have "spends micros view (length xs * eps) e (fold (\<lambda>x e. esp_printf esp (f x) e) xs e)" for xs :: "nat list" and f e
  proof (induction xs arbitrary: e)
    case (Cons x xs)
    show ?case using spends_trans[OF esp_quick(12) Cons.IH] by simp
  qed (simp add: spends_refl)
  from this[of "[0..<9]"] show ?thesis by (simp add: E22_logHexDump_def E22_REG_BLOCK_LEN_def spends_refl)
qed

end

lemma ticks_of_ms:
  assumes "ms \<le> 10000"
  shows "unat (pdMS_TO_TICKS ms) * 10000 \<le> unat ms * 1000"
proof -
  have m: "unat ms \<le> 10000" using assms by (simp add: word_le_nat_alt)
  then have "unat (ms * 100) = unat ms * 100" by (simp add: unat_word_ariths)
  then show ?thesis by (simp add: pdMS_TO_TICKS_def cfg unat_div)
qed

sublocale esp_timing \<subseteq> hal: lora_timing "EspLoraHal esp" micros view "9 * eps"
proof
  fix e
  assume "micros (snd (hal_nowMs (EspLoraHal esp) e)) < 2 ^ 63"
  then show "fst (hal_nowMs (EspLoraHal esp) e) = of_nat (micros (snd (hal_nowMs (EspLoraHal esp) e)) div 1000)"
    using nowMs_of_timer[where micros = micros and esp = esp, OF timer] by (simp add: EspLoraHal_def)
next
  fix ms :: u32 and e
  assume "10 \<le> ms" "ms \<le> 1000"
  then have "0 < pdMS_TO_TICKS ms" by (rule ticks_positive)
  then show "micros e < micros (hal_delayMs (EspLoraHal esp) ms e)" by (simp add: EspLoraHal_def delay_advances)
next
  fix e m0 m1 buf len
  show "spends micros view (9 * eps) e (hal_setModePins (EspLoraHal esp) m0 m1 e)"
    by (simp add: EspLoraHal_def) (rule spends_le[OF spends_trans[OF esp_quick(1) esp_quick(1)]], simp)
  show "spends micros view (9 * eps) e (snd (hal_isAuxReady (EspLoraHal esp) e))"
    using spends_le[OF esp_quick(2)] by (simp add: EspLoraHal_def case_prod_beta)
  show "spends micros view (9 * eps) e (snd (hal_auxRawLevel (EspLoraHal esp) e))"
    using spends_le[OF esp_quick(2)] by (simp add: EspLoraHal_def)
  show "spends micros view (9 * eps) e (hal_uartFlush (EspLoraHal esp) e)"
    using spends_le[OF esp_quick(3)] by (simp add: EspLoraHal_def)
  show "spends micros view (9 * eps) e (snd (hal_nowMs (EspLoraHal esp) e))"
    using spends_le[OF esp_quick(11)] by (simp add: EspLoraHal_def EspLoraHal_nowMs_def case_prod_beta)
  show "spends micros view (9 * eps) e (hal_hexDumpE22 (EspLoraHal esp) buf len e)"
    using dump_spends by (simp add: EspLoraHal_def)
next
  fix bytes :: "u8 list" and e
  assume "length bytes \<le> 120"
  then show "spends micros view (9 * eps) e (snd (hal_uartWrite (EspLoraHal esp) bytes e))"
    using spends_le[OF esp_sending] by (simp add: EspLoraHal_def)
next
  fix t :: u32 and n e
  assume "t \<le> 10000"
  then show "spends micros view (unat t * 1000 + 9 * eps) e (snd (hal_uartRead (EspLoraHal esp) n t e))"
    using spends_le[OF esp_reading] ticks_of_ms[of t] by (simp add: EspLoraHal_def)
next
  fix ms :: u32 and e
  assume "ms \<le> 10000"
  then show "spends micros view (unat ms * 1000 + 9 * eps) e (hal_delayMs (EspLoraHal esp) ms e)"
    using spends_le[OF esp_delaying] ticks_of_ms[of ms] by (simp add: EspLoraHal_def)
qed

subsection \<open>The watchdog\<close>

text \<open>The device with the time of the last reset and the longest time between two resets.\<close>

definition watched :: "('e \<Rightarrow> nat) \<Rightarrow> 'e EspLora \<Rightarrow> ('e \<times> nat \<times> nat) EspLora" where
  "watched micros esp = (lifted esp)\<lparr>
     esp_task_wdt_reset := (\<lambda>(e, fed, longest).
       let e = esp_task_wdt_reset esp e in (e, micros e, max longest (micros e - fed))) \<rparr>"

text \<open>At most \<open>k\<close> microseconds since the last reset, and never more than five seconds between two.\<close>

definition dogOk :: "('e \<Rightarrow> nat) \<Rightarrow> nat \<Rightarrow> 'e \<times> nat \<times> nat \<Rightarrow> bool" where
  "dogOk micros k x \<longleftrightarrow> (case x of (e, fed, longest) \<Rightarrow>
     fed \<le> micros e \<and> micros e \<le> fed + k \<and> longest \<le> CONFIG_ESP_TASK_WDT_TIMEOUT_S * 1000000)"

abbreviation spendsW :: "('e \<Rightarrow> nat) \<Rightarrow> nat \<Rightarrow> 'e \<times> nat \<times> nat \<Rightarrow> 'e \<times> nat \<times> nat \<Rightarrow> bool" where
  "spendsW micros \<equiv> spends (\<lambda>x. micros (fst x)) snd"

lemma dog_spends: "dogOk micros k x \<Longrightarrow> spendsW micros n x x' \<Longrightarrow> k + n \<le> m \<Longrightarrow> dogOk micros m x'"
  by (auto simp: dogOk_def spends_def takes_def split: prod.splits)

lemma dog_mono: "dogOk micros k x \<Longrightarrow> k \<le> m \<Longrightarrow> dogOk micros m x"
  by (auto simp: dogOk_def split: prod.splits)

context esp_timing begin

lemma hal_timing: "lora_timing (EspLoraHal esp) micros view (9 * eps)" by unfold_locales

lemma watched_timing: "esp_timing (watched micros esp) (\<lambda>x. micros (fst x)) snd eps"
  using timer delay_advances esp_quick esp_sending esp_reading esp_delaying read_count feeding
  by unfold_locales
     (auto simp: watched_def lifted_def keepLog_def askLog_def spends_def takes_def Let_def split: prod.splits)

lemmas w_quick = esp_timing.esp_quick[OF watched_timing]
lemmas w_sending = esp_timing.esp_sending[OF watched_timing]
lemmas w_delaying = esp_timing.esp_delaying[OF watched_timing]

lemma w_hal: "lora_timing (EspLoraHal (watched micros esp)) (\<lambda>x. micros (fst x)) snd (9 * eps)"
  by (rule esp_timing.hal_timing[OF watched_timing])

lemmas w_hal_quick = lora_timing.quick[OF w_hal]

lemma dog_feed:
  assumes "dogOk micros k x" "k + eps \<le> 5000000"
  shows "dogOk micros 0 (esp_task_wdt_reset (watched micros esp) x)"
proof -
  obtain e fed longest where x: "x = (e, fed, longest)" by (cases x)
  show ?thesis using assms feeding[of e]
    by (auto simp: x dogOk_def watched_def Let_def takes_def CONFIG_ESP_TASK_WDT_TIMEOUT_S_def)
qed

lemma attempt_spends: "spendsW micros (5 * eps) x (snd (uartAttempt (watched micros esp) x))"
proof -
  define x1 where "x1 = (if fst (uart_is_driver_installed (watched micros esp) x)
    then uart_driver_delete (watched micros esp) (snd (uart_is_driver_installed (watched micros esp) x))
    else snd (uart_is_driver_installed (watched micros esp) x))"
  have "spendsW micros (2 * eps) x x1"
    using spends_trans[OF w_quick(5) w_quick(6)] spends_le[OF w_quick(5)] by (simp add: x1_def mult_2)
  from spends_trans[OF this spends_trans[OF w_quick(7) spends_trans[OF w_quick(8) w_quick(9)]]]
  show ?thesis by (simp add: uartAttempt_def Let_def case_prod_beta x1_def)
qed

lemma init_dog:
  assumes "dogOk micros 0 x" "eps \<le> 3500"
  shows "dogOk micros (5 * eps) (snd (uartInitLoop (watched micros esp) f x))"
  using assms(1)
proof (induction "nat (5 - f)" arbitrary: f x rule: less_induct)
  case less
  let ?W = "watched micros esp"
  have a: "dogOk micros (5 * eps) (snd (uartAttempt ?W x))" by (rule dog_spends[OF less.prems attempt_spends]) simp
  have t: "unat (pdMS_TO_TICKS 1000) = 100" by (simp add: pdMS_TO_TICKS_def cfg)
  have d: "dogOk micros (1000000 + 6 * eps) (vTaskDelay ?W (pdMS_TO_TICKS 1000) (snd (uartAttempt ?W x)))"
    by (rule dog_spends[OF a w_delaying]) (simp add: t)
  have e: "dogOk micros 0 (esp_task_wdt_reset ?W (vTaskDelay ?W (pdMS_TO_TICKS 1000) (snd (uartAttempt ?W x))))"
    by (rule dog_feed[OF d]) (use assms(2) in simp)
  show ?case
  proof (cases "fst (uartAttempt ?W x) \<or> uart_init_retry_decision (f + 1) LORA_UART_MAX_INIT_ATTEMPTS = GIVE_UP_DISABLED")
    case True
    then show ?thesis using a by (subst uartInitLoop.simps) (auto simp: case_prod_beta simp del: uartInitLoop.simps)
  next
    case False
    then have "nat (5 - (f + 1)) < nat (5 - f)" by (auto simp: uart_init_retry_decision_def cfg split: if_splits)
    from less.hyps[OF this e] False show ?thesis by (subst uartInitLoop.simps) (simp add: case_prod_beta del: uartInitLoop.simps)
  qed
qed

lemma init_time:
  assumes "eps \<le> 3500" "f \<le> 4"
  shows "micros (fst (snd (uartInitLoop (watched micros esp) f x))) \<le> micros (fst x) + nat (5 - f) * 2000000"
  using assms(2)
proof (induction "nat (5 - f)" arbitrary: f x rule: less_induct)
  case less
  let ?W = "watched micros esp"
  let ?x1 = "snd (uartAttempt ?W x)"
  let ?x2 = "vTaskDelay ?W (pdMS_TO_TICKS 1000) ?x1"
  have t: "unat (pdMS_TO_TICKS 1000) = 100" by (simp add: pdMS_TO_TICKS_def cfg)
  have a: "micros (fst ?x1) \<le> micros (fst x) + 5 * eps" using attempt_spends[of x] by (simp add: spends_def takes_def)
  have d: "micros (fst ?x2) \<le> micros (fst ?x1) + 1000000 + eps"
    using w_delaying[of "pdMS_TO_TICKS 1000" ?x1] by (simp add: spends_def takes_def t)
  have e: "micros (fst (esp_task_wdt_reset ?W ?x2)) \<le> micros (fst ?x2) + eps"
    using esp_timing.feeding[OF watched_timing, of ?x2] by (simp add: takes_def)
  have p: "nat (5 - f) * 2000000 \<ge> 2000000" using less.prems by simp
  show ?case
  proof (cases "fst (uartAttempt ?W x) \<or> uart_init_retry_decision (f + 1) LORA_UART_MAX_INIT_ATTEMPTS = GIVE_UP_DISABLED")
    case True
    then show ?thesis using a p assms(1) by (subst uartInitLoop.simps) (auto simp: case_prod_beta simp del: uartInitLoop.simps)
  next
    case False
    then have f: "f + 1 \<le> 4" by (auto simp: uart_init_retry_decision_def cfg split: if_splits)
    then have n: "nat (5 - (f + 1)) < nat (5 - f)" "nat (5 - f) * 2000000 = nat (5 - (f + 1)) * 2000000 + 2000000" by linarith+
    from less.hyps[OF n(1) f, of "esp_task_wdt_reset ?W ?x2"] False n(2) a d e assms(1) show ?thesis
      by (subst uartInitLoop.simps) (simp add: case_prod_beta del: uartInitLoop.simps)
  qed
qed


lemma start_dog:
  assumes "dogOk micros 0 x" "eps \<le> 3500" "micros (fst x) + 20000000 < 2 ^ 63"
  shows "\<exists>t. vTask_LoRa_start (watched micros esp) b n x = Some t \<and>
    (case t of LoraDisabled y \<Rightarrow> dogOk micros 4995000 y | LoraRunning st \<Rightarrow> dogOk micros 4995000 (tx_esp (lo_tx st)))"
proof -
  let ?W = "watched micros esp"
  obtain ok x1 where i: "EspLoraHal_begin ?W x = (ok, x1)" by (cases "EspLoraHal_begin ?W x")
  have d1: "dogOk micros (5 * eps) x1" using init_dog[OF assms(1,2), of 0] i by (simp add: EspLoraHal_begin_def del: uartInitLoop.simps)
  have t1: "micros (fst x1) \<le> micros (fst x) + 10000000"
    using init_time[OF assms(2), of 0 x] i by (simp add: EspLoraHal_begin_def del: uartInitLoop.simps)
  obtain r x2 where c: "configureE22 (EspLoraHal ?W) x1 = Some (r, x2)"
    and s: "spendsW micros (4083000 + 24 * (9 * eps)) x1 x2"
    using lora_timing.configureE22_spends[OF w_hal, of x1] t1 assms(2,3) by fastforce
  have "spendsW micros (4083000 + 24 * (9 * eps) + 9 * eps) x1 (snd (hal_nowMs (EspLoraHal ?W) x2))"
    using spends_trans[OF s w_hal_quick(5)] .
  from dog_spends[OF d1 this, of 4995000] assms(2)
  have "dogOk micros 4995000 (snd (hal_nowMs (EspLoraHal ?W) x2))" by simp
  moreover have "dogOk micros 4995000 x1" by (rule dog_mono[OF d1]) (use assms(2) in simp)
  ultimately show ?thesis using i c by (simp add: vTask_LoRa_start_def Let_def case_prod_beta)
qed

lemma txSend_dog:
  assumes "dogOk micros k (tx_esp c)" "k + 13 * eps \<le> 5000000"
  shows "dogOk micros (k + 12 * eps) (tx_esp (snd (LoRa_txSend (watched micros esp) pkt rep c)))"
proof -
  let ?W = "watched micros esp"
  define x1 where "x1 = snd (hal_isAuxReady (EspLoraHal ?W) (tx_esp c))"
  define x2 where "x2 = snd (uart_get_tx_buffer_free_size ?W x1)"
  define line :: "u8 list" where "line = map of_char (telLine (TEL_sequenceCounter (tx_tel c)) (sanitizeForUplink pkt))"
  define x3 where "x3 = snd (uart_write_bytes ?W line x2)"
  have l: "length line \<le> 120" using telLine_length[of "TEL_sequenceCounter (tx_tel c)" "sanitizeForUplink pkt"] by (simp add: line_def)
  have f: "hal_feedWatchdog (EspLoraHal ?W) = esp_task_wdt_reset ?W" by (simp add: EspLoraHal_def)
  have d1: "dogOk micros (k + 9 * eps) x1"
    unfolding x1_def by (rule dog_spends[OF assms(1) w_hal_quick(2)]) simp
  have d2: "dogOk micros (k + 10 * eps) x2" unfolding x2_def by (rule dog_spends[OF d1 w_quick(4)]) simp
  have d3: "dogOk micros (k + 11 * eps) x3"
    unfolding x3_def by (rule dog_spends[OF d2 w_sending[OF l]]) simp
  have d4: "dogOk micros 0 (esp_task_wdt_reset ?W x3)" "dogOk micros 0 (esp_task_wdt_reset ?W x2)"
    by (rule dog_feed[OF d3], use assms(2) in simp, rule dog_feed[OF d2], use assms(2) in simp)
  have m: "dogOk micros (k + 12 * eps) y" if "dogOk micros j y" "j \<le> k + 11 * eps" for j y using dog_mono[OF that(1)] that(2) by simp
  show ?thesis
    using m[OF d1] m[OF d2] m[OF d3] m[OF d4(1)] m[OF d4(2)]
    by (auto simp: LoRa_txSend_def Let_def case_prod_beta x1_def[symmetric] x2_def[symmetric] line_def[symmetric]
        x3_def[symmetric] sendStatus_eq f split: option.split)
qed

lemma txTick_dog:
  assumes "loraInv st" "dogOk micros k (tx_esp (lo_tx st))" "k + 25 * eps \<le> 5000000"
  shows "dogOk micros (k + 24 * eps) (tx_esp (lo_tx (txTick (watched micros esp) queue st)))"
proof -
  let ?W = "watched micros esp"
  have m: "dogOk micros (k + 24 * eps) y" if "dogOk micros j y" "j \<le> k + 24 * eps" for j y using dog_mono[OF that] .
  obtain n b1 c1 where r: "replayLoop (LoRa_txSend ?W) 1 (lo_buffer st) (lo_tx st) = (n, b1, c1)" by (metis prod_cases3)
  have "c1 = lo_tx st \<or> (\<exists>p. c1 = snd (LoRa_txSend ?W p True (lo_tx st)))"
  proof (cases "ob_peek (lo_buffer st)")
    case (Some p)
    then show ?thesis using r by (cases "LoRa_txSend ?W p True (lo_tx st)"; cases "fst (LoRa_txSend ?W p True (lo_tx st))")
        (auto intro!: exI[of _ p])
  qed (use r in simp)
  then have d1: "dogOk micros (k + 12 * eps) (tx_esp c1)"
    using txSend_dog[OF assms(2)] assms(3) dog_mono[OF assms(2)] by auto
  have d2: "dogOk micros (k + 24 * eps) (tx_esp (snd (LoRa_txSend ?W p False c1)))" for p
    using txSend_dog[OF d1] assms(3) by (simp add: algebra_simps)
  have "dogOk micros (k + 9 * eps) (snd (hal_nowMs (EspLoraHal ?W) (tx_esp (lo_tx st))))"
    by (rule dog_spends[OF assms(2) w_hal_quick(5)]) simp
  then show ?thesis
    using assms(1) r d1 d2 m[OF assms(2)] m[OF d1] m
    by (auto simp: txTick_def onTxTickLinkUp_def loraInv_def Let_def case_prod_beta split: option.split)
qed

lemma rxLoop_dog:
  "dogOk micros k x \<Longrightarrow> dogOk micros (k + length bytes * (9 * eps)) (snd (rxLoop (watched micros esp) bytes (s, x)))"
proof (induction bytes arbitrary: k s x)
  case (Cons b bytes)
  have "dogOk micros (k + 9 * eps) (snd (hal_nowMs (EspLoraHal (watched micros esp)) x))"
    by (rule dog_spends[OF Cons.prems w_hal_quick(5)]) simp
  from Cons.IH[OF this] show ?case by (simp add: case_prod_beta algebra_simps)
qed simp

lemma cycle_dog:
  assumes "loraInv st" "dogOk micros 4995000 (tx_esp (lo_tx st))" "eps \<le> 3500"
  shows "dogOk micros 4995000 (tx_esp (lo_tx (vTask_LoRa_cycle (watched micros esp) queue st)))"
proof -
  let ?W = "watched micros esp"
  define x0 where "x0 = esp_task_wdt_reset ?W (tx_esp (lo_tx st))"
  define rd where "rd = hal_uartRead (EspLoraHal ?W) 4 LORA_RX_TIMEOUT_MS x0"
  define bytes where "bytes = take (nat (fst (fst rd))) (snd (fst rd))"
  define rx where "rx = rxLoop ?W bytes (lo_sched st, snd rd)"
  define nw where "nw = hal_nowMs (EspLoraHal ?W) (snd rx)"
  define tk where "tk = xTaskGetTickCount ?W (snd nw)"
  define st1 where "st1 = st\<lparr> lo_sched := snd (updateLink (fst nw) (lo_bootMs st) (lo_buffer st) (fst rx)),
    lo_tx := (lo_tx st)\<lparr> tx_esp := snd tk \<rparr> \<rparr>"
  define st2 where "st2 = (if fst tk - lo_lastTelemetryTick st \<ge> pdMS_TO_TICKS LORA_TX_PERIOD_MS
    then txTick ?W queue (st1\<lparr> lo_lastTelemetryTick := fst tk \<rparr>) else st1)"
  have st': "tx_esp (lo_tx (vTask_LoRa_cycle ?W queue st)) = vTaskDelay ?W (pdMS_TO_TICKS 10) (tx_esp (lo_tx st2))"
    unfolding vTask_LoRa_cycle_def Let_def case_prod_beta
    by (simp add: st2_def st1_def tk_def nw_def rx_def bytes_def rd_def x0_def)
  have d0: "dogOk micros 0 x0" unfolding x0_def by (rule dog_feed[OF assms(2)]) (use assms(3) in simp)
  have d1: "dogOk micros (20000 + 9 * eps) (snd rd)"
    unfolding rd_def by (rule dog_spends[OF d0 lora_timing.reading[OF w_hal]]) (simp_all add: LORA_RX_TIMEOUT_MS_def)
  have "length (snd (fst rd)) \<le> 4"
    using esp_timing.read_count[OF watched_timing] by (simp add: rd_def EspLoraHal_def)
  then have b: "length bytes * (9 * eps) \<le> 36 * eps" by (simp add: bytes_def min.coboundedI1)
  have d2: "dogOk micros (20000 + 45 * eps) (snd rx)"
    unfolding rx_def by (rule dog_mono[OF rxLoop_dog[OF d1]]) (use b in simp)
  have d3: "dogOk micros (20000 + 54 * eps) (snd nw)" unfolding nw_def by (rule dog_spends[OF d2 w_hal_quick(5)]) simp
  have d4: "dogOk micros (20000 + 55 * eps) (snd tk)" unfolding tk_def by (rule dog_spends[OF d3 w_quick(10)]) simp
  have i1: "loraInv (st1\<lparr> lo_lastTelemetryTick := t \<rparr>)" for t
    using assms(1) rxLoop_only[of ?W bytes "lo_sched st" "snd rd"] by (auto simp: loraInv_def st1_def rx_def updateLink_keeps)
  have "dogOk micros (20000 + 55 * eps) (tx_esp (lo_tx (st1\<lparr> lo_lastTelemetryTick := t \<rparr>)))" for t
    using d4 by (simp add: st1_def)
  note d5 = txTick_dog[OF i1 this]
  have d6: "dogOk micros (20000 + 79 * eps) (tx_esp (lo_tx st2))"
  proof (cases "fst tk - lo_lastTelemetryTick st \<ge> pdMS_TO_TICKS LORA_TX_PERIOD_MS")
    case True
    then show ?thesis using d5[of queue "fst tk"] assms(3) by (simp add: st2_def add.commute)
  next
    case False
    then show ?thesis using dog_mono[OF d4] by (simp add: st2_def st1_def)
  qed
  have t: "unat (pdMS_TO_TICKS 10) = 1" by (simp add: pdMS_TO_TICKS_def cfg)
  show ?thesis unfolding st' by (rule dog_spends[OF d6 w_delaying]) (use assms(3) in \<open>simp add: t\<close>)
qed

end

text \<open>The watchdog stays quiet: no two resets more than five seconds apart, and none overdue.\<close>

definition dogQuiet :: "('e \<Rightarrow> nat) \<Rightarrow> 'e \<times> nat \<times> nat \<Rightarrow> bool" where
  "dogQuiet micros x \<longleftrightarrow> (case x of (e, fed, longest) \<Rightarrow>
     longest \<le> CONFIG_ESP_TASK_WDT_TIMEOUT_S * 1000000 \<and> micros e \<le> fed + CONFIG_ESP_TASK_WDT_TIMEOUT_S * 1000000)"

lemma dogOk_quiet: "dogOk micros 4995000 x \<Longrightarrow> dogQuiet micros x"
  by (auto simp: dogOk_def dogQuiet_def CONFIG_ESP_TASK_WDT_TIMEOUT_S_def split: prod.splits)

text \<open>C24. The LoRa task never trips the task watchdog: if a driver call has an overhead of at most
  3.5 ms beyond its timeout or delay, then from the registration of the task, through up to five
  attempts at the UART and the configuration of the radio with all its waits at their limits, and
  in every later cycle, no five seconds pass without a reset; and the start always returns.\<close>

theorem lora_watchdog_fed:
  assumes "esp_timing esp micros view eps" "eps \<le> 3500" "micros e + 20000000 < 2 ^ 63"
  shows "\<exists>t. vTask_LoRa_start (watched micros esp) ob_boot n (e, micros e, 0) = Some t \<and>
    (case t of
       LoraDisabled x \<Rightarrow> dogQuiet micros x
     | LoraRunning st \<Rightarrow> dogQuiet micros (tx_esp (lo_tx (fold (vTask_LoRa_cycle (watched micros esp)) qs st))))"
proof -
  let ?W = "watched micros esp"
  have "dogOk micros 0 (e, micros e, 0)" by (simp add: dogOk_def)
  then obtain t where t: "vTask_LoRa_start ?W ob_boot n (e, micros e, 0) = Some t"
    and d: "case t of LoraDisabled y \<Rightarrow> dogOk micros 4995000 y | LoraRunning st \<Rightarrow> dogOk micros 4995000 (tx_esp (lo_tx st))"
    using esp_timing.start_dog[OF assms(1) _ assms(2), of "(e, micros e, 0)" ob_boot n] assms(3) by auto
  have "loraInv st \<Longrightarrow> dogOk micros 4995000 (tx_esp (lo_tx st)) \<Longrightarrow>
      dogOk micros 4995000 (tx_esp (lo_tx (fold (vTask_LoRa_cycle ?W) qs st)))" for st
  proof (induction qs arbitrary: st)
    case (Cons q qs)
    show ?case using Cons.IH[OF cycle_inv[OF Cons.prems(1)] esp_timing.cycle_dog[OF assms(1) Cons.prems assms(2)]] by simp
  qed simp
  moreover have "loraInv st" if "t = LoraRunning st" for st
    using lora_task_invariant[OF lora_boot[of ?W n "(e, micros e, 0)" st]] t that by simp
  ultimately show ?thesis using t d by (cases t) (auto intro!: dogOk_quiet)
qed

interpretation bench_timing: esp_timing benchEsp be_us "\<lambda>_. ()" 0
  by unfold_locales (auto simp: benchEsp_def spends_def takes_def word_less_nat_alt)

theorem lora_watchdog_fed_witness:
  "\<exists>t. vTask_LoRa_start (watched be_us benchEsp) ob_boot 0 (benchFresh, 0, 0) = Some t \<and>
    (case t of
       LoraDisabled x \<Rightarrow> dogQuiet be_us x
     | LoraRunning st \<Rightarrow>
         dogQuiet be_us (tx_esp (lo_tx (fold (vTask_LoRa_cycle (watched be_us benchEsp)) (replicate 1000 (Some None)) st))))"
proof -
  have "be_us benchFresh = 0" by (simp add: benchFresh_def)
  then show ?thesis using lora_watchdog_fed[OF bench_timing.esp_timing_axioms, of benchFresh 0 "replicate 1000 (Some None)"] by simp
qed

end
