(* ===== verification/Lora_Radio.thy ===== *)
theory Lora_Radio
  imports Lora_Watchdog
begin

text \<open>
  The boot configuration on a working module, from the pin upwards: AUX is low while the module
  is busy, the busy times after a change of mode and after a write are bounded (locale
  \<open>esp_aux\<close>), and then both waits of the configuration see AUX high in time, so the module ends
  configured.  The level of AUX that counts as ready is decided in \<open>EspLoraHal\<close>.
\<close>

lemma confirm_no_timeout: "confirmOutcome n buf \<noteq> FLASH_TIMEOUT"
  using confirm_cases[of n buf] by auto

subsection \<open>AUX behind the hardware layer\<close>

text \<open>\<open>busyUntil\<close> is the time from which on the module holds AUX high.  Waiting, polling and reading
  never put it off; a change of mode and a write do, by a bounded time from now.\<close>

locale lora_aux = lora_timing hal micros view eps
  for hal :: "'h ILoraHal" and micros :: "'h \<Rightarrow> nat" and view :: "'h \<Rightarrow> 'v" and eps :: nat +
  fixes busyUntil :: "'h \<Rightarrow> nat" and modeBusy :: nat and writeBusy :: nat
  assumes aux_high: "busyUntil h \<le> micros h \<Longrightarrow> fst (hal_isAuxReady hal h)"
    and busy_kept: "busyUntil (snd (hal_isAuxReady hal h)) \<le> busyUntil h"
      "busyUntil (snd (hal_nowMs hal h)) \<le> busyUntil h" "busyUntil (hal_delayMs hal ms h) \<le> busyUntil h"
      "busyUntil (hal_uartFlush hal h) \<le> busyUntil h" "busyUntil (snd (hal_uartRead hal n t h)) \<le> busyUntil h"
      "busyUntil (hal_hexDumpE22 hal buf len h) \<le> busyUntil h"
    and busy_mode: "busyUntil (hal_setModePins hal m0 m1 h) \<le> max (busyUntil h) (micros h + modeBusy)"
    and busy_write: "busyUntil (snd (hal_uartWrite hal bytes h)) \<le> max (busyUntil h) (micros h + writeBusy)"
begin

lemma auxLoop_sees_high:
  assumes "s \<le> micros h" "micros h \<le> b + 10000 + 2 * eps" "busyUntil h \<le> b" "s \<le> b"
    and "b + 11000 + 3 * eps \<le> s + unat timeoutMs * 1000" "s + unat timeoutMs * 1000 < 2 ^ 63"
  shows "\<exists>h'. auxLoop hal (of_nat (s div 1000)) timeoutMs h = Some (True, h')"
  using assms(1-3)
proof (induction "b + 10000 + 2 * eps - micros h" arbitrary: h rule: less_induct)
  case less
  define h1 where "h1 = snd (hal_nowMs hal h)"
  define h2 where "h2 = snd (hal_isAuxReady hal h1)"
  define h3 where "h3 = hal_delayMs hal 10 h2"
  note sp = spends_def takes_def
  have t1: "micros h \<le> micros h1" "micros h1 \<le> micros h + eps" using quick(5)[of h] by (simp_all add: h1_def sp)
  have t2: "micros h1 \<le> micros h2" "micros h2 \<le> micros h1 + eps" using quick(2)[of h1] by (simp_all add: h2_def sp)
  have t3: "micros h2 < micros h3" "micros h3 \<le> micros h2 + 10000 + eps"
    using delay_passes[of 10 h2] delay[of 10 h2] by (simp_all add: h3_def sp)
  have b1: "busyUntil h1 \<le> b" using busy_kept(2)[of h] less.prems by (simp add: h1_def)
  then have b3: "busyUntil h3 \<le> b"
    using busy_kept(1)[of h1] busy_kept(3)[of 10 h2] by (simp add: h2_def h3_def)
  have now: "fst (hal_nowMs hal h) = of_nat (micros h1 div 1000)"
    using now_value[of h] t1 less.prems assms(5,6) by (simp add: h1_def)
  have "micros h1 + 1000 \<le> s + unat timeoutMs * 1000" using t1 less.prems assms(5) by linarith
  then have "(micros h1 + 1000) div 1000 \<le> (s + unat timeoutMs * 1000) div 1000" by (rule div_le_mono)
  then have "micros h1 div 1000 < s div 1000 + unat timeoutMs" by simp
  moreover have "s \<le> micros h1" "micros h1 < 2 ^ 63" using t1 less.prems assms(5,6) by linarith+
  ultimately have test: "fst (hal_nowMs hal h) - of_nat (s div 1000) < ucast timeoutMs"
    unfolding now by (simp add: elapsed)
  show ?case
  proof (cases "fst (hal_isAuxReady hal h1)")
    case True
    then have "auxLoop hal (of_nat (s div 1000)) timeoutMs h = Some (True, h2)"
      using test by (subst auxLoop.simps) (simp add: case_prod_beta h1_def h2_def)
    then show ?thesis by blast
  next
    case False
    then have low: "micros h1 < b" using aux_high[of h1] b1 by linarith
    have "auxLoop hal (of_nat (s div 1000)) timeoutMs h = auxLoop hal (of_nat (s div 1000)) timeoutMs h3"
      using test False by (subst auxLoop.simps) (simp add: case_prod_beta h1_def h2_def h3_def)
    moreover have "\<exists>h'. auxLoop hal (of_nat (s div 1000)) timeoutMs h3 = Some (True, h')"
      by (rule less.hyps) (use t1 t2 t3 b3 low less.prems in linarith)+
    ultimately show ?thesis by simp
  qed
qed

lemma wait_sees_high:
  assumes "busyUntil h \<le> micros h + slack" "slack + 11000 + 3 * eps \<le> unat timeoutMs * 1000"
    and "micros h + eps + unat timeoutMs * 1000 < 2 ^ 63"
  shows "\<exists>h'. waitAuxReady hal timeoutMs h = Some (True, h')"
proof -
  define h1 where "h1 = snd (hal_nowMs hal h)"
  have t: "micros h \<le> micros h1" "micros h1 \<le> micros h + eps"
    using quick(5)[of h] by (simp_all add: h1_def spends_def takes_def)
  have b: "busyUntil h1 \<le> micros h1 + slack" using busy_kept(2)[of h] assms(1) t by (simp add: h1_def)
  have "fst (hal_nowMs hal h) = of_nat (micros h1 div 1000)"
    using now_value[of h] t assms(3) by (simp add: h1_def)
  then have "waitAuxReady hal timeoutMs h = auxLoop hal (of_nat (micros h1 div 1000)) timeoutMs h1"
    by (simp add: waitAuxReady_def case_prod_beta h1_def)
  then show ?thesis
    using auxLoop_sees_high[of "micros h1" h1 "micros h1 + slack" timeoutMs] t b assms(2,3) by simp
qed

text \<open>How far the busy time lies ahead never grows by waiting.\<close>

definition ahead :: "nat \<Rightarrow> 'h \<Rightarrow> bool" where
  "ahead n h \<longleftrightarrow> busyUntil h \<le> micros h + n"

lemma ahead_kept:
  "ahead n h \<Longrightarrow> ahead n (snd (hal_isAuxReady hal h))" "ahead n h \<Longrightarrow> ahead n (snd (hal_nowMs hal h))"
  "ahead n h \<Longrightarrow> ms \<le> 10000 \<Longrightarrow> ahead n (hal_delayMs hal ms h)" "ahead n h \<Longrightarrow> ahead n (hal_uartFlush hal h)"
  "ahead n h \<Longrightarrow> t \<le> 10000 \<Longrightarrow> ahead n (snd (hal_uartRead hal k t h))"
  "ahead n h \<Longrightarrow> ahead n (hal_hexDumpE22 hal buf len h)"
  using busy_kept(1,2,4)[of h] busy_kept(3)[of ms h] busy_kept(5)[of k t h] busy_kept(6)[of buf len h]
    quick(2,4,5)[of h] quick(6)[of h buf len] delay[of ms h] reading[of t h k]
  by (auto simp: ahead_def spends_def takes_def)

lemma ahead_written:
  "ahead n h \<Longrightarrow> n \<le> k \<Longrightarrow> writeBusy \<le> k \<Longrightarrow> length bytes \<le> 120 \<Longrightarrow> ahead k (snd (hal_uartWrite hal bytes h))"
  using busy_write[of bytes h] sending[of bytes h] by (auto simp: ahead_def spends_def takes_def)

lemma ahead_mode: "ahead n h \<Longrightarrow> n \<le> k \<Longrightarrow> modeBusy \<le> k \<Longrightarrow> ahead k (hal_setModePins hal m0 m1 h)"
  using busy_mode[of m0 m1 h] quick(1)[of h m0 m1] by (auto simp: ahead_def spends_def takes_def)

lemma wait_ahead:
  assumes "ahead n h" "waitAuxReady hal timeoutMs h = Some (r, h')"
  shows "ahead n h'"
proof -
  let ?P = "\<lambda>hal' t0 timeoutMs x y. hal' = hal \<longrightarrow> ahead n x \<longrightarrow> ahead n (snd y)"
  have "?P hal (fst (hal_nowMs hal h)) timeoutMs (snd (hal_nowMs hal h)) (r, h')"
  proof (rule auxLoop.raw_induct[where P = ?P])
    fix f hal' t0 timeoutMs x and y :: "bool \<times> 'h"
    assume IH: "\<And>hal' t0 timeoutMs x y. f hal' t0 timeoutMs x = Some y \<Longrightarrow> ?P hal' t0 timeoutMs x y"
      and eq: "(case hal_nowMs hal' x of (now, h) \<Rightarrow>
        if now - t0 < ucast timeoutMs
        then (case hal_isAuxReady hal' h of (ready, h) \<Rightarrow>
               if ready then Some (True, h) else f hal' t0 timeoutMs (hal_delayMs hal' 10 h))
        else Some (False, h)) = Some y"
    show "?P hal' t0 timeoutMs x y"
      using eq by (auto simp: case_prod_beta ahead_kept split: if_splits dest!: IH)
  next
    show "auxLoop hal (fst (hal_nowMs hal h)) timeoutMs (snd (hal_nowMs hal h)) = Some (r, h')"
      using assms(2) by (simp add: waitAuxReady_def case_prod_beta)
  qed
  then show ?thesis using ahead_kept(2)[OF assms(1)] by simp
qed

text \<open>The wait for the flash sees AUX high, whatever the registers were.\<close>

lemma writeContract_sees_flash:
  assumes "ahead 1500000 h" "writeBusy \<le> 1500000" "eps \<le> 31500" "micros h + 5000000 < 2 ^ 63"
    and "writeContract hal h = Some (r, h')"
  shows "r \<noteq> FLASH_TIMEOUT"
proof -
  let ?cmd = "e22_buildWriteCommand E22_CONTRACT_REGS (Some 12)"
  define h1 where "h1 = hal_uartFlush hal h"
  define h2 where "h2 = snd (hal_uartWrite hal ?cmd h1)"
  define h3 where "h3 = hal_delayMs hal 50 h2"
  have l: "length ?cmd \<le> 120" by (simp add: writeCommand regBlock_def)
  have a: "ahead 1500000 h3"
    unfolding h3_def h2_def h1_def
    by (rule ahead_kept(3)[OF ahead_written[OF ahead_kept(4)[OF assms(1)] _ assms(2) l]]) simp_all
  have "spends micros view (50000 + 3 * eps) h h3"
    unfolding h3_def h2_def h1_def
    by (rule spends_le[OF spends_trans[OF quick(4) spends_trans[OF sending[OF l] delay]]]) simp_all
  then have "\<exists>h4. waitAuxReady hal LORA_AUX_CFG_TIMEOUT_MS h3 = Some (True, h4)"
    using wait_sees_high[of h3 1500000 LORA_AUX_CFG_TIMEOUT_MS] a assms(3,4)
    by (simp add: ahead_def spends_def takes_def LORA_AUX_CFG_TIMEOUT_MS_def)
  then show ?thesis
    using assms(5) confirm_no_timeout
    by (auto simp: writeContract_def Let_def h1_def[symmetric] h2_def[symmetric] h3_def[symmetric] case_prod_beta)
qed

lemma session_sees_flash:
  assumes "ahead 1500000 h" "writeBusy \<le> 1500000" "eps \<le> 31500" "micros h + 6000000 < 2 ^ 63"
    and "configSession hal h = Some (r, h')"
  shows "r \<noteq> FLASH_TIMEOUT"
proof -
  define h2 where "h2 = snd (hal_uartWrite hal (e22_buildReadAllCommand (Some 3)) (hal_uartFlush hal h))"
  define rr where "rr = readReply hal 12 h2"
  define h4 where "h4 = hal_hexDumpE22 hal (fst (snd rr)) (if fst rr > 0 then fst rr else 0) (snd (snd rr))"
  have s: "configSession hal h =
      (if configMatches (fst rr) (fst (snd rr)) then Some (cryptRefresh hal h4) else writeContract hal h4)"
    by (simp add: configSession_def Let_def case_prod_beta rr_def h2_def h4_def)
  have l: "length (e22_buildReadAllCommand (Some 3)) \<le> 120" by (simp add: readCommand)
  have a2: "ahead 1500000 h2"
    unfolding h2_def by (rule ahead_written[OF ahead_kept(4)[OF assms(1)] _ assms(2) l]) simp
  have "ahead 1500000 (snd (snd rr))"
    using ahead_kept(5)[OF a2, of LORA_CFG_READ_TIMEOUT_MS 12]
    by (simp add: rr_def readReply_def case_prod_beta LORA_CFG_READ_TIMEOUT_MS_def)
  then have a4: "ahead 1500000 h4" unfolding h4_def by (rule ahead_kept(6))
  have "spends micros view (500000 + 4 * eps) h h4"
    unfolding h4_def rr_def h2_def by (rule exchange_spends[OF l])
  then have m: "micros h4 + 5000000 < 2 ^ 63" using assms(3,4) by (simp add: spends_def takes_def)
  have "fst (cryptRefresh hal h4) \<noteq> FLASH_TIMEOUT"
    by (simp add: cryptRefresh_def Let_def case_prod_beta)
  then show ?thesis
    using assms(5) s writeContract_sees_flash[OF a4 assms(2,3) m] by (auto split: if_splits)
qed

lemma configureE22_waits:
  assumes "busyUntil h \<le> micros h + 300000" "modeBusy \<le> 300000" "writeBusy \<le> 1500000" "eps \<le> 31500"
    and "micros h + 10000000 < 2 ^ 63"
  shows "\<exists>h1 r h'. waitAuxReady hal LORA_AUX_MODE_TIMEOUT_MS (hal_setModePins hal 0 1 h) = Some (True, h1) \<and>
    configureE22 hal h = Some (r, h') \<and> r \<noteq> FLASH_TIMEOUT"
proof -
  define h0 where "h0 = hal_setModePins hal 0 1 h"
  have a0: "ahead 300000 h0"
    unfolding h0_def by (rule ahead_mode[of 300000]) (use assms(1,2) in \<open>simp_all add: ahead_def\<close>)
  have t0: "micros h0 \<le> micros h + eps" using quick(1)[of h 0 1] by (simp add: h0_def spends_def takes_def)
  obtain h1 where w: "waitAuxReady hal LORA_AUX_MODE_TIMEOUT_MS h0 = Some (True, h1)"
    using wait_sees_high[of h0 300000 LORA_AUX_MODE_TIMEOUT_MS] a0 t0 assms(4,5)
    by (auto simp: ahead_def LORA_AUX_MODE_TIMEOUT_MS_def)
  have a1: "ahead 1500000 h1" using wait_ahead[OF a0 w] by (simp add: ahead_def)
  have "micros h1 \<le> micros h0 + 511000 + 4 * eps"
    using wait_spends[of h0 LORA_AUX_MODE_TIMEOUT_MS] w t0 assms(4,5)
    by (auto simp: spends_def takes_def LORA_AUX_MODE_TIMEOUT_MS_def)
  then have m: "micros h1 + 6000000 < 2 ^ 63" using t0 assms(4,5) by simp
  obtain r h' where c: "configureE22 hal h = Some (r, h')"
    using configureE22_spends[of h] assms(4,5) by fastforce
  then obtain h2 where "configSession hal h1 = Some (r, h2)"
    using w by (auto simp: configureE22_def Let_def cfg h0_def split: option.splits)
  then have "r \<noteq> FLASH_TIMEOUT" using session_sees_flash[OF a1 assms(3,4) m] by simp
  then show ?thesis using w c by (auto simp: h0_def)
qed

end

subsection \<open>The pin\<close>

locale esp_aux = esp_timing esp micros view eps
  for esp :: "'e EspLora" and micros :: "'e \<Rightarrow> nat" and view :: "'e \<Rightarrow> 'v" and eps :: nat +
  fixes busyUntil :: "'e \<Rightarrow> nat" and modeBusy :: nat and writeBusy :: nat
  assumes pin_high: "busyUntil e \<le> micros e \<Longrightarrow> fst (gpio_get_level esp LORA_AUX_PIN e) = 1"
    and pin_kept: "busyUntil (snd (gpio_get_level esp LORA_AUX_PIN e)) \<le> busyUntil e"
      "busyUntil (snd (esp_timer_get_time esp e)) \<le> busyUntil e" "busyUntil (vTaskDelay esp ticks e) \<le> busyUntil e"
      "busyUntil (uart_flush esp e) \<le> busyUntil e" "busyUntil (snd (uart_read_bytes esp n t e)) \<le> busyUntil e"
      "busyUntil (esp_printf esp text e) \<le> busyUntil e"
    and pin_mode: "pin = LORA_M0_PIN \<or> pin = LORA_M1_PIN \<Longrightarrow>
      busyUntil (gpio_set_level esp pin v e) \<le> max (busyUntil e) (micros e + modeBusy)"
    and pin_write: "busyUntil (snd (uart_write_bytes esp bytes e)) \<le> max (busyUntil e) (micros e + writeBusy)"

sublocale esp_aux \<subseteq> aux: lora_aux "EspLoraHal esp" micros view "9 * eps" busyUntil "modeBusy + eps" writeBusy
proof
  fix e m0 m1 n t ms buf len bytes
  show "busyUntil e \<le> micros e \<Longrightarrow> fst (hal_isAuxReady (EspLoraHal esp) e)"
    using pin_high[of e] by (simp add: EspLoraHal_def case_prod_beta LORA_AUX_READY_LEVEL_def)
  show "busyUntil (snd (hal_isAuxReady (EspLoraHal esp) e)) \<le> busyUntil e"
    using pin_kept(1)[of e] by (simp add: EspLoraHal_def case_prod_beta)
  show "busyUntil (snd (hal_nowMs (EspLoraHal esp) e)) \<le> busyUntil e"
    using pin_kept(2)[of e] by (simp add: EspLoraHal_def EspLoraHal_nowMs_def case_prod_beta)
  show "busyUntil (hal_delayMs (EspLoraHal esp) ms e) \<le> busyUntil e" by (simp add: EspLoraHal_def pin_kept)
  show "busyUntil (hal_uartFlush (EspLoraHal esp) e) \<le> busyUntil e" by (simp add: EspLoraHal_def pin_kept)
  show "busyUntil (snd (hal_uartRead (EspLoraHal esp) n t e)) \<le> busyUntil e" by (simp add: EspLoraHal_def pin_kept)
  have "busyUntil (fold (\<lambda>x e. esp_printf esp (f x) e) xs e) \<le> busyUntil e" for xs :: "nat list" and f e
    by (induction xs arbitrary: e) (auto intro: order_trans[OF _ pin_kept(6)])
  then show "busyUntil (hal_hexDumpE22 (EspLoraHal esp) buf len e) \<le> busyUntil e"
    by (simp add: EspLoraHal_def E22_logHexDump_def)
  let ?e = "gpio_set_level esp LORA_M0_PIN m0 e"
  have "busyUntil (gpio_set_level esp LORA_M1_PIN m1 ?e) \<le> max (busyUntil ?e) (micros ?e + modeBusy)"
    "busyUntil ?e \<le> max (busyUntil e) (micros e + modeBusy)" "micros ?e \<le> micros e + eps"
    using pin_mode[of LORA_M1_PIN m1 ?e] pin_mode[of LORA_M0_PIN m0 e] esp_quick(1)[of e LORA_M0_PIN m0]
    by (auto simp: spends_def takes_def)
  then show "busyUntil (hal_setModePins (EspLoraHal esp) m0 m1 e) \<le> max (busyUntil e) (micros e + (modeBusy + eps))"
    by (simp add: EspLoraHal_def)
  show "busyUntil (snd (hal_uartWrite (EspLoraHal esp) bytes e)) \<le> max (busyUntil e) (micros e + writeBusy)"
    using pin_write by (simp add: EspLoraHal_def)
qed

context esp_aux begin

lemma hal_aux: "lora_aux (EspLoraHal esp) micros view (9 * eps) busyUntil (modeBusy + eps) writeBusy" by unfold_locales

end

text \<open>C22. The boot configuration works on a working module: if the module obeys its command
  protocol, holds AUX high from at most 0.29 s after a change of mode and 1.5 s after a
  write, is not busy for more than 0.3 s when the configuration starts, and a driver call has an
  overhead of at most 3.5 ms, then the configuration returns with the module in normal mode,
  the agreed registers and the agreed key in force.  It reports a verified write and has
  written the flash once if the registers differed, and otherwise has only refreshed the key.\<close>

theorem radio_configured:
  assumes "esp_aux esp micros view eps busyUntil modeBusy writeBusy"
    and "e22_radio (EspLoraHal esp) radio answer"
    and "eps \<le> 3500" "modeBusy \<le> 290000" "writeBusy \<le> 1500000"
    and "busyUntil e \<le> micros e + 300000" "micros e + 10000000 < 2 ^ 63"
  shows "\<exists>e'. configureE22 (EspLoraHal esp) e =
      Some (if rRegs (radio e) = E22_CONTRACT_REGS then CRYPT_WRITTEN else WRITE_VERIFIED, e') \<and>
    radio e' = \<lparr> rMode = (0, 0), rRegs = E22_CONTRACT_REGS, rKey = E22_CRYPT_KEY,
      rFlash = rFlash (radio e) + (if rRegs (radio e) = E22_CONTRACT_REGS then 0 else 1) \<rparr>"
proof -
  obtain e1 r e' where w: "waitAuxReady (EspLoraHal esp) LORA_AUX_MODE_TIMEOUT_MS
      (hal_setModePins (EspLoraHal esp) 0 1 e) = Some (True, e1)"
    and c: "configureE22 (EspLoraHal esp) e = Some (r, e')" and r: "r \<noteq> FLASH_TIMEOUT"
    using lora_aux.configureE22_waits[OF esp_aux.hal_aux[OF assms(1)], of e] assms(3-7) by auto
  show ?thesis using e22_radio.configureE22_radio[OF assms(2) w c] c r by auto
qed

text \<open>The bench module: busy for three ticks at the start and for twenty after a block write.\<close>

definition benchBusy :: "Bench \<Rightarrow> nat" where
  "benchBusy s = (if be_busy s = 0 then 0 else be_us s + be_busy s * 10000)"

lemma benchCommand_busy: "be_busy (benchCommand bytes s) = be_busy s \<or> be_busy (benchCommand bytes s) = 20"
  by (simp add: benchCommand_def Let_def)

interpretation bench_aux: esp_aux benchEsp be_us "\<lambda>_. ()" 0 benchBusy 0 200000
proof
  fix e :: Bench and bytes ticks
  show "benchBusy (snd (uart_write_bytes benchEsp bytes e)) \<le> max (benchBusy e) (be_us e + 200000)"
    using benchCommand_busy[of bytes e] by (auto simp: benchEsp_def benchBusy_def)
  show "benchBusy (vTaskDelay benchEsp ticks e) \<le> benchBusy e"
    by (auto simp: benchEsp_def benchBusy_def diff_mult_distrib)
qed (auto simp: benchEsp_def benchBusy_def split: if_splits)

theorem radio_configured_witness:
  "\<exists>e'. configureE22 (EspLoraHal benchEsp) benchFresh = Some (WRITE_VERIFIED, e') \<and>
    be_radio e' = \<lparr> rMode = (0, 0), rRegs = E22_CONTRACT_REGS, rKey = E22_CRYPT_KEY, rFlash = 1 \<rparr>"
proof -
  have n: "rRegs (be_radio benchFresh) \<noteq> E22_CONTRACT_REGS" "rFlash (be_radio benchFresh) = 0"
    "benchBusy benchFresh \<le> be_us benchFresh + 300000" "be_us benchFresh + 10000000 < 2 ^ 63"
    by (simp_all add: benchFresh_def E22_CONTRACT_REGS_def benchBusy_def)
  then show ?thesis
    using radio_configured[OF bench_aux.esp_aux_axioms bench_radio.e22_radio_axioms, of benchFresh] by simp
qed

end
