(* ===== verification/Hmi_Ema.thy ===== *)
theory Hmi_Ema
  imports Vehicle_Speed
begin

text \<open>
  The smoothing of the needles in \<open>vTask_HMI_Display\<close> (src/main.cpp): an exponential moving
  average in single precision.  Here operands may be negative and a decaying average reaches
  the subnormal numbers, so the rounding respects the least exponent \<open>- 149\<close>.  Every operation
  of the source is rounded on its own; a compiler that fuses a product with the sum would
  round once less.
\<close>

definition round32 :: "int \<Rightarrow> int \<Rightarrow> F32" where
  "round32 m e =
    (let k = nat (max (int (bitlen \<bar>m\<bar>) - 24) (- 149 - e))
     in if k = 0 then F32 m e else F32 (sgn m * nearest k \<bar>m\<bar>) (e + int k))"

definition f32_fmul :: "F32 \<Rightarrow> F32 \<Rightarrow> F32" where
  "f32_fmul a b = round32 (f_man a * f_man b) (f_exp a + f_exp b)"

definition f32_fadd :: "F32 \<Rightarrow> F32 \<Rightarrow> F32" where
  "f32_fadd a b =
    (let e = min (f_exp a) (f_exp b)
     in round32 (f_man a * 2 ^ nat (f_exp a - e) + f_man b * 2 ^ nat (f_exp b - e)) e)"

definition f32_neg :: "F32 \<Rightarrow> F32" where
  "f32_neg a = F32 (- f_man a) (f_exp a)"

text \<open>The conversion to \<open>uint16_t\<close> truncates; outside the range of the type its behaviour is
  undefined.\<close>

definition f32_to_u16 :: "F32 \<Rightarrow> u16 option" where
  "f32_to_u16 a = (let t = sgn (f_man a) * f32_trunc (F32 \<bar>f_man a\<bar> (f_exp a))
                   in if 0 \<le> t \<and> t < 65536 then Some (of_int t) else None)"

definition HMI_EMA_ALPHA :: F32 where "HMI_EMA_ALPHA = F32 10066330 (- 26)"

definition HMI_ema :: "F32 \<Rightarrow> F32 \<Rightarrow> F32" where
  "HMI_ema target smoothed =
    f32_fadd (f32_fmul HMI_EMA_ALPHA target) (f32_fmul (f32_fadd (F32 1 0) (f32_neg HMI_EMA_ALPHA)) smoothed)"

subsection \<open>Rounding\<close>

lemma round32_round24: "0 \<le> m \<Longrightarrow> - 149 \<le> e \<Longrightarrow> round32 m e = round24 m e"
  by (cases "m = 0") (auto simp: round32_def round24_def nearest_def Let_def nat_diff_distrib' max_def bitlen.simps[of 0])

lemma round32_nonneg: "0 \<le> m \<Longrightarrow> 0 \<le> f_man (round32 m e)"
  using nearest_nonneg[of m] by (cases "m = 0") (auto simp: round32_def Let_def)

lemma round32_error:
  assumes "0 \<le> m"
  shows "\<bar>f32_val (round32 m e) - real_of_int m * 2 powi e\<bar> \<le> real_of_int m * 2 powi e / 2 ^ 24 + 2 powi (- 150)"
proof (cases "m = 0 \<or> nat (max (int (bitlen m) - 24) (- 149 - e)) = 0")
  case True
  then show ?thesis using assms by (auto simp: round32_def f32_val_def Let_def)
next
  case False
  define k where "k = nat (max (int (bitlen m) - 24) (- 149 - e))"
  have k: "0 < k" "0 < m" using False assms unfolding k_def by (auto simp: less_max_iff_disj)
  have v: "f32_val (round32 m e) = real_of_int (nearest k m) * 2 ^ k * 2 powi e"
    using k by (simp add: round32_def f32_val_def k_def[symmetric] power_int_add Let_def)
  have "\<bar>real_of_int (nearest k m) * 2 ^ k - real_of_int m\<bar> * 2 powi e \<le> 2 ^ (k - 1) * 2 powi e"
    using nearest_error[OF k(1), of m] by (intro mult_right_mono) simp_all
  then have "\<bar>f32_val (round32 m e) - real_of_int m * 2 powi e\<bar> \<le> 2 ^ (k - 1) * 2 powi e"
    by (simp add: v abs_mult flip: left_diff_distrib)
  moreover have "2 ^ (k - 1) * 2 powi e \<le> real_of_int m * 2 powi e / 2 ^ 24 + 2 powi (- 150)"
  proof (cases "int (bitlen m) - 24 \<ge> - 149 - e")
    case True
    then have "k = bitlen m - 24" using k(1) by (simp add: k_def nat_diff_distrib')
    then have "2 ^ (k - 1) \<le> real_of_int m / 2 ^ 24" using bitlen_half_unit[of m] k(1) by simp
    then have "2 ^ (k - 1) * 2 powi e \<le> real_of_int m / 2 ^ 24 * 2 powi e" by (intro mult_right_mono) simp_all
    also have "\<dots> = real_of_int m * 2 powi e / 2 ^ 24" by simp
    finally show ?thesis by (rule order_trans) simp
  next
    case False
    then have "int (k - 1) + e = - 150" using k(1) by (simp add: k_def)
    then have "(2::real) ^ (k - 1) * 2 powi e = 2 powi (- 150)"
      by (metis power_int_add power_int_of_nat zero_neq_numeral)
    moreover have "0 \<le> real_of_int m * 2 powi e / 2 ^ 24" using k(2) by simp
    ultimately show ?thesis by (simp only: le_add_same_cancel2)
  qed
  ultimately show ?thesis by linarith
qed

text \<open>Operands at most 65537 large: every operation is within one part in \<open>2 ^ 24\<close>, up to a millionth.\<close>

lemma tiny: "(2::real) powi (- 150) \<le> 1 / 10 ^ 6"
  by (simp add: power_int_minus field_simps)

lemma fmul_close:
  assumes "0 \<le> f_man a" "0 \<le> f_man b"
  shows "0 \<le> f_man (f32_fmul a b)"
    and "\<bar>f32_val (f32_fmul a b) - f32_val a * f32_val b\<bar> \<le> f32_val a * f32_val b / 2 ^ 24 + 1 / 10 ^ 6"
proof -
  have p: "0 \<le> f_man a * f_man b" using assms by simp
  then show "0 \<le> f_man (f32_fmul a b)" by (simp add: f32_fmul_def round32_nonneg)
  have "real_of_int (f_man a * f_man b) * 2 powi (f_exp a + f_exp b) = f32_val a * f32_val b"
    by (simp add: f32_val_def power_int_add)
  with round32_error[OF p, of "f_exp a + f_exp b"] tiny
  show "\<bar>f32_val (f32_fmul a b) - f32_val a * f32_val b\<bar> \<le> f32_val a * f32_val b / 2 ^ 24 + 1 / 10 ^ 6"
    by (simp add: f32_fmul_def)
qed

lemma fadd_close:
  assumes "0 \<le> f_man a" "0 \<le> f_man b"
  shows "0 \<le> f_man (f32_fadd a b)"
    and "\<bar>f32_val (f32_fadd a b) - (f32_val a + f32_val b)\<bar> \<le> (f32_val a + f32_val b) / 2 ^ 24 + 1 / 10 ^ 6"
proof -
  define e where "e = min (f_exp a) (f_exp b)"
  define m where "m = f_man a * 2 ^ nat (f_exp a - e) + f_man b * 2 ^ nat (f_exp b - e)"
  have p: "0 \<le> m" using assms by (simp add: m_def)
  have r: "f32_fadd a b = round32 m e" by (simp add: f32_fadd_def m_def e_def Let_def)
  show "0 \<le> f_man (f32_fadd a b)" using p by (simp add: r round32_nonneg)
  have "(2::real) ^ nat (f_exp x - e) * 2 powi e = 2 powi f_exp x" if "e \<le> f_exp x" for x
    using that by (simp flip: power_int_add power_int_of_nat)
  from this[of a] this[of b] have "real_of_int m * 2 powi e = f32_val a + f32_val b"
    by (simp add: m_def f32_val_def e_def distrib_right mult.assoc)
  with round32_error[OF p, of e] tiny
  show "\<bar>f32_val (f32_fadd a b) - (f32_val a + f32_val b)\<bar> \<le> (f32_val a + f32_val b) / 2 ^ 24 + 1 / 10 ^ 6"
    by (simp add: r)
qed

lemma ema_arith:
  fixes x y z t s :: real
  assumes "\<bar>x - 10066330 / 67108864 * t\<bar> \<le> 10066330 / 67108864 * t / 16777216 + 1 / 1000000"
    and "\<bar>y - 14260634 / 16777216 * s\<bar> \<le> 14260634 / 16777216 * s / 16777216 + 1 / 1000000"
    and "\<bar>z - (x + y)\<bar> \<le> (x + y) / 16777216 + 1 / 1000000" "0 \<le> t" "0 \<le> s" "t \<le> 65536" "s \<le> 65537"
  shows "\<bar>z - (15 / 100 * t + (85 / 100) * s)\<bar> \<le> 3 / 100"
proof -
  have "\<bar>x - 15 / 100 * t\<bar> \<le> 2 / 1000" "\<bar>y - (85 / 100) * s\<bar> \<le> 8 / 1000" using assms(1,2,4-7) by linarith+
  note this[THEN abs_le_D1] this[THEN abs_le_D2] assms(3)[THEN abs_le_D1] assms(3)[THEN abs_le_D2]
  note b = this
  have "x + y \<le> 65540" using b(1,2) assms(6,7) by linarith
  then have c: "(x + y) / 16777216 \<le> 4 / 1000" by simp
  have "z \<le> x + y + 5 / 1000" "x + y - 5 / 1000 \<le> z" using b(5,6) c by linarith+
  then show ?thesis using b(1-4) by (intro abs_leI) linarith+
qed

lemma ema_beta: "f32_fadd (F32 1 0) (f32_neg HMI_EMA_ALPHA) = F32 14260634 (- 24)"
  by code_simp

lemma ema_close:
  assumes "0 \<le> f_man t" "0 \<le> f_man s" "f32_val t \<le> 65536" "f32_val s \<le> 65537"
  shows "0 \<le> f_man (HMI_ema t s)"
    and "\<bar>f32_val (HMI_ema t s) - (15 / 100 * f32_val t + (85 / 100) * f32_val s)\<bar> \<le> 3 / 100"
proof -
  let ?x = "f32_fmul HMI_EMA_ALPHA t" and ?y = "f32_fmul (F32 14260634 (- 24)) s"
  have x: "0 \<le> f_man ?x" "\<bar>f32_val ?x - f32_val HMI_EMA_ALPHA * f32_val t\<bar> \<le> f32_val HMI_EMA_ALPHA * f32_val t / 2 ^ 24 + 1 / 10 ^ 6"
    using fmul_close[of HMI_EMA_ALPHA t] assms by (simp_all add: HMI_EMA_ALPHA_def)
  have y: "0 \<le> f_man ?y" "\<bar>f32_val ?y - f32_val (F32 14260634 (- 24)) * f32_val s\<bar> \<le> f32_val (F32 14260634 (- 24)) * f32_val s / 2 ^ 24 + 1 / 10 ^ 6"
    using fmul_close[of "F32 14260634 (- 24)" s] assms by simp_all
  have z: "HMI_ema t s = f32_fadd ?x ?y" by (simp add: HMI_ema_def ema_beta)
  show "0 \<le> f_man (HMI_ema t s)" using fadd_close(1)[OF x(1) y(1)] by (simp add: z)
  have v: "f32_val HMI_EMA_ALPHA = 10066330 / 67108864" "f32_val (F32 14260634 (- 24)) = 14260634 / 16777216"
    by (simp_all add: f32_val_cases HMI_EMA_ALPHA_def)
  have p: "0 \<le> f32_val t" "0 \<le> f32_val s" using assms by (simp_all add: f32_val_def)
  have "(2::real) ^ 24 = 16777216" "(10::real) ^ 6 = 1000000" by simp_all
  from ema_arith[OF x(2)[unfolded v this] y(2)[unfolded v this] fadd_close(2)[OF x(1) y(1), unfolded this] p assms(3,4)]
  show "\<bar>f32_val (HMI_ema t s) - (15 / 100 * f32_val t + (85 / 100) * f32_val s)\<bar> \<le> 3 / 100" by (simp add: z)
qed

subsection \<open>Bounds and convergence\<close>

text \<open>The average never leaves the range of its inputs by more than a fifth, and approaches a
  constant input by the factor 0.85 per step up to the same fifth.\<close>

lemma ema_bound:
  assumes "0 \<le> f_man t" "0 \<le> f_man s" "f32_val t \<le> M" "f32_val s \<le> M + 2 / 10" "M \<le> 65536"
  shows "0 \<le> f_man (HMI_ema t s) \<and> f32_val (HMI_ema t s) \<le> M + 2 / 10"
proof -
  have "f32_val t \<le> 65536" "f32_val s \<le> 65537" using assms(3-5) by linarith+
  note c = ema_close[OF assms(1,2) this]
  have "f32_val (HMI_ema t s) \<le> 15 / 100 * f32_val t + (85 / 100) * f32_val s + 3 / 100" using c(2) unfolding abs_le_iff by linarith
  then show ?thesis using c(1) assms(3,4) by linarith
qed

lemma ema_settles:
  assumes "0 \<le> f_man t" "0 \<le> f_man s" "f32_val t \<le> 65535" "f32_val s \<le> 65536"
  shows "0 \<le> f_man ((HMI_ema t ^^ n) s) \<and> f32_val ((HMI_ema t ^^ n) s) \<le> 65537 \<and>
    \<bar>f32_val ((HMI_ema t ^^ n) s) - f32_val t\<bar> \<le> (85 / 100) ^ n * 65536 + 2 / 10"
proof (induction n)
  case 0
  have "0 \<le> f32_val t" "0 \<le> f32_val s" using assms by (simp_all add: f32_val_def)
  then show ?case using assms by (auto simp: abs_if)
next
  case (Suc n)
  define r where "r = (HMI_ema t ^^ n) s"
  have r: "0 \<le> f_man r" "f32_val r \<le> 65537" "\<bar>f32_val r - f32_val t\<bar> \<le> (85 / 100) ^ n * 65536 + 2 / 10" using Suc by (simp_all add: r_def)
  have "f32_val t \<le> 65536" using assms(3) by simp
  note c = ema_close[OF assms(1) r(1) this r(2)]
  have "\<bar>f32_val (HMI_ema t r) - f32_val t\<bar> \<le> (85 / 100) * \<bar>f32_val r - f32_val t\<bar> + 3 / 100"
    using c(2)[THEN abs_le_D1] c(2)[THEN abs_le_D2] by (cases "f32_val t \<le> f32_val r"; intro abs_leI; simp add: field_simps)
  also have "\<dots> \<le> (85 / 100) * ((85 / 100) ^ n * 65536 + 2 / 10) + 3 / 100"
    using r(3) by (intro add_right_mono mult_left_mono) simp_all
  also have "\<dots> \<le> (85 / 100) ^ Suc n * 65536 + 2 / 10" by (simp add: field_simps)
  finally have "\<bar>f32_val (HMI_ema t r) - f32_val t\<bar> \<le> (85 / 100) ^ Suc n * 65536 + 2 / 10" .
  moreover have "f32_val (HMI_ema t r) \<le> 65537"
    using c(2) r(2) assms(3) unfolding abs_le_iff by linarith
  ultimately show ?case using c(1) by (simp add: r_def)
qed

lemma decay:
  assumes "100 \<le> n" shows "(85 / 100 :: real) ^ n * 65536 \<le> 2 / 10"
proof -
  have "(85 / 100 :: real) ^ n \<le> (85 / 100) ^ 100" using assms by (intro power_decreasing) simp_all
  moreover have "(85 / 100 :: real) ^ 100 * 65536 \<le> 2 / 10" by (simp add: power_divide)
  ultimately show ?thesis by linarith
qed

lemma to_u16:
  assumes "0 \<le> f_man a" "f32_val a < 65536"
  shows "f32_to_u16 a = Some (of_int \<lfloor>f32_val a\<rfloor>) \<and> uint (of_int \<lfloor>f32_val a\<rfloor> :: u16) = \<lfloor>f32_val a\<rfloor>"
proof -
  have "0 \<le> f32_val a" using assms by (simp add: f32_val_def)
  then have fl: "0 \<le> \<lfloor>f32_val a\<rfloor>" "\<lfloor>f32_val a\<rfloor> < 65536" using assms(2) by (simp_all add: floor_less_iff)
  have "sgn (f_man a) * f32_trunc (F32 \<bar>f_man a\<bar> (f_exp a)) = \<lfloor>f32_val a\<rfloor>"
    using assms(1) by (cases "f_man a = 0"; cases a) (auto simp: f32_trunc_floor f32_val_def)
  then show ?thesis using fl by (simp add: f32_to_u16_def uint_word_of_int_eq take_bit_int_eq_self)
qed

end
