(* ===== verification/Bms_Nextion.thy ===== *)
theory Bms_Nextion
  imports Bms_Algo Display_Hmi
begin

text \<open>
  The cell page of the display: lib/BmsAlgo/BmsNextionPacket.cpp.  One call compares the
  data with a cache of what was sent and emits commands for what differs, in a fixed order,
  within a budget of bytes; what does not fit stays for a later call.  The emit callback
  works on a context \<open>'c\<close>; a null callback is \<open>None\<close>.  In the firmware it writes the
  command and the end bytes to the UART of the display (src/main.cpp).
\<close>

definition cellBarFill :: "u16 \<Rightarrow> u8" where
  "cellBarFill mv =
    (if mv = 65535 then 0
     else if mv \<le> BMS_SOC_EMPTY_MV then 0
     else if mv \<ge> BMS_SOC_FULL_MV then 100
     else ucast ((ucast (mv - BMS_SOC_EMPTY_MV) * 100 :: u32) div ucast (BMS_SOC_FULL_MV - BMS_SOC_EMPTY_MV)))"

record BmsNextionCache =
  bc_cellVoltageMv :: "u16 list"
  bc_cellBarFill :: "u8 list"
  bc_balanceFlag :: "u8 list"
  bc_cellMaxMv :: u16
  bc_cellMinMv :: u16
  bc_warningLevel :: u8
  bc_isWarm :: bool

definition BmsNextionCache_new :: BmsNextionCache where
  "BmsNextionCache_new = \<lparr> bc_cellVoltageMv = replicate BMS_CELL_COUNT 0, bc_cellBarFill = replicate BMS_CELL_COUNT 255,
     bc_balanceFlag = replicate BMS_CELL_COUNT 255, bc_cellMaxMv = 0, bc_cellMinMv = 0, bc_warningLevel = 255,
     bc_isWarm = False \<rparr>"

definition BMS_emitNextionCommand :: "string \<Rightarrow> string list \<Rightarrow> string list" where
  "BMS_emitNextionCommand cmd uart = HMI_sendEndBytes (uart @ [cmd])"

text \<open>The locals the lambda captures by reference.\<close>

record 'c Emitter =
  em_ctx :: 'c
  currentBytes :: nat
  budgetExhausted :: bool

definition indexedName :: "string \<Rightarrow> int \<Rightarrow> string" where
  "indexedName compName index = (if index \<ge> 0 then compName @ show_nat (nat index) else compName)"

definition emitAndCheck :: "(string \<Rightarrow> 'c \<Rightarrow> 'c) \<Rightarrow> nat \<Rightarrow> string \<Rightarrow> int \<Rightarrow> int \<Rightarrow> 'c Emitter \<Rightarrow> bool \<times> 'c Emitter" where
  "emitAndCheck emit maxBytes compName index v em =
    (if budgetExhausted em then (False, em)
     else let (cmd, len) = snprintf 40 (numText (indexedName compName index) v)
          in if len \<le> 0 then (False, em)
             else if currentBytes em + nat len + 3 > maxBytes then (False, em\<lparr> budgetExhausted := True \<rparr>)
             else (True, em\<lparr> em_ctx := emit (take (nat len) cmd) (em_ctx em), currentBytes := currentBytes em + nat len + 3 \<rparr>))"

text \<open>One round of the loops over cells, bars and balancing flags: the cached array, the flag
  \<open>allProcessed\<close> and the emitter.\<close>

definition arrayStep :: "(string \<Rightarrow> 'c \<Rightarrow> 'c) \<Rightarrow> nat \<Rightarrow> string \<Rightarrow> bool \<Rightarrow> 'a::len word list \<Rightarrow> nat \<Rightarrow>
    'a word list \<times> bool \<times> 'c Emitter \<Rightarrow> 'a word list \<times> bool \<times> 'c Emitter" where
  "arrayStep emit maxBytes compName force vals i st =
    (case st of (cached, allProcessed, em) \<Rightarrow>
       if force \<or> vals ! i \<noteq> cached ! i
       then (case emitAndCheck emit maxBytes compName (int i) (uint (vals ! i)) em of
               (False, em) \<Rightarrow> (cached, False, em)
             | (True, em) \<Rightarrow> (cached[i := vals ! i], allProcessed, em))
       else st)"

definition arrayLoop :: "(string \<Rightarrow> 'c \<Rightarrow> 'c) \<Rightarrow> nat \<Rightarrow> string \<Rightarrow> bool \<Rightarrow> 'a::len word list \<Rightarrow>
    'a word list \<times> bool \<times> 'c Emitter \<Rightarrow> 'a word list \<times> bool \<times> 'c Emitter" where
  "arrayLoop emit maxBytes compName force vals st = fold (arrayStep emit maxBytes compName force vals) [0..<BMS_CELL_COUNT] st"

definition summaryStep :: "(string \<Rightarrow> 'c \<Rightarrow> 'c) \<Rightarrow> nat \<Rightarrow> string \<Rightarrow> bool \<Rightarrow> 'a::len word \<Rightarrow>
    'a word \<times> bool \<times> 'c Emitter \<Rightarrow> 'a word \<times> bool \<times> 'c Emitter" where
  "summaryStep emit maxBytes compName force v st =
    (case st of (cached, allProcessed, em) \<Rightarrow>
       if force \<or> v \<noteq> cached
       then (case emitAndCheck emit maxBytes compName (- 1) (uint v) em of
               (True, em) \<Rightarrow> (v, allProcessed, em)
             | (False, em) \<Rightarrow> (cached, False, em))
       else st)"

definition cellPass :: "(string \<Rightarrow> 'c \<Rightarrow> 'c) \<Rightarrow> nat \<Rightarrow> bool \<Rightarrow> BmsComputed \<Rightarrow> BmsPackData \<Rightarrow>
    BmsNextionCache \<times> bool \<times> 'c Emitter \<Rightarrow> BmsNextionCache \<times> bool \<times> 'c Emitter" where
  "cellPass emit maxBytes force bc raw st =
    (case st of (cache, allProcessed, em) \<Rightarrow>
       let (cells, allProcessed, em) = arrayLoop emit maxBytes ''cell'' force (cellVoltageMv raw)
                                         (bc_cellVoltageMv cache, allProcessed, em);
           (bars, allProcessed, em) = arrayLoop emit maxBytes ''j'' force (map cellBarFill (cellVoltageMv raw))
                                         (bc_cellBarFill cache, allProcessed, em);
           (bals, allProcessed, em) = arrayLoop emit maxBytes ''bal'' force (map (\<lambda>f. if f then 1 else 0) (balanceFlag bc))
                                         (bc_balanceFlag cache, allProcessed, em)
       in (cache\<lparr> bc_cellVoltageMv := cells, bc_cellBarFill := bars, bc_balanceFlag := bals \<rparr>, allProcessed, em))"

definition summaryPass :: "(string \<Rightarrow> 'c \<Rightarrow> 'c) \<Rightarrow> nat \<Rightarrow> bool \<Rightarrow> BmsComputed \<Rightarrow>
    BmsNextionCache \<times> bool \<times> 'c Emitter \<Rightarrow> BmsNextionCache \<times> bool \<times> 'c Emitter" where
  "summaryPass emit maxBytes force bc st =
    (case st of (cache, allProcessed, em) \<Rightarrow>
       let (cmax, allProcessed, em) = summaryStep emit maxBytes ''cellmax'' force (cellMaxMv bc) (bc_cellMaxMv cache, allProcessed, em);
           (cmin, allProcessed, em) = summaryStep emit maxBytes ''cellmin'' force (cellMinMv bc) (bc_cellMinMv cache, allProcessed, em);
           (warn, allProcessed, em) = summaryStep emit maxBytes ''warn'' force (warningLevel bc) (bc_warningLevel cache, allProcessed, em)
       in (cache\<lparr> bc_cellMaxMv := cmax, bc_cellMinMv := cmin, bc_warningLevel := warn \<rparr>, allProcessed, em))"

definition buildBmsNextionCommands :: "(string \<Rightarrow> 'c \<Rightarrow> 'c) option \<Rightarrow> BmsComputed \<Rightarrow> BmsPackData \<Rightarrow> bool \<Rightarrow> bool \<Rightarrow> nat \<Rightarrow>
    BmsNextionCache \<times> 'c \<Rightarrow> BmsNextionCache \<times> 'c" where
  "buildBmsNextionCommands emitCb bc raw forceFullRefresh updateCells maxBytes cc =
    (case emitCb of
       None \<Rightarrow> cc
     | Some emit \<Rightarrow>
         (let (cache, ctx) = cc;
              em = \<lparr> em_ctx = ctx, currentBytes = 0, budgetExhausted = False \<rparr>;
              mustProcessCells = (updateCells \<or> forceFullRefresh \<or> \<not> bc_isWarm cache);
              st = (cache, True, em);
              st = (if mustProcessCells then cellPass emit maxBytes forceFullRefresh bc raw st else st);
              (cache, allProcessed, em) = summaryPass emit maxBytes forceFullRefresh bc st;
              cache = (if allProcessed then cache\<lparr> bc_isWarm := True \<rparr> else cache)
          in (cache, em_ctx em)))"

text \<open>The default of the last parameter.\<close>

definition BMS_NEXTION_MAX_BYTES :: nat where "BMS_NEXTION_MAX_BYTES = 90"

text \<open>A call with a callback: the cells if they are due, then the summary.\<close>

definition firstPass :: "(string \<Rightarrow> 'c \<Rightarrow> 'c) \<Rightarrow> nat \<Rightarrow> bool \<Rightarrow> bool \<Rightarrow> BmsComputed \<Rightarrow> BmsPackData \<Rightarrow>
    BmsNextionCache \<Rightarrow> 'c \<Rightarrow> BmsNextionCache \<times> bool \<times> 'c Emitter" where
  "firstPass emit maxBytes force updateCells bc raw cache ctx =
    (let st = (cache, True, \<lparr> em_ctx = ctx, currentBytes = 0, budgetExhausted = False \<rparr>)
     in if updateCells \<or> force \<or> \<not> bc_isWarm cache then cellPass emit maxBytes force bc raw st else st)"

lemma build_eq:
  "buildBmsNextionCommands (Some emit) bc raw force updateCells maxBytes (cache, ctx) =
    (let r = summaryPass emit maxBytes force bc (firstPass emit maxBytes force updateCells bc raw cache ctx)
     in (if fst (snd r) then (fst r)\<lparr> bc_isWarm := True \<rparr> else fst r, em_ctx (snd (snd r))))"
  by (simp add: buildBmsNextionCommands_def firstPass_def Let_def case_prod_beta)

subsection \<open>One command\<close>

lemma show_nat_bounds: "n < 100 \<Longrightarrow> 1 \<le> length (show_nat n) \<and> length (show_nat n) \<le> 2"
  using length_show_nat[of n 2] show_nat_digits[of n] by (cases "show_nat n") auto

lemma show_u16: "1 \<le> length (show_int (uint w)) \<and> length (show_int (uint w)) \<le> 5" if "uint w < 65536"
  using that length_show_pos[of "uint w" 5] last_show_int(3)[of "uint w"] by (cases "show_int (uint w)") auto

definition cost :: "string \<Rightarrow> int \<Rightarrow> int \<Rightarrow> nat" where
  "cost compName index v = length (numText (indexedName compName index) v) + 3"

lemma emit_eq:
  assumes "cost compName index v < 40"
  shows "emitAndCheck emit maxBytes compName index v em =
    (if budgetExhausted em then (False, em)
     else if currentBytes em + cost compName index v > maxBytes then (False, em\<lparr> budgetExhausted := True \<rparr>)
     else (True, em\<lparr> em_ctx := emit (numText (indexedName compName index) v) (em_ctx em),
                     currentBytes := currentBytes em + cost compName index v \<rparr>))"
  using assms by (auto simp: emitAndCheck_def snprintf_def cost_def numText_def)

lemma cost_indexed:
  "i < 100 \<Longrightarrow> uint (w :: 'a::len word) < 65536 \<Longrightarrow> length n \<le> 4 \<Longrightarrow> n \<noteq> [] \<Longrightarrow>
     9 \<le> cost n (int i) (uint w) \<and> cost n (int i) (uint w) \<le> 20"
  using show_nat_bounds[of i] show_u16[of w] by (cases n) (auto simp: cost_def numText_def indexedName_def)

lemma cost_plain:
  "uint (w :: 'a::len word) < 65536 \<Longrightarrow> 4 \<le> length n \<Longrightarrow> length n \<le> 7 \<Longrightarrow>
     9 \<le> cost n (- 1) (uint w) \<and> cost n (- 1) (uint w) \<le> 20"
  using show_u16[of w] by (auto simp: cost_def numText_def indexedName_def)

subsection \<open>The budget\<close>

text \<open>What the loops keep: the bytes written since \<open>u0\<close> are counted and within the budget.\<close>

definition withinBudget :: "nat \<Rightarrow> nat \<Rightarrow> string list Emitter \<Rightarrow> bool" where
  "withinBudget u0 maxBytes em \<longleftrightarrow> length (concat (em_ctx em)) = u0 + currentBytes em \<and> currentBytes em \<le> maxBytes"

lemma withinBudget_start: "withinBudget (length (concat u)) m \<lparr> em_ctx = u, currentBytes = 0, budgetExhausted = False \<rparr>"
  by (simp add: withinBudget_def)

lemma emit_budget:
  assumes "withinBudget u0 maxBytes em" "cost n i v < 40"
  shows "withinBudget u0 maxBytes (snd (emitAndCheck BMS_emitNextionCommand maxBytes n i v em))"
  using assms
  by (auto simp: emit_eq withinBudget_def BMS_emitNextionCommand_def HMI_sendEndBytes_def) (simp add: cost_def)

lemma arrayLoop_budget:
  assumes "withinBudget u0 maxBytes (snd (snd st))" "length n \<le> 4" "n \<noteq> []" "\<And>w :: 'a::len word. uint w < 65536"
  shows "withinBudget u0 maxBytes (snd (snd (arrayLoop BMS_emitNextionCommand maxBytes n force (vals :: 'a word list) st)))"
proof -
  have "withinBudget u0 maxBytes (snd (snd st)) \<Longrightarrow> list_all (\<lambda>i. i < 100) is \<Longrightarrow>
      withinBudget u0 maxBytes (snd (snd (fold (arrayStep BMS_emitNextionCommand maxBytes n force vals) is st)))" for "is" st
  proof (induction "is" arbitrary: st)
    case (Cons i is')
    obtain cached ok em where st: "st = (cached, ok, em)" by (metis prod_cases3)
    have "cost n (int i) (uint (vals ! i)) < 40" using cost_indexed[of i "vals ! i" n] Cons.prems assms by auto
    from emit_budget[OF _ this, of u0 maxBytes em] have
      "withinBudget u0 maxBytes (snd (snd (arrayStep BMS_emitNextionCommand maxBytes n force vals i st)))"
      using Cons.prems by (auto simp: arrayStep_def st split: prod.split bool.split)
    then show ?case using Cons by simp
  qed simp
  then show ?thesis using assms(1) by (simp add: arrayLoop_def list_all_iff)
qed

lemma summaryStep_budget:
  assumes "withinBudget u0 maxBytes (snd (snd st))" "4 \<le> length n" "length n \<le> 7" "uint (v :: 'a::len word) < 65536"
  shows "withinBudget u0 maxBytes (snd (snd (summaryStep BMS_emitNextionCommand maxBytes n force v st)))"
proof -
  obtain cached ok em where st: "st = (cached, ok, em)" by (metis prod_cases3)
  have "cost n (- 1) (uint v) < 40" using cost_plain[of v n] assms by auto
  from emit_budget[OF _ this, of u0 maxBytes em] show ?thesis
    using assms(1) by (auto simp: summaryStep_def st split: prod.split bool.split)
qed

lemma uint_16: "uint (w :: u16) < 65536" and uint_8: "uint (b :: u8) < 65536"
  using uint_lt2p[of w] uint_lt2p[of b] by simp_all

lemma cellPass_budget:
  "withinBudget u0 maxBytes (snd (snd st)) \<Longrightarrow>
     withinBudget u0 maxBytes (snd (snd (cellPass BMS_emitNextionCommand maxBytes force bc raw st)))"
  unfolding cellPass_def by (auto simp: case_prod_beta Let_def uint_16 uint_8 intro!: arrayLoop_budget)

lemma summaryPass_budget:
  "withinBudget u0 maxBytes (snd (snd st)) \<Longrightarrow>
     withinBudget u0 maxBytes (snd (snd (summaryPass BMS_emitNextionCommand maxBytes force bc st)))"
  unfolding summaryPass_def by (auto simp: case_prod_beta Let_def uint_16 uint_8 intro!: summaryStep_budget)

text \<open>The display link is never flooded: whatever the data and the cache, one call writes at
  most the budget of bytes to the display, end bytes included, and with the default of 90
  bytes that is less than the 96 that 9600 baud carry in the 100 ms cycle of the task.\<close>

lemma nextion_budget:
  "length (concat (snd (buildBmsNextionCommands (Some BMS_emitNextionCommand) bc raw force updateCells maxBytes (cache, uart))))
     \<le> length (concat uart) + maxBytes \<and>
   BMS_NEXTION_MAX_BYTES * 10 * 10 < 9600"
proof -
  have "withinBudget (length (concat uart)) maxBytes
      (snd (snd (firstPass BMS_emitNextionCommand maxBytes force updateCells bc raw cache uart)))"
    unfolding firstPass_def Let_def
    by (cases "updateCells \<or> force \<or> \<not> bc_isWarm cache") (auto intro!: cellPass_budget simp: withinBudget_start)
  from summaryPass_budget[OF this, of force bc] show ?thesis
    by (simp add: build_eq Let_def withinBudget_def BMS_NEXTION_MAX_BYTES_def)
qed

subsection \<open>Progress\<close>

text \<open>The entries of an array that still differ, and what a pass over it achieves: it emits for
  each entry it brings up to date, each at a cost of at most 20 bytes, and stops only when
  fewer than 20 bytes of the budget are left.\<close>

definition stale :: "nat list \<Rightarrow> 'a::len word list \<Rightarrow> 'a word list \<Rightarrow> nat" where
  "stale ids vals cached = length (filter (\<lambda>i. vals ! i \<noteq> cached ! i) ids)"

definition advance :: "nat \<Rightarrow> 'c Emitter \<Rightarrow> 'c Emitter \<Rightarrow> nat \<Rightarrow> bool" where
  "advance maxBytes em em' n \<longleftrightarrow> currentBytes em \<le> currentBytes em' \<and> currentBytes em' \<le> currentBytes em + 20 * n \<and>
     (budgetExhausted em \<longrightarrow> budgetExhausted em' \<and> n = 0) \<and>
     (budgetExhausted em' \<longrightarrow> budgetExhausted em \<or> maxBytes < currentBytes em' + 20)"

lemma advance_trans: "advance m em em1 n \<Longrightarrow> advance m em1 em2 k \<Longrightarrow> advance m em em2 (n + k)"
  by (auto simp: advance_def)

lemma emit_advance:
  assumes "cost n i v \<le> 20"
  shows "case emitAndCheck emit maxBytes n i v em of
    (ok, em') \<Rightarrow> advance maxBytes em em' (if ok then 1 else 0) \<and> (ok \<longleftrightarrow> \<not> budgetExhausted em')"
  using assms by (auto simp: emit_eq advance_def)

lemma stale_other: "i \<notin> set ids \<Longrightarrow> stale ids vals (cached[i := x]) = stale ids vals cached"
  unfolding stale_def by (intro arg_cong[where f = length] filter_cong refl) (metis nth_list_update_neq)

lemma arrayStep_advance:
  assumes "i < length cached" "cost n (int i) (uint (vals ! i)) \<le> 20" "i \<notin> set ids"
    and "arrayStep emit maxBytes n False vals i (cached, ok, em) = (cached', ok', em')"
  shows "length cached' = length cached \<and>
    stale (i # ids) vals cached' \<le> stale (i # ids) vals cached \<and>
    stale ids vals cached' = stale ids vals cached \<and>
    advance maxBytes em em' (stale (i # ids) vals cached - stale (i # ids) vals cached') \<and>
    (ok' \<longleftrightarrow> ok \<and> vals ! i = cached' ! i) \<and> (vals ! i \<noteq> cached' ! i \<longrightarrow> budgetExhausted em')"
proof (cases "vals ! i = cached ! i")
  case True
  then show ?thesis using assms(4) by (auto simp: arrayStep_def advance_def)
next
  case False
  obtain sent em1 where e: "emitAndCheck emit maxBytes n (int i) (uint (vals ! i)) em = (sent, em1)" by fastforce
  have a: "advance maxBytes em em1 (if sent then 1 else 0)" "sent \<longleftrightarrow> \<not> budgetExhausted em1"
    using emit_advance[OF assms(2), where emit = emit and maxBytes = maxBytes and em = em] e by auto
  show ?thesis
    using assms(1,3,4) a False e stale_other[of i ids vals cached "vals ! i"]
    by (cases sent) (auto simp: arrayStep_def stale_def)
qed

lemma fold_advance:
  assumes "distinct ids" "\<forall>i \<in> set ids. i < length cached \<and> cost n (int i) (uint (vals ! i)) \<le> 20"
    and "fold (arrayStep emit maxBytes n False vals) ids (cached, ok, em) = (cached', ok', em')"
  shows "length cached' = length cached \<and> stale ids vals cached' \<le> stale ids vals cached \<and>
    advance maxBytes em em' (stale ids vals cached - stale ids vals cached') \<and>
    (ok' \<longleftrightarrow> ok \<and> stale ids vals cached' = 0) \<and> (0 < stale ids vals cached' \<longrightarrow> budgetExhausted em') \<and>
    (\<forall>i. i \<notin> set ids \<longrightarrow> cached' ! i = cached ! i)"
  using assms
proof (induction ids arbitrary: cached ok em)
  case Nil
  then show ?case by (simp add: stale_def advance_def)
next
  case (Cons i ids)
  obtain c1 ok1 em1 where s: "arrayStep emit maxBytes n False vals i (cached, ok, em) = (c1, ok1, em1)" by (metis prod_cases3)
  note st = arrayStep_advance[OF _ _ _ s, of ids]
  have r: "fold (arrayStep emit maxBytes n False vals) ids (c1, ok1, em1) = (cached', ok', em')" using Cons.prems(3) s by simp
  have len: "length c1 = length cached" using st Cons.prems by simp
  note ih = Cons.IH[OF _ _ r]
  have ih': "stale ids vals cached' \<le> stale ids vals c1" "advance maxBytes em1 em' (stale ids vals c1 - stale ids vals cached')"
      "ok' \<longleftrightarrow> ok1 \<and> stale ids vals cached' = 0" "0 < stale ids vals cached' \<longrightarrow> budgetExhausted em'"
      "\<forall>j. j \<notin> set ids \<longrightarrow> cached' ! j = c1 ! j" "length cached' = length c1"
    using ih Cons.prems(1,2) len by auto
  have i: "cached' ! i = c1 ! i" using ih'(5) Cons.prems(1) by simp
  have st': "stale (i # ids) vals c1 \<le> stale (i # ids) vals cached" "stale ids vals c1 = stale ids vals cached"
      "advance maxBytes em em1 (stale (i # ids) vals cached - stale (i # ids) vals c1)" "ok1 \<longleftrightarrow> ok \<and> vals ! i = c1 ! i"
      "vals ! i \<noteq> c1 ! i \<longrightarrow> budgetExhausted em1"
    using st Cons.prems(1,2) by auto
  have k: "stale (i # ids) vals cached - stale (i # ids) vals cached' =
      (stale (i # ids) vals cached - stale (i # ids) vals c1) + (stale ids vals c1 - stale ids vals cached')"
    using st'(1,2) ih'(1) i by (auto simp: stale_def)
  have ex: "budgetExhausted em1 \<longrightarrow> budgetExhausted em'" using ih'(2) by (auto simp: advance_def)
  have other: "\<forall>j. j \<notin> set (i # ids) \<longrightarrow> cached' ! j = cached ! j"
    using ih'(5) s by (auto simp: arrayStep_def split: if_splits prod.splits bool.splits)
  show ?case
    unfolding k using advance_trans[OF st'(3) ih'(2)] st' ih' i ex len other by (auto simp: stale_def)
qed

abbreviation cellIndices :: "nat list" where "cellIndices \<equiv> [0..<BMS_CELL_COUNT]"

lemma arrayLoop_advance:
  assumes "length cached = BMS_CELL_COUNT" "length n \<le> 4" "n \<noteq> []" "\<And>w :: 'a::len word. uint w < 65536"
    and "arrayLoop emit maxBytes n False (vals :: 'a word list) (cached, ok, em) = (cached', ok', em')"
  shows "length cached' = BMS_CELL_COUNT \<and> stale cellIndices vals cached' \<le> stale cellIndices vals cached \<and>
    advance maxBytes em em' (stale cellIndices vals cached - stale cellIndices vals cached') \<and>
    (ok' \<longleftrightarrow> ok \<and> stale cellIndices vals cached' = 0) \<and> (0 < stale cellIndices vals cached' \<longrightarrow> budgetExhausted em')"
proof -
  have "\<forall>i \<in> set cellIndices. i < length cached \<and> cost n (int i) (uint (vals ! i)) \<le> 20"
    using cost_indexed[where n = n and w = "vals ! i" for i] assms(1-4) by auto
  from fold_advance[OF distinct_upt this assms(5)[unfolded arrayLoop_def]] show ?thesis using assms(1) by simp
qed

text \<open>The whole page: how many of its 75 components differ from the cache.\<close>

definition barData :: "BmsPackData \<Rightarrow> u8 list" where "barData raw = map cellBarFill (cellVoltageMv raw)"
definition balData :: "BmsComputed \<Rightarrow> u8 list" where "balData bc = map (\<lambda>f. if f then 1 else 0) (balanceFlag bc)"

definition staleCells :: "BmsComputed \<Rightarrow> BmsPackData \<Rightarrow> BmsNextionCache \<Rightarrow> nat" where
  "staleCells bc raw cache = stale cellIndices (cellVoltageMv raw) (bc_cellVoltageMv cache) +
     stale cellIndices (barData raw) (bc_cellBarFill cache) + stale cellIndices (balData bc) (bc_balanceFlag cache)"

definition staleSummary :: "BmsComputed \<Rightarrow> BmsNextionCache \<Rightarrow> nat" where
  "staleSummary bc cache = (if cellMaxMv bc = bc_cellMaxMv cache then 0 else 1) +
     (if cellMinMv bc = bc_cellMinMv cache then 0 else 1) + (if warningLevel bc = bc_warningLevel cache then 0 else 1)"

definition cache_wf :: "BmsNextionCache \<Rightarrow> bool" where
  "cache_wf cache \<longleftrightarrow> length (bc_cellVoltageMv cache) = BMS_CELL_COUNT \<and> length (bc_cellBarFill cache) = BMS_CELL_COUNT \<and>
     length (bc_balanceFlag cache) = BMS_CELL_COUNT"

text \<open>A pass that leaves \<open>y\<close> of \<open>x\<close> stale components.\<close>

definition passed :: "nat \<Rightarrow> 'c Emitter \<times> bool \<times> nat \<Rightarrow> 'c Emitter \<times> bool \<times> nat \<Rightarrow> bool" where
  "passed m a b \<longleftrightarrow> (case a of (em, ok, x) \<Rightarrow> case b of (em', ok', y) \<Rightarrow>
     y \<le> x \<and> advance m em em' (x - y) \<and> (ok' \<longleftrightarrow> ok \<and> y = 0) \<and> (0 < y \<longrightarrow> budgetExhausted em'))"

lemma passed_trans:
  assumes "passed m (em, ok, x) (em1, ok1, y)" "passed m (em1, ok1, x') (em2, ok2, y')"
  shows "passed m (em, ok, x + x') (em2, ok2, y + y')"
proof -
  have d: "y \<le> x" "y' \<le> x'" using assms by (simp_all add: passed_def)
  have "advance m em em2 ((x - y) + (x' - y'))"
    by (rule advance_trans[of m em em1]) (use assms in \<open>simp_all add: passed_def\<close>)
  moreover have "(x - y) + (x' - y') = x + x' - (y + y')" using d by simp
  ultimately have "advance m em em2 (x + x' - (y + y'))" by simp
  moreover have "budgetExhausted em1 \<longrightarrow> budgetExhausted em2" using assms(2) by (auto simp: passed_def advance_def)
  moreover have "y + y' \<le> x + x'" using d by simp
  ultimately show ?thesis using assms unfolding passed_def by (simp del: diff_diff_left)
qed

lemma arrayLoop_passed:
  assumes "length cached = BMS_CELL_COUNT" "length n \<le> 4" "n \<noteq> []" "\<And>w :: 'a::len word. uint w < 65536"
    and "arrayLoop emit m n False (vals :: 'a word list) (cached, ok, em) = (cached', ok', em')"
  shows "length cached' = BMS_CELL_COUNT" "passed m (em, ok, stale cellIndices vals cached) (em', ok', stale cellIndices vals cached')"
  using arrayLoop_advance[OF assms] by (simp_all add: passed_def)

lemma cellPass_passed:
  assumes "cache_wf cache" "cellPass emit m False bc raw (cache, ok, em) = (cache', ok', em')"
  shows "cache_wf cache' \<and> passed m (em, ok, staleCells bc raw cache) (em', ok', staleCells bc raw cache') \<and>
    staleSummary bc cache' = staleSummary bc cache \<and> bc_isWarm cache' = bc_isWarm cache"
proof -
  obtain c1 o1 e1 where l1: "arrayLoop emit m ''cell'' False (cellVoltageMv raw) (bc_cellVoltageMv cache, ok, em) = (c1, o1, e1)"
    by (metis prod_cases3)
  obtain c2 o2 e2 where l2: "arrayLoop emit m ''j'' False (barData raw) (bc_cellBarFill cache, o1, e1) = (c2, o2, e2)"
    by (metis prod_cases3)
  obtain c3 o3 e3 where l3: "arrayLoop emit m ''bal'' False (balData bc) (bc_balanceFlag cache, o2, e2) = (c3, o3, e3)"
    by (metis prod_cases3)
  have r: "cache' = cache\<lparr> bc_cellVoltageMv := c1, bc_cellBarFill := c2, bc_balanceFlag := c3 \<rparr>" "ok' = o3" "em' = e3"
    using assms(2) l1 l2 l3 by (auto simp: cellPass_def barData_def balData_def)
  note w = assms(1)[unfolded cache_wf_def]
  have a1: "length c1 = BMS_CELL_COUNT"
      "passed m (em, ok, stale cellIndices (cellVoltageMv raw) (bc_cellVoltageMv cache)) (e1, o1, stale cellIndices (cellVoltageMv raw) c1)"
    using arrayLoop_passed[OF _ _ _ uint_16 l1] w by simp_all
  have a2: "length c2 = BMS_CELL_COUNT"
      "passed m (e1, o1, stale cellIndices (barData raw) (bc_cellBarFill cache)) (e2, o2, stale cellIndices (barData raw) c2)"
    using arrayLoop_passed[OF _ _ _ uint_8 l2] w by simp_all
  have a3: "length c3 = BMS_CELL_COUNT"
      "passed m (e2, o2, stale cellIndices (balData bc) (bc_balanceFlag cache)) (e3, o3, stale cellIndices (balData bc) c3)"
    using arrayLoop_passed[OF _ _ _ uint_8 l3] w by simp_all
  show ?thesis using passed_trans[OF passed_trans[OF a1(2) a2(2)] a3(2)] a1(1) a2(1) a3(1)
    by (simp add: r cache_wf_def staleSummary_def staleCells_def)
qed

lemma summaryStep_passed:
  assumes "4 \<le> length n" "length n \<le> 7" "uint (v :: 'a::len word) < 65536"
    and "summaryStep emit m n False v (cached, ok, em) = (cached', ok', em')"
  shows "passed m (em, ok, if v = cached then 0 else 1) (em', ok', if v = cached' then 0 else 1)"
proof (cases "v = cached")
  case True
  then show ?thesis using assms(4) by (auto simp: summaryStep_def advance_def passed_def)
next
  case False
  obtain sent em1 where e: "emitAndCheck emit m n (- 1) (uint v) em = (sent, em1)" by fastforce
  have a: "advance m em em1 (if sent then 1 else 0)" "sent \<longleftrightarrow> \<not> budgetExhausted em1"
    using emit_advance[where n = n and i = "- 1" and v = "uint v" and emit = emit and maxBytes = m and em = em]
      cost_plain[of v n] assms(1-3) e by auto
  show ?thesis using assms(4) a False e by (cases sent) (auto simp: summaryStep_def passed_def)
qed

lemma summaryPass_passed:
  assumes "summaryPass emit m False bc (cache, ok, em) = (cache', ok', em')"
  shows "passed m (em, ok, staleSummary bc cache) (em', ok', staleSummary bc cache') \<and>
    staleCells bc raw cache' = staleCells bc raw cache \<and> cache_wf cache' = cache_wf cache \<and> bc_isWarm cache' = bc_isWarm cache"
proof -
  obtain c1 o1 e1 where l1: "summaryStep emit m ''cellmax'' False (cellMaxMv bc) (bc_cellMaxMv cache, ok, em) = (c1, o1, e1)"
    by (metis prod_cases3)
  obtain c2 o2 e2 where l2: "summaryStep emit m ''cellmin'' False (cellMinMv bc) (bc_cellMinMv cache, o1, e1) = (c2, o2, e2)"
    by (metis prod_cases3)
  obtain c3 o3 e3 where l3: "summaryStep emit m ''warn'' False (warningLevel bc) (bc_warningLevel cache, o2, e2) = (c3, o3, e3)"
    by (metis prod_cases3)
  have r: "cache' = cache\<lparr> bc_cellMaxMv := c1, bc_cellMinMv := c2, bc_warningLevel := c3 \<rparr>" "ok' = o3" "em' = e3"
    using assms l1 l2 l3 by (auto simp: summaryPass_def)
  have "passed m (em, ok, staleSummary bc cache) (e3, o3, staleSummary bc cache')"
    unfolding staleSummary_def r(1)
    using passed_trans[OF passed_trans[OF summaryStep_passed[OF _ _ uint_16 l1] summaryStep_passed[OF _ _ uint_16 l2]]
        summaryStep_passed[OF _ _ uint_8 l3]] by simp
  then show ?thesis by (simp add: r cache_wf_def staleCells_def)
qed

definition pending :: "BmsComputed \<Rightarrow> BmsPackData \<Rightarrow> BmsNextionCache \<Rightarrow> nat" where
  "pending bc raw cache = staleCells bc raw cache + staleSummary bc cache"

text \<open>A call that processes the cells leaves nothing pending and a warm cache, or has sent at
  least four components.\<close>

lemma build_progress:
  assumes "cache_wf cache" "updateCells \<or> \<not> bc_isWarm cache"
    and "buildBmsNextionCommands (Some emit) bc raw False updateCells 90 (cache, ctx) = (cache', ctx')"
  shows "cache_wf cache' \<and> (pending bc raw cache' = 0 \<and> bc_isWarm cache' \<or>
    0 < pending bc raw cache' \<and> pending bc raw cache' + 4 \<le> pending bc raw cache \<and> bc_isWarm cache' = bc_isWarm cache)"
proof -
  let ?em = "\<lparr> em_ctx = ctx, currentBytes = 0, budgetExhausted = False \<rparr>"
  obtain c1 o1 e1 where p: "cellPass emit 90 False bc raw (cache, True, ?em) = (c1, o1, e1)" by (metis prod_cases3)
  obtain c2 o2 e2 where q: "summaryPass emit 90 False bc (c1, o1, e1) = (c2, o2, e2)" by (metis prod_cases3)
  have r: "cache' = (if o2 then c2\<lparr> bc_isWarm := True \<rparr> else c2)"
    using assms(2,3) p q by (auto simp: build_eq firstPass_def Let_def)
  note P = cellPass_passed[OF assms(1) p] and Q = summaryPass_passed[OF q, of raw]
  have "passed 90 (?em, True, pending bc raw cache) (e2, o2, pending bc raw c2)"
    using passed_trans[of 90 ?em True "staleCells bc raw cache" e1 o1 "staleCells bc raw c1" "staleSummary bc c1" e2 o2
        "staleSummary bc c2"] P Q by (simp add: pending_def)
  then have t: "pending bc raw c2 \<le> pending bc raw cache" "o2 \<longleftrightarrow> pending bc raw c2 = 0"
      "0 < pending bc raw c2 \<longrightarrow> 90 < 20 * (pending bc raw cache - pending bc raw c2) + 20"
    by (auto simp: passed_def advance_def)
  have "pending bc raw cache' = pending bc raw c2" "cache_wf cache'"
    using P Q by (auto simp: r pending_def staleCells_def staleSummary_def cache_wf_def)
  then show ?thesis using t P Q by (auto simp: r)
qed

text \<open>With nothing pending a call changes nothing.\<close>

lemma stale_0: "stale ids vals cached = 0 \<longleftrightarrow> (\<forall>i \<in> set ids. vals ! i = cached ! i)"
  by (auto simp: stale_def filter_empty_conv)

lemma arrayLoop_idle:
  assumes "stale cellIndices vals cached = 0"
  shows "arrayLoop emit m n False vals (cached, ok, em) = (cached, ok, em)"
proof -
  have "\<forall>i \<in> set ids. vals ! i = cached ! i \<Longrightarrow> fold (arrayStep emit m n False vals) ids (cached, ok, em) = (cached, ok, em)" for ids
    by (induction ids) (simp_all add: arrayStep_def)
  then show ?thesis using assms by (simp add: arrayLoop_def stale_0)
qed

lemma build_idle:
  assumes "pending bc raw cache = 0" "bc_isWarm cache"
  shows "buildBmsNextionCommands (Some emit) bc raw False updateCells m (cache, ctx) = (cache, ctx)"
  using assms
  by (simp add: build_eq firstPass_def cellPass_def summaryPass_def summaryStep_def arrayLoop_idle pending_def staleCells_def
      staleSummary_def barData_def[symmetric] balData_def[symmetric] Let_def split: if_splits)

text \<open>Calls with unchanged data; the list says in which of them the cells are due.\<close>

fun pageCalls :: "(string \<Rightarrow> 'c \<Rightarrow> 'c) \<Rightarrow> BmsComputed \<Rightarrow> BmsPackData \<Rightarrow> bool list \<Rightarrow> BmsNextionCache \<times> 'c \<Rightarrow> BmsNextionCache \<times> 'c" where
  "pageCalls emit bc raw [] st = st"
| "pageCalls emit bc raw (u # us) st = pageCalls emit bc raw us (buildBmsNextionCommands (Some emit) bc raw False u BMS_NEXTION_MAX_BYTES st)"

lemma pageCalls_idle:
  "pending bc raw cache = 0 \<Longrightarrow> bc_isWarm cache \<Longrightarrow> pageCalls emit bc raw us (cache, ctx) = (cache, ctx)"
  by (induction us) (simp_all add: build_idle)

lemma pageCalls_settle:
  assumes "cache_wf cache" "\<not> bc_isWarm cache" "pending bc raw cache \<le> 4 * length us" "0 < length us"
    and "pageCalls emit bc raw us (cache, ctx) = (cache', ctx')"
  shows "cache_wf cache' \<and> pending bc raw cache' = 0 \<and> bc_isWarm cache'"
  using assms
proof (induction us arbitrary: cache ctx)
  case (Cons u us)
  obtain c1 x1 where b: "buildBmsNextionCommands (Some emit) bc raw False u 90 (cache, ctx) = (c1, x1)" by fastforce
  have r: "pageCalls emit bc raw us (c1, x1) = (cache', ctx')" using Cons.prems(5) b by (simp add: BMS_NEXTION_MAX_BYTES_def)
  from build_progress[OF Cons.prems(1) _ b] Cons.prems(2) consider
      "cache_wf c1" "pending bc raw c1 = 0" "bc_isWarm c1"
    | "cache_wf c1" "0 < pending bc raw c1" "pending bc raw c1 + 4 \<le> pending bc raw cache" "\<not> bc_isWarm c1" by auto
  then show ?case
  proof cases
    case 1
    then show ?thesis using r by (simp add: pageCalls_idle)
  next
    case 2
    then show ?thesis using Cons.IH[OF 2(1,4) _ _ r] Cons.prems(3) by (cases us) simp_all
  qed
qed simp

lemma pending_bound: "pending bc raw cache \<le> 75"
proof -
  have "stale cellIndices vals cached \<le> 24" for vals cached :: "'a::len word list"
    using length_filter_le[of "\<lambda>i. vals ! i \<noteq> cached ! i" cellIndices] by (simp add: stale_def)
  from this[of "cellVoltageMv raw" "bc_cellVoltageMv cache"] this[of "barData raw" "bc_cellBarFill cache"]
    this[of "balData bc" "bc_balanceFlag cache"]
  show ?thesis by (simp add: pending_def staleCells_def staleSummary_def)
qed

subsection \<open>The first call\<close>

lemma forced_fold:
  assumes "\<forall>i \<in> set ids. 9 \<le> cost n (int i) (uint (vals ! i)) \<and> cost n (int i) (uint (vals ! i)) < 40"
    and "fold (arrayStep emit m n True vals) ids (cached, ok, em) = (cached', ok', em')" "currentBytes em \<le> m"
  shows "length cached' = length cached \<and> currentBytes em' \<le> m \<and> (ok' \<longrightarrow> ok \<and> currentBytes em + 9 * length ids \<le> currentBytes em')"
  using assms
proof (induction ids arbitrary: cached ok em)
  case (Cons i ids)
  obtain sent em1 where e: "emitAndCheck emit m n (int i) (uint (vals ! i)) em = (sent, em1)" by fastforce
  have c: "9 \<le> cost n (int i) (uint (vals ! i))" "cost n (int i) (uint (vals ! i)) < 40" using Cons.prems(1) by auto
  have e1: "currentBytes em1 \<le> m" "sent \<longrightarrow> currentBytes em + 9 \<le> currentBytes em1"
    using e c Cons.prems(3) by (auto simp: emit_eq split: if_splits)
  have "arrayStep emit m n True vals i (cached, ok, em) = (if sent then cached[i := vals ! i] else cached, ok \<and> sent, em1)"
    by (cases sent) (simp_all add: arrayStep_def e)
  with Cons.prems(2) have r: "fold (arrayStep emit m n True vals) ids
      (if sent then cached[i := vals ! i] else cached, ok \<and> sent, em1) = (cached', ok', em')" by simp
  show ?case using Cons.IH[OF _ r e1(1)] Cons.prems(1) e1(2) by auto
qed simp

lemma forced_loop:
  fixes vals :: "'a::len word list"
  assumes "length n \<le> 4" "n \<noteq> []" "currentBytes em \<le> 90" "\<And>w :: 'a word. uint w < 65536"
    and "arrayLoop emit 90 n True vals (c, ok, em) = (c', ok', em')"
  shows "length c' = length c \<and> currentBytes em' \<le> 90 \<and> \<not> ok'"
proof -
  have "9 \<le> cost n (int i) (uint (vals ! i)) \<and> cost n (int i) (uint (vals ! i)) < 40" if "i < 24" for i
    using cost_indexed[where n = n and i = i and w = "vals ! i"] that assms(1,2,4) by auto
  then have "\<forall>i \<in> set cellIndices. 9 \<le> cost n (int i) (uint (vals ! i)) \<and> cost n (int i) (uint (vals ! i)) < 40"
    by (simp add: BMS_CELL_COUNT_def)
  from forced_fold[OF this assms(5)[unfolded arrayLoop_def] assms(3)] show ?thesis by (auto simp: BMS_CELL_COUNT_def)
qed

lemma forced_call:
  assumes "cache_wf cache" "\<not> bc_isWarm cache"
    and "buildBmsNextionCommands (Some emit) bc raw True u 90 (cache, ctx) = (cache', ctx')"
  shows "cache_wf cache' \<and> \<not> bc_isWarm cache'"
proof -
  let ?em = "\<lparr> em_ctx = ctx, currentBytes = 0, budgetExhausted = False \<rparr>"
  obtain c1 o1 e1 where l1: "arrayLoop emit 90 ''cell'' True (cellVoltageMv raw) (bc_cellVoltageMv cache, True, ?em) = (c1, o1, e1)"
    by (metis prod_cases3)
  obtain c2 o2 e2 where l2: "arrayLoop emit 90 ''j'' True (map cellBarFill (cellVoltageMv raw)) (bc_cellBarFill cache, o1, e1) = (c2, o2, e2)"
    by (metis prod_cases3)
  obtain c3 o3 e3 where l3: "arrayLoop emit 90 ''bal'' True (map (\<lambda>f. if f then 1 else 0) (balanceFlag bc)) (bc_balanceFlag cache, o2, e2) = (c3, o3, e3)"
    by (metis prod_cases3)
  have a1: "length c1 = 24" "currentBytes e1 \<le> 90"
    using forced_loop[OF _ _ _ uint_16 l1] assms(1) by (simp_all add: cache_wf_def)
  have a2: "length c2 = 24" "currentBytes e2 \<le> 90"
    using forced_loop[OF _ _ a1(2) uint_8 l2] assms(1) by (simp_all add: cache_wf_def)
  have a3: "length c3 = 24" "\<not> o3"
    using forced_loop[OF _ _ a2(2) uint_8 l3] assms(1) by (simp_all add: cache_wf_def)
  have p: "cellPass emit 90 True bc raw (cache, True, ?em) =
      (cache\<lparr> bc_cellVoltageMv := c1, bc_cellBarFill := c2, bc_balanceFlag := c3 \<rparr>, o3, e3)"
    using l1 l2 l3 by (simp add: cellPass_def)
  have sm: "\<not> ok \<Longrightarrow> \<not> fst (snd (summaryPass emit 90 True bc (ca, ok, em)))" for ok em ca
    by (auto simp: summaryPass_def summaryStep_def case_prod_beta split: bool.splits)
  have keep: "cache_wf (fst (summaryPass emit 90 True bc (ca, ok, em))) = cache_wf ca"
     "bc_isWarm (fst (summaryPass emit 90 True bc (ca, ok, em))) = bc_isWarm ca" for ok em ca
    by (simp_all add: summaryPass_def case_prod_beta cache_wf_def)
  let ?c = "cache\<lparr> bc_cellVoltageMv := c1, bc_cellBarFill := c2, bc_balanceFlag := c3 \<rparr>"
  have c: "cache' = fst (summaryPass emit 90 True bc (?c, o3, e3))"
    using assms(3) sm[OF a3(2), of ?c e3] by (simp add: build_eq firstPass_def Let_def p)
  show ?thesis unfolding c keep using a1(1) a2(1) a3(1) assms(2) by (simp add: cache_wf_def)
qed

end
