(* ===== verification/Bms_Page.thy ===== *)
theory Bms_Page
  imports Bms_Nextion
begin

text \<open>
  What the cell page of the display shows over many calls of \<open>buildBmsNextionCommands\<close>:
  after a start it becomes complete, and under restless cells parts of it starve.
\<close>

subsection \<open>What the display shows\<close>

lemma shown_emit:
  "plainName name \<Longrightarrow> plainName other \<Longrightarrow> shown other (BMS_emitNextionCommand (numText name v) uart) =
    (if other = name then Some (numText name v) else shown other uart)"
  using addresses_iff[of other name] by (simp add: BMS_emitNextionCommand_def shown_end shown_append numText_def)

text \<open>Every cached value is still the initial one or is what the display shows.\<close>

definition sentArray :: "string \<Rightarrow> 'a::len word \<Rightarrow> 'a word list \<Rightarrow> string list \<Rightarrow> bool" where
  "sentArray pre init cached uart \<longleftrightarrow> (\<forall>i < BMS_CELL_COUNT. cached ! i = init \<or>
     shown (pre @ show_nat i) uart = Some (numText (pre @ show_nat i) (uint (cached ! i))))"

definition sentValue :: "string \<Rightarrow> 'a::len word \<Rightarrow> 'a word \<Rightarrow> string list \<Rightarrow> bool" where
  "sentValue name init cached uart \<longleftrightarrow> cached = init \<or> shown name uart = Some (numText name (uint cached))"

definition sent :: "BmsNextionCache \<Rightarrow> string list \<Rightarrow> bool" where
  "sent cache uart \<longleftrightarrow> sentArray ''cell'' 0 (bc_cellVoltageMv cache) uart \<and> sentArray ''j'' 255 (bc_cellBarFill cache) uart \<and>
     sentArray ''bal'' 255 (bc_balanceFlag cache) uart \<and> sentValue ''cellmax'' 0 (bc_cellMaxMv cache) uart \<and>
     sentValue ''cellmin'' 0 (bc_cellMinMv cache) uart \<and> sentValue ''warn'' 255 (bc_warningLevel cache) uart"

lemma show_nat_inj: "show_nat i = show_nat j \<longleftrightarrow> i = j"
  by (metis digits_val_show of_nat_eq_iff)

lemma isdigit_show: "list_all isdigit (show_nat i)" and show_nat_ne: "show_nat i \<noteq> []"
  using show_nat_digits[of i] by simp_all

lemma plain_indexed: "plainName pre \<Longrightarrow> plainName (pre @ show_nat i)"
  using isdigit_show[of i] by (auto simp: plainName_def list_all_iff isdigit_def)

lemma page_names: "plainName ''cell''" "plainName ''j''" "plainName ''bal''" "plainName ''cellmax''" "plainName ''cellmin''" "plainName ''warn''"
  by (simp_all add: plainName_def)

lemma letters_not_number: "\<not> list_all isdigit x \<Longrightarrow> x \<noteq> show_nat i"
  using isdigit_show[of i] by auto

lemma names_apart:
  "''j'' @ show_nat i \<noteq> ''cell'' @ show_nat k" "''bal'' @ show_nat i \<noteq> ''cell'' @ show_nat k"
  "''bal'' @ show_nat i \<noteq> ''j'' @ show_nat k" "''cellmax'' \<noteq> ''cell'' @ show_nat i" "''cellmin'' \<noteq> ''cell'' @ show_nat i"
  "''cellmax'' \<noteq> ''j'' @ show_nat i" "''cellmin'' \<noteq> ''j'' @ show_nat i" "''cellmax'' \<noteq> ''bal'' @ show_nat i"
  "''cellmin'' \<noteq> ''bal'' @ show_nat i" "''warn'' \<noteq> ''cell'' @ show_nat i" "''warn'' \<noteq> ''j'' @ show_nat i" "''warn'' \<noteq> ''bal'' @ show_nat i"
  using letters_not_number[of "''max''" i] letters_not_number[of "''min''" i] by (simp_all add: isdigit_def)

text \<open>An emitted command changes what its own component shows and nothing else.\<close>

definition onlyFor :: "(string \<Rightarrow> bool) \<Rightarrow> string list \<Rightarrow> string list \<Rightarrow> bool" where
  "onlyFor own uart uart' \<longleftrightarrow> (\<forall>name. plainName name \<longrightarrow> \<not> own name \<longrightarrow> shown name uart' = shown name uart)"

lemma onlyFor_trans: "onlyFor own u1 u2 \<Longrightarrow> onlyFor own u2 u3 \<Longrightarrow> onlyFor own u1 u3"
  by (simp add: onlyFor_def)

lemma onlyFor_mono: "onlyFor own u1 u2 \<Longrightarrow> (\<And>x. own x \<Longrightarrow> own' x) \<Longrightarrow> onlyFor own' u1 u2"
  by (auto simp: onlyFor_def)

text \<open>The names of the cell page.\<close>

definition pageName :: "string \<Rightarrow> bool" where
  "pageName x \<longleftrightarrow> (\<exists>i. x = ''cell'' @ show_nat i \<or> x = ''j'' @ show_nat i \<or> x = ''bal'' @ show_nat i) \<or>
     x \<in> {''cellmax'', ''cellmin'', ''warn''}"

lemma emit_shown:
  assumes "cost n i v < 40" "plainName (indexedName n i)"
    and "emitAndCheck BMS_emitNextionCommand m n i v em = (ok, em')"
  shows "(ok \<longrightarrow> shown (indexedName n i) (em_ctx em') = Some (numText (indexedName n i) v)) \<and>
    (\<not> ok \<longrightarrow> em_ctx em' = em_ctx em) \<and> onlyFor (\<lambda>x. x = indexedName n i) (em_ctx em) (em_ctx em')"
  using assms by (auto simp: emit_eq onlyFor_def shown_emit split: if_splits)

lemma fold_shown:
  fixes vals :: "'a::len word list"
  assumes "plainName pre" "\<forall>i \<in> set ids. i < 24 \<and> cost pre (int i) (uint (vals ! i)) < 40"
    and "sentArray pre init cached (em_ctx em)" "length cached = BMS_CELL_COUNT"
    and "fold (arrayStep BMS_emitNextionCommand m pre force vals) ids (cached, ok, em) = (cached', ok', em')"
  shows "sentArray pre init cached' (em_ctx em') \<and> onlyFor (\<lambda>x. \<exists>i. x = pre @ show_nat i) (em_ctx em) (em_ctx em')"
  using assms
proof (induction ids arbitrary: cached ok em)
  case Nil
  then show ?case by (simp add: onlyFor_def)
next
  case (Cons i ids)
  obtain c1 ok1 em1 where s: "arrayStep BMS_emitNextionCommand m pre force vals i (cached, ok, em) = (c1, ok1, em1)" by (metis prod_cases3)
  have r: "fold (arrayStep BMS_emitNextionCommand m pre force vals) ids (c1, ok1, em1) = (cached', ok', em')"
    using Cons.prems(5) s by simp
  have nm: "indexedName pre (int i) = pre @ show_nat i" by (simp add: indexedName_def)
  have p: "plainName (indexedName pre (int i))" using plain_indexed[OF Cons.prems(1)] by (simp add: nm)
  have one: "sentArray pre init c1 (em_ctx em1) \<and> onlyFor (\<lambda>x. \<exists>i. x = pre @ show_nat i) (em_ctx em) (em_ctx em1) \<and> length c1 = BMS_CELL_COUNT"
  proof (cases "force \<or> vals ! i \<noteq> cached ! i")
    case True
    obtain sn em2 where e: "emitAndCheck BMS_emitNextionCommand m pre (int i) (uint (vals ! i)) em = (sn, em2)" by fastforce
    have c: "cost pre (int i) (uint (vals ! i)) < 40" "i < 24" using Cons.prems(2) by auto
    note E = emit_shown[OF c(1) p e, unfolded nm]
    have k: "\<forall>k. k \<noteq> i \<longrightarrow> shown (pre @ show_nat k) (em_ctx em2) = shown (pre @ show_nat k) (em_ctx em)"
      using E plain_indexed[OF Cons.prems(1)] by (simp add: onlyFor_def show_nat_inj)
    have s1: "c1 = (if sn then cached[i := vals ! i] else cached)" "em1 = em2"
      using s True e by (cases sn; auto simp: arrayStep_def)+
    have "sentArray pre init c1 (em_ctx em1)"
      unfolding sentArray_def
    proof (intro allI impI)
      fix k
      assume "k < BMS_CELL_COUNT"
      then show "c1 ! k = init \<or> shown (pre @ show_nat k) (em_ctx em1) = Some (numText (pre @ show_nat k) (uint (c1 ! k)))"
        using k E Cons.prems(3,4) by (cases "k = i") (auto simp: s1 sentArray_def)
    qed
    then show ?thesis using E Cons.prems(4) by (auto simp: s1 onlyFor_def)
  next
    case False
    then show ?thesis using s Cons.prems(3,4) by (auto simp: arrayStep_def onlyFor_def)
  qed
  from Cons.IH[OF Cons.prems(1) _ _ _ r, of] one Cons.prems(2) show ?case by (auto simp: onlyFor_def)
qed

lemma arrayLoop_length: "length (fst (arrayLoop emit m pre force vals st)) = length (fst st)"
proof -
  have "length (fst (fold (arrayStep emit m pre force vals) ids st)) = length (fst st)" for ids st
    by (induction ids arbitrary: st) (simp_all add: arrayStep_def case_prod_beta split: bool.split)
  then show ?thesis by (simp add: arrayLoop_def)
qed

lemma arrayLoop_shown:
  fixes vals :: "'a::len word list"
  assumes "plainName pre" "length pre \<le> 4" "\<And>w :: 'a word. uint w < 65536"
    and "sentArray pre init cached (em_ctx em)" "length cached = BMS_CELL_COUNT"
    and "arrayLoop BMS_emitNextionCommand m pre force vals (cached, ok, em) = (cached', ok', em')"
  shows "sentArray pre init cached' (em_ctx em') \<and> onlyFor (\<lambda>x. \<exists>i. x = pre @ show_nat i) (em_ctx em) (em_ctx em') \<and>
    length cached' = BMS_CELL_COUNT"
proof -
  have "cost pre (int i) (uint (vals ! i)) < 40" if "i < 24" for i
    using cost_indexed[where n = pre and i = i and w = "vals ! i"] that assms(1-3) by (auto simp: plainName_def)
  then have "\<forall>i \<in> set cellIndices. i < 24 \<and> cost pre (int i) (uint (vals ! i)) < 40" by (simp add: BMS_CELL_COUNT_def)
  note F = fold_shown[OF assms(1) this assms(4,5) assms(6)[unfolded arrayLoop_def]]
  then show ?thesis using arrayLoop_length[of BMS_emitNextionCommand m pre force vals "(cached, ok, em)"] assms(5,6) by simp
qed

lemma summaryStep_shown:
  fixes v :: "'a::len word"
  assumes "plainName n" "4 \<le> length n" "length n \<le> 7" "uint v < 65536" "sentValue n init cached (em_ctx em)"
    and "summaryStep BMS_emitNextionCommand m n force v (cached, ok, em) = (cached', ok', em')"
  shows "sentValue n init cached' (em_ctx em') \<and> onlyFor (\<lambda>x. x = n) (em_ctx em) (em_ctx em')"
proof (cases "force \<or> v \<noteq> cached")
  case True
  obtain sn em2 where e: "emitAndCheck BMS_emitNextionCommand m n (- 1) (uint v) em = (sn, em2)" by fastforce
  have nm: "indexedName n (- 1) = n" by (simp add: indexedName_def)
  have "cost n (- 1) (uint v) < 40" using cost_plain[of v n] assms(2-4) by auto
  from emit_shown[OF this _ e, unfolded nm, OF assms(1)] show ?thesis
    using True assms(5,6) e by (cases sn) (auto simp: summaryStep_def sentValue_def)
next
  case False
  then show ?thesis using assms(5,6) by (simp add: summaryStep_def onlyFor_def)
qed

lemma sentArray_other:
  "onlyFor own uart uart' \<Longrightarrow> plainName pre \<Longrightarrow> (\<And>i. \<not> own (pre @ show_nat i)) \<Longrightarrow> sentArray pre init cached uart \<Longrightarrow>
     sentArray pre init cached uart'"
  by (auto simp: sentArray_def onlyFor_def plain_indexed)

lemma sentValue_other:
  "onlyFor own uart uart' \<Longrightarrow> plainName n \<Longrightarrow> \<not> own n \<Longrightarrow> sentValue n init cached uart \<Longrightarrow> sentValue n init cached uart'"
  by (auto simp: sentValue_def onlyFor_def)

lemma cellPass_shown:
  assumes "cache_wf cache" "sent cache (em_ctx em)" "cellPass BMS_emitNextionCommand m force bc raw (cache, ok, em) = (cache', ok', em')"
  shows "sent cache' (em_ctx em') \<and> onlyFor pageName (em_ctx em) (em_ctx em')"
proof -
  obtain c1 o1 e1 where l1: "arrayLoop BMS_emitNextionCommand m ''cell'' force (cellVoltageMv raw) (bc_cellVoltageMv cache, ok, em) = (c1, o1, e1)"
    by (metis prod_cases3)
  obtain c2 o2 e2 where l2: "arrayLoop BMS_emitNextionCommand m ''j'' force (map cellBarFill (cellVoltageMv raw)) (bc_cellBarFill cache, o1, e1) = (c2, o2, e2)"
    by (metis prod_cases3)
  obtain c3 o3 e3 where l3: "arrayLoop BMS_emitNextionCommand m ''bal'' force (map (\<lambda>f. if f then 1 else 0) (balanceFlag bc)) (bc_balanceFlag cache, o2, e2) = (c3, o3, e3)"
    by (metis prod_cases3)
  have r: "cache' = cache\<lparr> bc_cellVoltageMv := c1, bc_cellBarFill := c2, bc_balanceFlag := c3 \<rparr>" "em' = e3"
    using assms(3) l1 l2 l3 by (auto simp: cellPass_def)
  have w: "length (bc_cellVoltageMv cache) = BMS_CELL_COUNT" "length (bc_cellBarFill cache) = BMS_CELL_COUNT"
      "length (bc_balanceFlag cache) = BMS_CELL_COUNT"
    using assms(1) by (simp_all add: cache_wf_def)
  have S: "sentArray ''cell'' 0 (bc_cellVoltageMv cache) (em_ctx em)" "sentArray ''j'' 255 (bc_cellBarFill cache) (em_ctx em)"
      "sentArray ''bal'' 255 (bc_balanceFlag cache) (em_ctx em)" "sentValue ''cellmax'' 0 (bc_cellMaxMv cache) (em_ctx em)"
      "sentValue ''cellmin'' 0 (bc_cellMinMv cache) (em_ctx em)" "sentValue ''warn'' 255 (bc_warningLevel cache) (em_ctx em)"
    using assms(2) by (simp_all add: sent_def)
  have A: "sentArray ''cell'' 0 c1 (em_ctx e1)" "onlyFor (\<lambda>x. \<exists>i. x = ''cell'' @ show_nat i) (em_ctx em) (em_ctx e1)"
    using arrayLoop_shown[OF page_names(1) _ uint_16 S(1) w(1) l1] by simp_all
  note keepA = sentArray_other[OF A(2)] sentValue_other[OF A(2)]
  have j1: "sentArray ''j'' 255 (bc_cellBarFill cache) (em_ctx e1)" using keepA(1) S(2) page_names names_apart by metis
  have B: "sentArray ''j'' 255 c2 (em_ctx e2)" "onlyFor (\<lambda>x. \<exists>i. x = ''j'' @ show_nat i) (em_ctx e1) (em_ctx e2)"
    using arrayLoop_shown[OF page_names(2) _ uint_8 j1 w(2) l2] by simp_all
  note keepB = sentArray_other[OF B(2)] sentValue_other[OF B(2)]
  have b2: "sentArray ''bal'' 255 (bc_balanceFlag cache) (em_ctx e2)" using keepA(1) keepB(1) S(3) page_names names_apart by metis
  have C: "sentArray ''bal'' 255 c3 (em_ctx e3)" "onlyFor (\<lambda>x. \<exists>i. x = ''bal'' @ show_nat i) (em_ctx e2) (em_ctx e3)"
    using arrayLoop_shown[OF page_names(3) _ uint_8 b2 w(3) l3] by simp_all
  note keepC = sentArray_other[OF C(2)] sentValue_other[OF C(2)]
  have "sentArray ''cell'' 0 c1 (em_ctx e3)" using keepB(1) keepC(1) A(1) page_names names_apart by metis
  moreover have "sentArray ''j'' 255 c2 (em_ctx e3)" using keepC(1) B(1) page_names names_apart by metis
  moreover have "sentValue ''cellmax'' 0 (bc_cellMaxMv cache) (em_ctx e3)"
    using keepA(2) keepB(2) keepC(2) S(4) page_names names_apart by metis
  moreover have "sentValue ''cellmin'' 0 (bc_cellMinMv cache) (em_ctx e3)"
    using keepA(2) keepB(2) keepC(2) S(5) page_names names_apart by metis
  moreover have "sentValue ''warn'' 255 (bc_warningLevel cache) (em_ctx e3)"
    using keepA(2) keepB(2) keepC(2) S(6) page_names names_apart by metis
  moreover have "onlyFor pageName (em_ctx em) (em_ctx e3)"
    using A(2) B(2) C(2) unfolding onlyFor_def pageName_def by metis
  ultimately show ?thesis using C(1) by (simp add: sent_def r)
qed

lemma summaryPass_shown:
  assumes "sent cache (em_ctx em)" "summaryPass BMS_emitNextionCommand m force bc (cache, ok, em) = (cache', ok', em')"
  shows "sent cache' (em_ctx em')"
proof -
  obtain c1 o1 e1 where l1: "summaryStep BMS_emitNextionCommand m ''cellmax'' force (cellMaxMv bc) (bc_cellMaxMv cache, ok, em) = (c1, o1, e1)"
    by (metis prod_cases3)
  obtain c2 o2 e2 where l2: "summaryStep BMS_emitNextionCommand m ''cellmin'' force (cellMinMv bc) (bc_cellMinMv cache, o1, e1) = (c2, o2, e2)"
    by (metis prod_cases3)
  obtain c3 o3 e3 where l3: "summaryStep BMS_emitNextionCommand m ''warn'' force (warningLevel bc) (bc_warningLevel cache, o2, e2) = (c3, o3, e3)"
    by (metis prod_cases3)
  have r: "cache' = cache\<lparr> bc_cellMaxMv := c1, bc_cellMinMv := c2, bc_warningLevel := c3 \<rparr>" "em' = e3"
    using assms(2) l1 l2 l3 by (auto simp: summaryPass_def)
  have S: "sentValue ''cellmax'' 0 (bc_cellMaxMv cache) (em_ctx em)" "sentValue ''cellmin'' 0 (bc_cellMinMv cache) (em_ctx em)"
      "sentValue ''warn'' 255 (bc_warningLevel cache) (em_ctx em)"
    using assms(1) by (simp_all add: sent_def)
  have A: "sentValue ''cellmax'' 0 c1 (em_ctx e1)" "onlyFor (\<lambda>x. x = ''cellmax'') (em_ctx em) (em_ctx e1)"
    using summaryStep_shown[OF page_names(4) _ _ uint_16 S(1) l1] by simp_all
  have n1: "sentValue ''cellmin'' 0 (bc_cellMinMv cache) (em_ctx e1)" "sentValue ''warn'' 255 (bc_warningLevel cache) (em_ctx e1)"
    using sentValue_other[OF A(2) _ _ S(2)] sentValue_other[OF A(2) _ _ S(3)] page_names by simp_all
  have B: "sentValue ''cellmin'' 0 c2 (em_ctx e2)" "onlyFor (\<lambda>x. x = ''cellmin'') (em_ctx e1) (em_ctx e2)"
    using summaryStep_shown[OF page_names(5) _ _ uint_16 n1(1) l2] by simp_all
  have n2: "sentValue ''cellmax'' 0 c1 (em_ctx e2)" "sentValue ''warn'' 255 (bc_warningLevel cache) (em_ctx e2)"
    using sentValue_other[OF B(2) _ _ A(1)] sentValue_other[OF B(2) _ _ n1(2)] page_names by simp_all
  have C: "sentValue ''warn'' 255 c3 (em_ctx e3)" "onlyFor (\<lambda>x. x = ''warn'') (em_ctx e2) (em_ctx e3)"
    using summaryStep_shown[OF page_names(6) _ _ uint_8 n2(2) l3] by simp_all
  have n3: "sentValue ''cellmax'' 0 c1 (em_ctx e3)" "sentValue ''cellmin'' 0 c2 (em_ctx e3)"
    using sentValue_other[OF C(2) _ _ n2(1)] sentValue_other[OF C(2) _ _ B(1)] page_names by simp_all
  have all: "onlyFor (\<lambda>x. x \<in> {''cellmax'', ''cellmin'', ''warn''}) (em_ctx em) (em_ctx e3)"
    using A(2) B(2) C(2) by (simp add: onlyFor_def)
  have "sentArray ''cell'' 0 (bc_cellVoltageMv cache) (em_ctx e3)"
    using assms(1) names_apart(4,5,10) by (intro sentArray_other[OF all page_names(1)]) (auto simp: sent_def not_sym)
  moreover have "sentArray ''j'' 255 (bc_cellBarFill cache) (em_ctx e3)"
    using assms(1) by (intro sentArray_other[OF all page_names(2)]) (auto simp: sent_def)
  moreover have "sentArray ''bal'' 255 (bc_balanceFlag cache) (em_ctx e3)"
    using assms(1) by (intro sentArray_other[OF all page_names(3)]) (auto simp: sent_def)
  ultimately show ?thesis using C(1) n3 by (simp add: sent_def r)
qed

lemma cellPass_wf:
  "cache_wf cache \<Longrightarrow> cellPass emit m force bc raw (cache, ok, em) = (cache', ok', em') \<Longrightarrow> cache_wf cache'"
  by (auto simp: arrayLoop_length cellPass_def cache_wf_def case_prod_beta Let_def)

lemma build_sent:
  assumes "cache_wf cache" "sent cache uart"
    and "buildBmsNextionCommands (Some BMS_emitNextionCommand) bc raw force u m (cache, uart) = (cache', uart')"
  shows "sent cache' uart'"
proof -
  obtain c1 o1 e1 where f: "firstPass BMS_emitNextionCommand m force u bc raw cache uart = (c1, o1, e1)" by (metis prod_cases3)
  have "sent c1 (em_ctx e1)"
    using f assms(1,2) cellPass_shown[of cache "\<lparr> em_ctx = uart, currentBytes = 0, budgetExhausted = False \<rparr>"]
    by (auto simp: firstPass_def Let_def split: if_splits)
  moreover obtain c2 o2 e2 where q: "summaryPass BMS_emitNextionCommand m force bc (c1, o1, e1) = (c2, o2, e2)" by (metis prod_cases3)
  ultimately have "sent c2 (em_ctx e2)" using summaryPass_shown by blast
  then show ?thesis using assms(3) f q by (auto simp: build_eq Let_def sent_def split: if_splits)
qed

lemma pageCalls_sent:
  "cache_wf cache \<Longrightarrow> sent cache uart \<Longrightarrow> \<not> bc_isWarm cache \<or> pending bc raw cache = 0 \<Longrightarrow>
   pageCalls BMS_emitNextionCommand bc raw us (cache, uart) = (cache', uart') \<Longrightarrow> sent cache' uart'"
proof (induction us arbitrary: cache uart)
  case (Cons u us)
  show ?case
  proof (cases "bc_isWarm cache")
    case True
    then have "pageCalls BMS_emitNextionCommand bc raw (u # us) (cache, uart) = (cache, uart)" using Cons.prems(3) by (intro pageCalls_idle) auto
    then show ?thesis using Cons.prems(2,4) by auto
  next
    case False
    obtain c1 u1 where b: "buildBmsNextionCommands (Some BMS_emitNextionCommand) bc raw False u 90 (cache, uart) = (c1, u1)" by fastforce
    have "cache_wf c1" "\<not> bc_isWarm c1 \<or> pending bc raw c1 = 0" using build_progress[OF Cons.prems(1) _ b] False by auto
    then show ?thesis using Cons.IH[OF _ build_sent[OF Cons.prems(1,2) b]] Cons.prems(4) b by (simp add: BMS_NEXTION_MAX_BYTES_def)
  qed
qed simp

lemma pending_0:
  assumes "pending bc raw cache = 0"
  shows "\<forall>i < BMS_CELL_COUNT. bc_cellVoltageMv cache ! i = cellVoltageMv raw ! i \<and> bc_cellBarFill cache ! i = barData raw ! i \<and>
      bc_balanceFlag cache ! i = balData bc ! i"
    and "bc_cellMaxMv cache = cellMaxMv bc" "bc_cellMinMv cache = cellMinMv bc" "bc_warningLevel cache = warningLevel bc"
  using assms by (auto simp: pending_def staleCells_def staleSummary_def stale_0 split: if_splits)

lemma new_cache: "cache_wf BmsNextionCache_new" "\<not> bc_isWarm BmsNextionCache_new" "sent BmsNextionCache_new uart"
  by (auto simp: BmsNextionCache_new_def cache_wf_def sent_def sentArray_def sentValue_def)

lemma cellBarFill_le: "unat (cellBarFill mv) \<le> 100"
proof (cases "mv \<le> 2500 \<or> 3650 \<le> mv")
  case False
  then have n: "2500 < unat mv" "unat mv < 3650" by (simp_all add: word_less_nat_alt word_le_nat_alt)
  then have d: "unat (mv - 2500) = unat mv - 2500" by (simp add: unat_sub word_le_nat_alt)
  then have "unat (ucast (mv - 2500) :: u32) = unat mv - 2500"
    using n by (simp add: unsigned_ucast_eq take_bit_nat_eq_self)
  then have p: "unat (ucast (mv - 2500) * 100 :: u32) = (unat mv - 2500) * 100" using n by (simp add: unat_word_ariths)
  have "unat ((ucast (mv - 2500) * 100 :: u32) div 1150) \<le> 100" using n by (simp add: unat_div p)
  moreover have "unat (ucast w :: u8) \<le> unat w" for w :: u32 by (simp add: unsigned_ucast_eq)
  ultimately have "unat (ucast ((ucast (mv - 2500) * 100 :: u32) div 1150) :: u8) \<le> 100" by (rule order_trans[rotated])
  moreover have "cellBarFill mv = ucast ((ucast (mv - 2500) * 100 :: u32) div 1150)"
    using False by (auto simp: cellBarFill_def BMS_SOC_EMPTY_MV_def BMS_SOC_FULL_MV_def)
  ultimately show ?thesis by simp
qed (auto simp: cellBarFill_def BMS_SOC_EMPTY_MV_def BMS_SOC_FULL_MV_def)

text \<open>C31. After a start the cell page settles within twenty calls, two seconds: whatever the pack, the
  forced call and nineteen more of the 10 Hz calls leave every bar and every balancing flag of
  the display at the value of the pack, and every cell voltage, the two extremes and the warning
  level too, except a voltage or extreme of 0 and a warning level of 255: these equal the values
  the cache starts with, so they are never sent, as for a pack without cell data.  From then on
  the calls write nothing until the data change.\<close>

theorem page_converges:
  assumes "length (cellVoltageMv raw) = BMS_CELL_COUNT" "length (balanceFlag bc) = BMS_CELL_COUNT" "19 \<le> length us"
    and "buildBmsNextionCommands (Some BMS_emitNextionCommand) bc raw True u BMS_NEXTION_MAX_BYTES (BmsNextionCache_new, uart0) = st"
    and "pageCalls BMS_emitNextionCommand bc raw us st = (cache, uart)"
  shows "(\<forall>i < BMS_CELL_COUNT.
       (cellVoltageMv raw ! i = 0 \<or>
          shown (''cell'' @ show_nat i) uart = Some (numText (''cell'' @ show_nat i) (uint (cellVoltageMv raw ! i)))) \<and>
       shown (''j'' @ show_nat i) uart = Some (numText (''j'' @ show_nat i) (uint (cellBarFill (cellVoltageMv raw ! i)))) \<and>
       shown (''bal'' @ show_nat i) uart = Some (numText (''bal'' @ show_nat i) (if balanceFlag bc ! i then 1 else 0))) \<and>
     (cellMaxMv bc = 0 \<or> shown ''cellmax'' uart = Some (numText ''cellmax'' (uint (cellMaxMv bc)))) \<and>
     (cellMinMv bc = 0 \<or> shown ''cellmin'' uart = Some (numText ''cellmin'' (uint (cellMinMv bc)))) \<and>
     (warningLevel bc = 255 \<or> shown ''warn'' uart = Some (numText ''warn'' (uint (warningLevel bc)))) \<and>
     pageCalls BMS_emitNextionCommand bc raw vs (cache, uart) = (cache, uart)"
proof -
  obtain c0 u0 where st: "st = (c0, u0)" by fastforce
  note b = assms(4)[unfolded st BMS_NEXTION_MAX_BYTES_def]
  have c0: "cache_wf c0" "\<not> bc_isWarm c0" using forced_call[OF new_cache(1,2) b] by simp_all
  have s0: "sent c0 u0" using build_sent[OF new_cache(1,3) b] .
  note calls = assms(5)[unfolded st]
  have "pending bc raw c0 \<le> 4 * length us" "0 < length us" using pending_bound[of bc raw c0] assms(3) by linarith+
  from pageCalls_settle[OF c0 this calls] have f: "pending bc raw cache = 0" "bc_isWarm cache" by simp_all
  have s: "sent cache uart" using pageCalls_sent[OF c0(1) s0 _ calls] c0(2) by simp
  have ne: "cellBarFill mv \<noteq> 255" "(if x then 1 else 0 :: u8) \<noteq> 255" for mv x using cellBarFill_le[of mv] by auto
  show ?thesis
    using pageCalls_idle[OF f] pending_0[OF f(1)] s ne assms(1,2)
    by (auto simp: sent_def sentArray_def sentValue_def barData_def balData_def)
qed

text \<open>A pack at rest and what the firmware computes for it.\<close>

definition restingPack :: BmsPackData where
  "restingPack = \<lparr> cellVoltageMv = replicate BMS_CELL_COUNT 3300, cellTempC = replicate BMS_CELL_COUNT 0,
     packCurrentMa = 0, pack_isValid = True, cellDataValid = True \<rparr>"

lemma length_balanceFlag: "length (balanceFlag (computePack p)) = BMS_CELL_COUNT"
proof -
  have "length (fold (\<lambda>i flags. if cellVoltageMv p ! i \<ge> b then flags[i := True] else flags) ids flags) = length flags" for b ids flags
    by (induction ids arbitrary: flags) auto
  then show ?thesis
    by (simp add: computePack_def makeSafeInvalid_def makeNoCellData_def BmsComputed_zero_def balanceCells_def Let_def)
qed

theorem page_converges_witness:
  "\<exists>uart. shown ''cell23'' uart = Some ''cell23.val=3300'' \<and>
     uart = snd (pageCalls BMS_emitNextionCommand (computePack restingPack) restingPack (replicate 19 False)
       (buildBmsNextionCommands (Some BMS_emitNextionCommand) (computePack restingPack) restingPack True True BMS_NEXTION_MAX_BYTES
          (BmsNextionCache_new, [])))"
proof -
  let ?bc = "computePack restingPack"
  let ?st = "buildBmsNextionCommands (Some BMS_emitNextionCommand) ?bc restingPack True True BMS_NEXTION_MAX_BYTES (BmsNextionCache_new, [])"
  obtain cache uart where r: "pageCalls BMS_emitNextionCommand ?bc restingPack (replicate 19 False) ?st = (cache, uart)" by fastforce
  have "length (cellVoltageMv restingPack) = BMS_CELL_COUNT" "length (balanceFlag ?bc) = BMS_CELL_COUNT"
    by (simp_all add: restingPack_def length_balanceFlag)
  from page_converges[OF this _ refl r] have "\<forall>i < BMS_CELL_COUNT. cellVoltageMv restingPack ! i = 0 \<or>
      shown (''cell'' @ show_nat i) uart = Some (numText (''cell'' @ show_nat i) (uint (cellVoltageMv restingPack ! i)))" by simp
  from this[rule_format, of 23] have "shown (''cell'' @ show_nat 23) uart = Some (numText (''cell'' @ show_nat 23) 3300)"
    by (simp add: restingPack_def)
  moreover have "''cell'' @ show_nat 23 = ''cell23''" "numText ''cell23'' 3300 = ''cell23.val=3300''" by code_simp+
  ultimately have "shown ''cell23'' uart = Some ''cell23.val=3300''" by simp
  then show ?thesis using r by (intro exI[of _ uart]) simp
qed

subsection \<open>Starvation\<close>

text \<open>Once fewer than nine bytes of the budget are left no command fits any more.\<close>

definition blocked :: "'c Emitter \<Rightarrow> bool" where
  "blocked em \<longleftrightarrow> budgetExhausted em \<or> 81 < currentBytes em"

definition unmoved :: "'c Emitter \<Rightarrow> 'c Emitter \<Rightarrow> bool" where
  "unmoved em em' \<longleftrightarrow> (blocked em \<longrightarrow> blocked em' \<and> em_ctx em' = em_ctx em)"

lemma unmoved_trans: "unmoved a b \<Longrightarrow> unmoved b c \<Longrightarrow> unmoved a c"
  by (simp add: unmoved_def)

lemma emit_blocked:
  assumes "9 \<le> cost n i v" "cost n i v < 40" "emitAndCheck emit 90 n i v em = (ok, em')"
  shows "unmoved em em' \<and> (blocked em \<longrightarrow> \<not> ok)"
  using assms by (auto simp: emit_eq blocked_def unmoved_def split: if_splits)

lemma fold_blocked:
  assumes "\<forall>i \<in> set ids. 9 \<le> cost n (int i) (uint (vals ! i)) \<and> cost n (int i) (uint (vals ! i)) < 40"
    and "fold (arrayStep emit 90 n False vals) ids (cached, ok, em) = (cached', ok', em')"
  shows "unmoved em em' \<and> (blocked em \<longrightarrow> cached' = cached)"
  using assms
proof (induction ids arbitrary: cached ok em)
  case Nil
  then show ?case by (simp add: unmoved_def)
next
  case (Cons i ids)
  obtain c1 ok1 em1 where s: "arrayStep emit 90 n False vals i (cached, ok, em) = (c1, ok1, em1)" by (metis prod_cases3)
  obtain sn em2 where e: "emitAndCheck emit 90 n (int i) (uint (vals ! i)) em = (sn, em2)" by fastforce
  have "unmoved em em1 \<and> (blocked em \<longrightarrow> c1 = cached)"
    using emit_blocked[OF _ _ e] Cons.prems(1) s e by (cases sn) (auto simp: arrayStep_def unmoved_def split: if_splits)
  moreover have "unmoved em1 em' \<and> (blocked em1 \<longrightarrow> cached' = c1)" using Cons.IH[of c1 ok1 em1] Cons.prems s by simp
  ultimately show ?case by (auto simp: unmoved_def)
qed

lemma arrayLoop_blocked:
  fixes vals :: "'a::len word list"
  assumes "length n \<le> 4" "n \<noteq> []" "\<And>w :: 'a word. uint w < 65536"
    and "arrayLoop emit 90 n False vals (cached, ok, em) = (cached', ok', em')"
  shows "unmoved em em'"
proof -
  have "9 \<le> cost n (int i) (uint (vals ! i)) \<and> cost n (int i) (uint (vals ! i)) < 40" if "i < 24" for i
    using cost_indexed[where n = n and i = i and w = "vals ! i"] that assms(1-3) by auto
  then show ?thesis using fold_blocked[OF _ assms(4)[unfolded arrayLoop_def]] by simp
qed

lemma summaryStep_blocked:
  assumes "4 \<le> length n" "length n \<le> 7" "uint (v :: 'a::len word) < 65536"
    and "summaryStep emit 90 n False v (cached, ok, em) = (cached', ok', em')"
  shows "unmoved em em'"
proof -
  obtain sn em2 where e: "emitAndCheck emit 90 n (- 1) (uint v) em = (sn, em2)" by fastforce
  have "9 \<le> cost n (- 1) (uint v) \<and> cost n (- 1) (uint v) < 40" using cost_plain[of v n] assms(1-3) by auto
  then show ?thesis using emit_blocked[OF _ _ e] assms(4) e
    by (cases sn) (auto simp: summaryStep_def unmoved_def split: if_splits)
qed

lemma summaryPass_blocked: "summaryPass emit 90 False bc (cache, ok, em) = (cache', ok', em') \<Longrightarrow> unmoved em em'"
  by (auto simp: summaryPass_def split: prod.splits
      dest!: summaryStep_blocked[OF _ _ uint_16, rotated 2] summaryStep_blocked[OF _ _ uint_8, rotated 2]
      intro: unmoved_trans)

text \<open>Five four-digit cells fill 85 of the 90 bytes.\<close>

definition fourDigits :: "u16 \<Rightarrow> bool" where
  "fourDigits v \<longleftrightarrow> 1000 \<le> v \<and> v < 10000"

lemma cost_fourDigits: "i < 10 \<Longrightarrow> fourDigits v \<Longrightarrow> cost ''cell'' (int i) (uint v) = 17"
proof -
  assume "i < 10" "fourDigits v"
  then have n: "1000 \<le> unat v" "unat v < 10000" by (simp_all add: fourDigits_def word_le_nat_alt word_less_nat_alt)
  then have d: "100 \<le> unat v div 10" "unat v div 10 < 1000" by linarith+
  then have e: "10 \<le> unat v div 10 div 10" "unat v div 10 div 10 < 100" by linarith+
  then have "unat v div 10 div 10 div 10 < 10" by linarith
  then have "length (show_nat (unat v)) = 4" using n d e by (simp add: show_nat.simps)
  then show ?thesis using \<open>i < 10\<close> by (simp add: cost_def numText_def indexedName_def show_int_def show_nat.simps[of i])
qed

lemma noisy_fold:
  assumes "\<forall>i \<in> set ids. i < 10 \<and> fourDigits (vals ! i) \<and> vals ! i \<noteq> cached ! i" "distinct ids"
    and "length cached = BMS_CELL_COUNT" "\<not> budgetExhausted em" "currentBytes em + 17 * length ids \<le> 90"
    and "fold (arrayStep BMS_emitNextionCommand 90 ''cell'' False vals) ids (cached, ok, em) = (cached', ok', em')"
  shows "(\<forall>i \<in> set ids. cached' ! i = vals ! i) \<and> (\<forall>i. i \<notin> set ids \<longrightarrow> cached' ! i = cached ! i) \<and>
    currentBytes em' = currentBytes em + 17 * length ids \<and>
    onlyFor (\<lambda>x. \<exists>i \<in> set ids. x = ''cell'' @ show_nat i) (em_ctx em) (em_ctx em')"
  using assms
proof (induction ids arbitrary: cached ok em)
  case Nil
  then show ?case by (simp add: onlyFor_def)
next
  case (Cons i ids)
  obtain sn em1 where e: "emitAndCheck BMS_emitNextionCommand 90 ''cell'' (int i) (uint (vals ! i)) em = (sn, em1)" by fastforce
  have c: "cost ''cell'' (int i) (uint (vals ! i)) = 17" using cost_fourDigits Cons.prems(1) by simp
  have em1: "sn" "\<not> budgetExhausted em1" "currentBytes em1 = currentBytes em + 17"
    using e Cons.prems(4,5) by (auto simp: emit_eq c split: if_splits)
  have nm: "indexedName ''cell'' (int i) = ''cell'' @ show_nat i" by (simp add: indexedName_def)
  have o: "onlyFor (\<lambda>x. x = ''cell'' @ show_nat i) (em_ctx em) (em_ctx em1)"
    using emit_shown[OF _ _ e, unfolded nm] plain_indexed[OF page_names(1), of i] c by simp
  have "arrayStep BMS_emitNextionCommand 90 ''cell'' False vals i (cached, ok, em) = (cached[i := vals ! i], ok, em1)"
    using Cons.prems(1) e em1(1) by (simp add: arrayStep_def)
  then have r: "fold (arrayStep BMS_emitNextionCommand 90 ''cell'' False vals) ids (cached[i := vals ! i], ok, em1) = (cached', ok', em')"
    using Cons.prems(6) by simp
  have "\<forall>k \<in> set ids. k < 10 \<and> fourDigits (vals ! k) \<and> vals ! k \<noteq> cached[i := vals ! i] ! k"
    using Cons.prems(1,2) by (metis distinct.simps(2) list.set_intros(2) nth_list_update_neq)
  from Cons.IH[OF this _ _ em1(2) _ r] show ?case
    using Cons.prems em1(3) o by (auto simp: onlyFor_def nth_list_update)
qed

text \<open>A call in which the first five cells have changed.\<close>

definition fiveCells :: "string \<Rightarrow> bool" where
  "fiveCells x \<longleftrightarrow> (\<exists>i < 5. x = ''cell'' @ show_nat i)"

lemma noisy_cells:
  assumes "\<forall>i < 5. fourDigits (cellVoltageMv raw ! i) \<and> cellVoltageMv raw ! i \<noteq> cached ! i" "length cached = BMS_CELL_COUNT"
    and "arrayLoop BMS_emitNextionCommand 90 ''cell'' False (cellVoltageMv raw)
           (cached, ok, \<lparr> em_ctx = uart, currentBytes = 0, budgetExhausted = False \<rparr>) = (cached', ok', em')"
  shows "(\<forall>i < 5. cached' ! i = cellVoltageMv raw ! i) \<and> blocked em' \<and> onlyFor fiveCells uart (em_ctx em')"
proof -
  let ?em = "\<lparr> em_ctx = uart, currentBytes = 0, budgetExhausted = False \<rparr>"
  have ids: "cellIndices = [0..<5] @ [5..<24]" by (simp add: upt_conv_Cons)
  obtain c1 o1 e1 where f: "fold (arrayStep BMS_emitNextionCommand 90 ''cell'' False (cellVoltageMv raw)) [0..<5] (cached, ok, ?em) = (c1, o1, e1)"
    by (metis prod_cases3)
  have a: "(\<forall>i < 5. c1 ! i = cellVoltageMv raw ! i)" "blocked e1" "onlyFor fiveCells uart (em_ctx e1)"
    using noisy_fold[OF _ _ assms(2) _ _ f] assms(1) by (auto simp: blocked_def fiveCells_def onlyFor_def)
  have g: "fold (arrayStep BMS_emitNextionCommand 90 ''cell'' False (cellVoltageMv raw)) [5..<24] (c1, o1, e1) = (cached', ok', em')"
    using assms(3) f by (simp add: arrayLoop_def ids del: BMS_CELL_COUNT_def)
  have "9 \<le> cost ''cell'' (int i) (uint (cellVoltageMv raw ! i)) \<and> cost ''cell'' (int i) (uint (cellVoltageMv raw ! i)) < 40" if "i < 24" for i
    using cost_indexed[of i "cellVoltageMv raw ! i" "''cell''"] that uint_16 by auto
  then have "\<forall>i \<in> set [5..<24]. 9 \<le> cost ''cell'' (int i) (uint (cellVoltageMv raw ! i)) \<and>
      cost ''cell'' (int i) (uint (cellVoltageMv raw ! i)) < 40" by (simp del: upt_rec_numeral)
  from fold_blocked[OF this g] a show ?thesis by (simp add: unmoved_def)
qed

text \<open>A run of calls with changing data, and the condition that the first five cells differ from
  their last values whenever the cells are due.\<close>

fun pageTrace :: "(BmsComputed \<times> BmsPackData \<times> bool) list \<Rightarrow> BmsNextionCache \<times> string list \<Rightarrow> BmsNextionCache \<times> string list" where
  "pageTrace [] st = st"
| "pageTrace ((bc, raw, u) # cs) st =
     pageTrace cs (buildBmsNextionCommands (Some BMS_emitNextionCommand) bc raw False u BMS_NEXTION_MAX_BYTES st)"

fun noisy :: "u16 list \<Rightarrow> (BmsComputed \<times> BmsPackData \<times> bool) list \<Rightarrow> bool" where
  "noisy prev [] = True"
| "noisy prev ((bc, raw, u) # cs) =
     (if u then list_all (\<lambda>i. fourDigits (cellVoltageMv raw ! i) \<and> cellVoltageMv raw ! i \<noteq> prev ! i) [0..<5] \<and>
                noisy (cellVoltageMv raw) cs
      else noisy prev cs)"

lemma noisy_cong: "\<forall>i < 5. prev ! i = prev' ! i \<Longrightarrow> noisy prev cs = noisy prev' cs"
  by (induction prev cs arbitrary: prev' rule: noisy.induct) (auto simp: list_all_iff simp del: upt_rec_numeral)

text \<open>The components that a starved run leaves alone.\<close>

definition busy :: "string \<Rightarrow> bool" where
  "busy x \<longleftrightarrow> fiveCells x \<or> x \<in> {''cellmax'', ''cellmin'', ''warn''}"

lemma summaryStep_only:
  assumes "plainName n" "4 \<le> length n" "length n \<le> 7" "uint (v :: 'a::len word) < 65536"
    and "summaryStep BMS_emitNextionCommand m n force v (cached, ok, em) = (cached', ok', em')"
  shows "onlyFor (\<lambda>x. x = n) (em_ctx em) (em_ctx em')"
  using summaryStep_shown[OF assms(1-4) _ assms(5), of cached] by (simp add: sentValue_def)

lemma summaryPass_only:
  assumes "summaryPass BMS_emitNextionCommand m force bc (cache, ok, em) = (cache', ok', em')"
  shows "onlyFor busy (em_ctx em) (em_ctx em')"
proof -
  obtain c1 o1 e1 where l1: "summaryStep BMS_emitNextionCommand m ''cellmax'' force (cellMaxMv bc) (bc_cellMaxMv cache, ok, em) = (c1, o1, e1)"
    by (metis prod_cases3)
  obtain c2 o2 e2 where l2: "summaryStep BMS_emitNextionCommand m ''cellmin'' force (cellMinMv bc) (bc_cellMinMv cache, o1, e1) = (c2, o2, e2)"
    by (metis prod_cases3)
  obtain c3 o3 e3 where l3: "summaryStep BMS_emitNextionCommand m ''warn'' force (warningLevel bc) (bc_warningLevel cache, o2, e2) = (c3, o3, e3)"
    by (metis prod_cases3)
  have "em' = e3" using assms l1 l2 l3 by (auto simp: summaryPass_def)
  then show ?thesis
    using summaryStep_only[OF page_names(4) _ _ uint_16 l1] summaryStep_only[OF page_names(5) _ _ uint_16 l2]
      summaryStep_only[OF page_names(6) _ _ uint_8 l3] by (simp add: onlyFor_def busy_def)
qed

lemma summaryPass_keeps:
  "bc_cellVoltageMv (fst (summaryPass emit m force bc (cache, ok, em))) = bc_cellVoltageMv cache"
  "cache_wf (fst (summaryPass emit m force bc (cache, ok, em))) = cache_wf cache"
  "bc_isWarm (fst (summaryPass emit m force bc (cache, ok, em))) = bc_isWarm cache"
  by (simp_all add: summaryPass_def case_prod_beta cache_wf_def)

lemma build_only:
  assumes "cache_wf cache" "sent cache uart"
    and "buildBmsNextionCommands (Some BMS_emitNextionCommand) bc raw force u m (cache, uart) = (cache', uart')"
  shows "onlyFor pageName uart uart' \<and> cache_wf cache'"
proof -
  obtain c1 o1 e1 where f: "firstPass BMS_emitNextionCommand m force u bc raw cache uart = (c1, o1, e1)" by (metis prod_cases3)
  obtain c2 o2 e2 where q: "summaryPass BMS_emitNextionCommand m force bc (c1, o1, e1) = (c2, o2, e2)" by (metis prod_cases3)
  have "onlyFor pageName uart (em_ctx e1) \<and> cache_wf c1"
    using f assms(1,2) cellPass_shown[of cache "\<lparr> em_ctx = uart, currentBytes = 0, budgetExhausted = False \<rparr>"] cellPass_wf[OF assms(1)]
    by (auto simp: firstPass_def Let_def onlyFor_def split: if_splits)
  moreover have "onlyFor pageName (em_ctx e1) (em_ctx e2)"
    using summaryPass_only[OF q] by (rule onlyFor_mono) (auto simp: busy_def fiveCells_def pageName_def)
  moreover have "cache_wf c2 = cache_wf c1"
    using summaryPass_keeps(2)[of BMS_emitNextionCommand m force bc c1 o1 e1] by (simp add: q)
  moreover have "cache' = (if o2 then c2\<lparr> bc_isWarm := True \<rparr> else c2)" "uart' = em_ctx e2" using assms(3) f q by (auto simp: build_eq Let_def)
  ultimately show ?thesis using onlyFor_trans by (auto simp: cache_wf_def)
qed

text \<open>One call, whether the cells are due or not.\<close>

lemma build_step:
  assumes "cache_wf cache" "buildBmsNextionCommands (Some emit) bc raw False u 90 (cache, ctx) = (cache', ctx')"
  shows "cache_wf cache' \<and> (pending bc raw cache' = 0 \<and> bc_isWarm cache' \<or>
    pending bc raw cache' \<le> pending bc raw cache \<and> bc_isWarm cache' = bc_isWarm cache \<and>
    (u \<longrightarrow> 0 < pending bc raw cache' \<and> pending bc raw cache' + 4 \<le> pending bc raw cache))"
proof (cases "u \<or> \<not> bc_isWarm cache")
  case True
  then show ?thesis using build_progress[OF assms(1) True assms(2)] by auto
next
  case False
  let ?em = "\<lparr> em_ctx = ctx, currentBytes = 0, budgetExhausted = False \<rparr>"
  obtain c2 o2 e2 where q: "summaryPass emit 90 False bc (cache, True, ?em) = (c2, o2, e2)" by (metis prod_cases3)
  have r: "cache' = (if o2 then c2\<lparr> bc_isWarm := True \<rparr> else c2)" using assms(2) False q by (auto simp: build_eq firstPass_def Let_def)
  note Q = summaryPass_passed[OF q, of raw]
  then have "staleSummary bc c2 \<le> staleSummary bc cache" by (auto simp: passed_def)
  then show ?thesis using Q False assms(1) by (auto simp: r pending_def staleCells_def staleSummary_def cache_wf_def)
qed

lemma noisy_pass:
  assumes "cache_wf cache" "\<forall>i < 5. fourDigits (cellVoltageMv raw ! i) \<and> cellVoltageMv raw ! i \<noteq> bc_cellVoltageMv cache ! i"
    and "cellPass BMS_emitNextionCommand 90 False bc raw
           (cache, ok, \<lparr> em_ctx = uart, currentBytes = 0, budgetExhausted = False \<rparr>) = (cache', ok', em')"
  shows "(\<forall>i < 5. bc_cellVoltageMv cache' ! i = cellVoltageMv raw ! i) \<and> blocked em' \<and> onlyFor fiveCells uart (em_ctx em') \<and>
    bc_isWarm cache' = bc_isWarm cache"
proof -
  let ?em = "\<lparr> em_ctx = uart, currentBytes = 0, budgetExhausted = False \<rparr>"
  obtain c1 o1 e1 where l1: "arrayLoop BMS_emitNextionCommand 90 ''cell'' False (cellVoltageMv raw) (bc_cellVoltageMv cache, ok, ?em) = (c1, o1, e1)"
    by (metis prod_cases3)
  obtain c2 o2 e2 where l2: "arrayLoop BMS_emitNextionCommand 90 ''j'' False (map cellBarFill (cellVoltageMv raw)) (bc_cellBarFill cache, o1, e1) = (c2, o2, e2)"
    by (metis prod_cases3)
  obtain c3 o3 e3 where l3: "arrayLoop BMS_emitNextionCommand 90 ''bal'' False (map (\<lambda>f. if f then 1 else 0) (balanceFlag bc)) (bc_balanceFlag cache, o2, e2) = (c3, o3, e3)"
    by (metis prod_cases3)
  have r: "cache' = cache\<lparr> bc_cellVoltageMv := c1, bc_cellBarFill := c2, bc_balanceFlag := c3 \<rparr>" "em' = e3"
    using assms(3) l1 l2 l3 by (auto simp: cellPass_def)
  have "unmoved e1 e3"
    using unmoved_trans arrayLoop_blocked[OF _ _ uint_8 l2] arrayLoop_blocked[OF _ _ uint_8 l3] by auto
  moreover have "length (bc_cellVoltageMv cache) = BMS_CELL_COUNT" using assms(1) by (simp add: cache_wf_def)
  note noisy_cells[OF assms(2) this l1]
  ultimately show ?thesis by (simp add: r unmoved_def)
qed

lemma starved_call:
  assumes "cache_wf cache" "bc_isWarm cache" "noisy (bc_cellVoltageMv cache) [(bc, raw, u)]"
    and "buildBmsNextionCommands (Some BMS_emitNextionCommand) bc raw False u 90 (cache, uart) = (cache', uart')"
  shows "cache_wf cache' \<and> bc_isWarm cache' \<and> onlyFor busy uart uart' \<and>
    (\<forall>i < 5. bc_cellVoltageMv cache' ! i = (if u then cellVoltageMv raw else bc_cellVoltageMv cache) ! i)"
proof -
  let ?em = "\<lparr> em_ctx = uart, currentBytes = 0, budgetExhausted = False \<rparr>"
  obtain c1 o1 e1 where f: "firstPass BMS_emitNextionCommand 90 False u bc raw cache uart = (c1, o1, e1)" by (metis prod_cases3)
  obtain c2 o2 e2 where q: "summaryPass BMS_emitNextionCommand 90 False bc (c1, o1, e1) = (c2, o2, e2)" by (metis prod_cases3)
  have r: "cache' = (if o2 then c2\<lparr> bc_isWarm := True \<rparr> else c2)" "uart' = em_ctx e2"
    using assms(4) f q by (auto simp: build_eq Let_def)
  have k: "bc_cellVoltageMv c2 = bc_cellVoltageMv c1" "cache_wf c2 = cache_wf c1" "bc_isWarm c2 = bc_isWarm c1"
    using summaryPass_keeps[of BMS_emitNextionCommand 90 False bc c1 o1 e1] by (simp_all add: q)
  have "cache_wf c1 \<and> bc_isWarm c1 \<and> onlyFor busy uart (em_ctx e1) \<and>
      (\<forall>i < 5. bc_cellVoltageMv c1 ! i = (if u then cellVoltageMv raw else bc_cellVoltageMv cache) ! i)"
  proof (cases u)
    case True
    then have p: "cellPass BMS_emitNextionCommand 90 False bc raw (cache, True, ?em) = (c1, o1, e1)" using f by (simp add: firstPass_def)
    have "\<forall>i < 5. fourDigits (cellVoltageMv raw ! i) \<and> cellVoltageMv raw ! i \<noteq> bc_cellVoltageMv cache ! i"
      using assms(3) True by (simp add: list_all_iff del: upt_rec_numeral)
    from noisy_pass[OF assms(1) this p] show ?thesis using cellPass_wf[OF assms(1) p] assms(2) True
      by (auto simp: busy_def intro: onlyFor_mono)
  next
    case False
    then show ?thesis using f assms(1,2) by (auto simp: firstPass_def onlyFor_def)
  qed
  then show ?thesis using k onlyFor_trans[OF _ summaryPass_only[OF q]] by (simp add: r cache_wf_def)
qed

lemma starved_trace:
  "cache_wf cache \<Longrightarrow> bc_isWarm cache \<Longrightarrow> noisy (bc_cellVoltageMv cache) calls \<Longrightarrow>
   pageTrace calls (cache, uart) = (cache', uart') \<Longrightarrow> onlyFor busy uart uart'"
proof (induction calls arbitrary: cache uart)
  case Nil
  then show ?case by (simp add: onlyFor_def)
next
  case (Cons c cs)
  obtain bc raw u where c: "c = (bc, raw, u)" by (metis prod_cases3)
  obtain c1 u1 where b: "buildBmsNextionCommands (Some BMS_emitNextionCommand) bc raw False u 90 (cache, uart) = (c1, u1)" by fastforce
  have "noisy (bc_cellVoltageMv cache) [(bc, raw, u)]" using Cons.prems(3) by (simp add: c split: if_splits)
  note S = starved_call[OF Cons.prems(1,2) this b]
  have "noisy (if u then cellVoltageMv raw else bc_cellVoltageMv cache) cs" using Cons.prems(3) by (simp add: c split: if_splits)
  then have "noisy (bc_cellVoltageMv c1) cs" using S noisy_cong[of "bc_cellVoltageMv c1"] by blast
  moreover have "pageTrace cs (c1, u1) = (cache', uart')" using Cons.prems(4) b by (simp add: c BMS_NEXTION_MAX_BYTES_def)
  ultimately have "onlyFor busy u1 uart'" using Cons.IH S by blast
  then show ?case using S onlyFor_trans by blast
qed

text \<open>C32. Five restless cells starve the page: once the cache is warm, as long as the first five cells
  have four-digit values that differ at every 1 Hz update from the update before, no command
  for the other nineteen cells, for any bar or for any balancing flag is ever sent, whatever
  their values do: the display keeps showing what it showed.\<close>

theorem five_noisy_cells_starve:
  assumes "cache_wf cache" "bc_isWarm cache" "noisy (bc_cellVoltageMv cache) calls"
    and "pageTrace calls (cache, uart) = (cache', uart')"
  shows "(\<forall>i. 5 \<le> i \<longrightarrow> shown (''cell'' @ show_nat i) uart' = shown (''cell'' @ show_nat i) uart) \<and>
     (\<forall>i. shown (''j'' @ show_nat i) uart' = shown (''j'' @ show_nat i) uart) \<and>
     (\<forall>i. shown (''bal'' @ show_nat i) uart' = shown (''bal'' @ show_nat i) uart)"
proof -
  have "\<not> busy (''j'' @ show_nat i)" "\<not> busy (''bal'' @ show_nat i)" "5 \<le> i \<Longrightarrow> \<not> busy (''cell'' @ show_nat i)" for i
    using names_apart(4,5,10)[of i] by (auto simp: busy_def fiveCells_def show_nat_inj)
  then show ?thesis using starved_trace[OF assms] plain_indexed page_names unfolding onlyFor_def by blast
qed

text \<open>A cell at 2000 mV behind five restless ones.\<close>

definition packOf :: "u16 \<Rightarrow> u16 \<Rightarrow> BmsPackData" where
  "packOf v w = restingPack\<lparr> cellVoltageMv := replicate 5 v @ replicate 19 w \<rparr>"

definition warmCache :: BmsNextionCache where
  "warmCache = BmsNextionCache_new\<lparr> bc_cellVoltageMv := replicate BMS_CELL_COUNT 3300, bc_isWarm := True \<rparr>"

lemma packOf_nth: "i < 5 \<Longrightarrow> cellVoltageMv (packOf v w) ! i = v"
  by (simp add: packOf_def nth_append)

theorem five_noisy_cells_starve_witness:
  "shown ''cell7'' (snd (pageTrace [(computePack (packOf 3301 3300), packOf 3301 3300, True),
       (computePack (packOf 3302 2000), packOf 3302 2000, False), (computePack (packOf 3300 2000), packOf 3300 2000, True)]
     (warmCache, [''cell7.val=3300'']))) = Some ''cell7.val=3300''"
proof -
  let ?calls = "[(computePack (packOf 3301 3300), packOf 3301 3300, True), (computePack (packOf 3302 2000), packOf 3302 2000, False),
    (computePack (packOf 3300 2000), packOf 3300 2000, True)]"
  obtain cache' uart' where r: "pageTrace ?calls (warmCache, [''cell7.val=3300'']) = (cache', uart')" by fastforce
  have "cache_wf warmCache" "bc_isWarm warmCache" "noisy (bc_cellVoltageMv warmCache) ?calls"
    by (simp_all add: warmCache_def BmsNextionCache_new_def cache_wf_def packOf_nth fourDigits_def list_all_iff)
  from five_noisy_cells_starve[OF this r] have "shown (''cell'' @ show_nat 7) uart' = shown (''cell'' @ show_nat 7) [''cell7.val=3300'']" by simp
  moreover have "''cell'' @ show_nat 7 = ''cell7''" "shown ''cell7'' [''cell7.val=3300''] = Some ''cell7.val=3300''" by code_simp+
  ultimately show ?thesis using r by simp
qed

end
