(* ===== verification/Hmi_Task.thy ===== *)
theory Hmi_Task
  imports Hmi_Ema Bms_Page Aks_System
begin

text \<open>
  The HMI task of src/main.cpp: the bounded start of the display, and one cycle of its loop:
  the screen with smoothed needles, the cell page at 1 Hz, and the touch commands.  The task
  keeps its local and static variables in \<open>HmiTask\<close> and the bytes written to the display in
  \<open>hmi_uart\<close>.  A cycle is \<open>None\<close> when a conversion of a needle leaves the range of its type,
  which is undefined behaviour.
\<close>

record HmiTask =
  HMI_smoothedRpm :: F32
  HMI_smoothedSpeed :: F32
  BMS_hmiCache :: BmsNextionCache
  BMS_lastCellUpdateMs :: u32
  BMS_firstRun :: bool
  hmi_uart :: "string list"

definition HmiTask_new :: "string list \<Rightarrow> HmiTask" where
  "HmiTask_new uart = \<lparr> HMI_smoothedRpm = F32 0 0, HMI_smoothedSpeed = F32 0 0, BMS_hmiCache = BmsNextionCache_new,
     BMS_lastCellUpdateMs = 0, BMS_firstRun = True, hmi_uart = uart \<rparr>"

text \<open>Up to five attempts to start the display; \<open>answers n\<close> are those of the UART driver when
  \<open>n\<close> attempts are left after the current one.\<close>

fun HMI_beginLoop :: "nat \<Rightarrow> (nat \<Rightarrow> bool \<times> bool \<times> bool) \<Rightarrow> DisplayHMI \<times> string list \<Rightarrow> bool \<times> DisplayHMI \<times> string list" where
  "HMI_beginLoop 0 answers hu = (False, hu)"
| "HMI_beginLoop (Suc n) answers hu =
    (case answers n of (paramOk, pinOk, installOk) \<Rightarrow>
       let (hmi_ok, hu) = DisplayHMI_begin paramOk pinOk installOk hu
       in if hmi_ok then (True, hu) else HMI_beginLoop n answers hu)"

definition vTask_HMI_start :: "(nat \<Rightarrow> bool \<times> bool \<times> bool) \<Rightarrow> 'h System \<Rightarrow> ('h System \<times> HmiTask) option" where
  "vTask_HMI_start answers s =
    (let (hmi_ok, h, uart) = HMI_beginLoop 5 answers (sys_hmi s, [])
     in if hmi_ok then Some (s\<lparr> sys_hmi := h \<rparr>, HmiTask_new uart) else None)"

subsection \<open>The screen\<close>

definition HMI_noData :: HMI_DisplayData where
  "HMI_noData = HMI_DisplayData_zero\<lparr> HMI_currentBattery := HMI_BATTERY_NO_DATA, HMI_bmsTemperatureC := HMI_TEMP_NO_DATA \<rparr>"

definition HMI_fromTelemetry :: "TelemetryData \<Rightarrow> HmiTask \<Rightarrow> (HMI_DisplayData \<times> HmiTask) option" where
  "HMI_fromTelemetry TEL_data t =
    (let targetRpm = round32 (sint (TEL_motorRpm TEL_data)) 0;
         targetSpeed = f32_div (f32_of_int (uint (TEL_speedKmhX10 TEL_data))) (F32 10 0);
         t = t\<lparr> HMI_smoothedRpm := HMI_ema targetRpm (HMI_smoothedRpm t) \<rparr>;
         t = t\<lparr> HMI_smoothedSpeed := HMI_ema targetSpeed (HMI_smoothedSpeed t) \<rparr>
     in case f32_to_u16 (HMI_smoothedSpeed t) of
          None \<Rightarrow> None
        | Some shownSpeed \<Rightarrow>
            (case f32_to_u16 (HMI_smoothedRpm t) of
               None \<Rightarrow> None
             | Some shownRpm \<Rightarrow>
                 Some (HMI_noData\<lparr>
                   HMI_currentSpeed := shownSpeed,
                   HMI_currentBattery := HMI_batteryDisplayValue HMI_SOC_SOURCE_VERIFIED (TEL_bmsDataValid TEL_data)
                     (TEL_bmsSocHundredths TEL_data),
                   HMI_motorRpm := shownRpm,
                   HMI_motorErrorFlags := TEL_motorErrorFlags TEL_data,
                   HMI_motorDataValid := TEL_motorDataValid TEL_data,
                   HMI_motorTimeoutActive := TEL_motorTimeoutActive TEL_data,
                   HMI_bmsTemperatureC := HMI_temperatureDisplayValue HMI_TEMP_SOURCE_VERIFIED (TEL_bmsDataValid TEL_data)
                     (scast (TEL_bmsTempHighestC TEL_data)),
                   HMI_bmsPackVoltageDeciV := TEL_bmsPackVoltageDeciV TEL_data,
                   HMI_bmsPackCurrentCentiA := TEL_bmsCurrentCentiA TEL_data \<rparr>, t)))"

definition vTask_HMI_screen :: "'h System \<times> HmiTask \<Rightarrow> ('h System \<times> HmiTask) option" where
  "vTask_HMI_screen st =
    (let (s, t) = st;
         r = (case TEL_sensorDataQueue s of
                Some (Some TEL_data) \<Rightarrow> HMI_fromTelemetry TEL_data t
              | _ \<Rightarrow> Some (HMI_noData, t))
     in case r of
          None \<Rightarrow> None
        | Some (d, t) \<Rightarrow>
            (let d = d\<lparr> HMI_vcuState := HMI_mapVcuState (s_state (sys_vcu s)),
                         HMI_contactorClosed := HMI_areAllContactorsClosed (relayObj (sys_vcu s)) \<rparr>;
                 (h, uart) = updateScreen d (sys_hmi s, hmi_uart t)
             in Some (s\<lparr> sys_hmi := h \<rparr>, t\<lparr> hmi_uart := uart \<rparr>)))"

subsection \<open>The cell page\<close>

definition BmsPackData_zero :: BmsPackData where
  "BmsPackData_zero = \<lparr> cellVoltageMv = replicate BMS_CELL_COUNT 0, cellTempC = replicate BMS_CELL_COUNT 0, packCurrentMa = 0,
     pack_isValid = False, cellDataValid = False \<rparr>"

text \<open>The branch for invalid or stale data.\<close>

definition BMS_noPack :: "BmsComputed \<times> BmsPackData" where
  "BMS_noPack =
    (BmsComputed_zero\<lparr> balanceFlag := replicate BMS_CELL_COUNT False, cellMaxMv := HMI_CELL_VOLTAGE_NO_DATA,
       cellMinMv := HMI_CELL_VOLTAGE_NO_DATA, warningLevel := BMS_WARN_CRITICAL \<rparr>,
     BmsPackData_zero\<lparr> cellVoltageMv := replicate BMS_CELL_COUNT HMI_CELL_VOLTAGE_NO_DATA \<rparr>)"

definition BMS_pageData :: "TelemetryData option \<Rightarrow> BmsComputed \<times> BmsPackData" where
  "BMS_pageData peeked =
    (case peeked of
       Some TEL_data \<Rightarrow>
         (if TEL_bmsDataValid TEL_data then
            (let raw = BmsPackData_zero\<lparr> pack_isValid := True, packCurrentMa := TEL_bmsCurrentCentiA TEL_data * 10,
                         cellDataValid := TEL_cellVoltageDataValid TEL_data \<rparr>;
                 raw = raw\<lparr> cellVoltageMv := (if cellDataValid raw then map (\<lambda>i. TEL_bmsCellVoltages TEL_data ! i) [0..<BMS_CELL_COUNT]
                                              else replicate BMS_CELL_COUNT HMI_CELL_VOLTAGE_NO_DATA) \<rparr>
             in (computePack raw, raw))
          else BMS_noPack)
     | None \<Rightarrow> BMS_noPack)"

text \<open>When the cells are due: a full refresh in the first run, then an update once a second.\<close>

definition BMS_schedule :: "u32 \<Rightarrow> HmiTask \<Rightarrow> bool \<times> bool \<times> HmiTask" where
  "BMS_schedule nowMs t =
    (if BMS_firstRun t then (True, True, t\<lparr> BMS_firstRun := False, BMS_lastCellUpdateMs := nowMs \<rparr>)
     else if nowMs - BMS_lastCellUpdateMs t \<ge> 1000 then (False, True, t\<lparr> BMS_lastCellUpdateMs := nowMs \<rparr>)
     else (False, False, t))"

definition vTask_HMI_page :: "64 word \<Rightarrow> 'h System \<Rightarrow> HmiTask \<Rightarrow> HmiTask" where
  "vTask_HMI_page timeUs s t =
    (case TEL_sensorDataQueue s of
       None \<Rightarrow> t
     | Some peeked \<Rightarrow>
         (let (bc, raw) = BMS_pageData peeked;
              nowMs = ucast (timeUs div 1000);
              (forceRefresh, updateCells, t) = BMS_schedule nowMs t;
              (cache, uart) = buildBmsNextionCommands (Some BMS_emitNextionCommand) bc raw forceRefresh updateCells
                                BMS_NEXTION_MAX_BYTES (BMS_hmiCache t, hmi_uart t)
          in t\<lparr> BMS_hmiCache := cache, hmi_uart := uart \<rparr>))"

definition vTask_HMI_cycle :: "64 word \<Rightarrow> u8 list \<Rightarrow> 'h System \<times> HmiTask \<Rightarrow> ('h System \<times> HmiTask) option" where
  "vTask_HMI_cycle timeUs rx st =
    (case vTask_HMI_screen st of
       None \<Rightarrow> None
     | Some (s, t) \<Rightarrow>
         (let t = vTask_HMI_page timeUs s t;
              s = vTask_HMI_touch rx s
          in Some (s, t)))"

subsection \<open>The needles\<close>

lemma bitlen_le: "n < 2 ^ k \<Longrightarrow> bitlen n \<le> k"
proof (rule ccontr)
  assume n: "n < 2 ^ k" "\<not> bitlen n \<le> k"
  then have "0 < n" by (cases "n \<le> 0") (simp_all add: bitlen.simps[of n])
  from le_less_trans[OF bitlen_lower[OF this] n(1)] have "bitlen n - 1 < k" by (simp only: power_strict_increasing_iff)
  then show False using n(2) by simp
qed

lemma small_exact: "0 \<le> n \<Longrightarrow> n < 2 ^ 24 \<Longrightarrow> round32 n 0 = F32 n 0 \<and> f32_of_int n = F32 n 0"
  using bitlen_le[of n 24] by (simp add: round32_def f32_of_int_def round24_def max_def)

lemma rpm_target:
  assumes "0 \<le> sint (w :: i16)"
  shows "round32 (sint w) 0 = F32 (sint w) 0" "f32_val (F32 (sint w) 0) = real_of_int (sint w)"
  using assms sint_less[of w] small_exact[of "sint w"] by (simp_all add: f32_val_def)

lemma speed_target:
  fixes w :: u16
  defines "x \<equiv> f32_div (f32_of_int (uint w)) (F32 10 0)"
  shows "0 \<le> f_man x" "\<bar>f32_val x - real_of_int (uint w) / 10\<bar> \<le> 1 / 1000"
proof -
  have u: "uint w < 65536" "f32_of_int (uint w) = F32 (uint w) 0" using uint_lt2p[of w] small_exact[of "uint w"] by simp_all
  have "f32_in (F32 (uint w) 0) (real_of_int (uint w)) (real_of_int (uint w))" by (simp add: f32_in_def f32_val_def)
  from f32_div_bounds[OF this, of "F32 10 0"] have b: "0 \<le> f_man x"
      "real_of_int (uint w) / 10 * (1 - 1 / 2 ^ 26) * (1 - 1 / 2 ^ 24) \<le> f32_val x"
      "f32_val x \<le> real_of_int (uint w) / 10 * (1 + 1 / 2 ^ 26) * (1 + 1 / 2 ^ 24)"
    by (simp_all add: f32_in_def x_def u(2) f32_val_cases)
  show "0 \<le> f_man x" by (rule b(1))
  have w: "0 \<le> real_of_int (uint w)" "real_of_int (uint w) \<le> 65535" using u(1) uint_ge_0[of w] by linarith+
  define r where "r = real_of_int (uint w)"
  have "r / 10 - 1 / 1000 \<le> r / 10 * (1 - 1 / 2 ^ 26) * (1 - 1 / 2 ^ 24)" "r / 10 * (1 + 1 / 2 ^ 26) * (1 + 1 / 2 ^ 24) \<le> r / 10 + 1 / 1000"
    using w unfolding r_def[symmetric] by (simp_all add: field_simps)
  then show "\<bar>f32_val x - real_of_int (uint w) / 10\<bar> \<le> 1 / 1000" using b(2,3) unfolding r_def by linarith
qed

text \<open>What the task has smoothed stays within a fifth of the range of the inputs.\<close>

definition needlesBelow :: "int \<Rightarrow> int \<Rightarrow> HmiTask \<Rightarrow> bool" where
  "needlesBelow R X t \<longleftrightarrow> 0 \<le> f_man (HMI_smoothedRpm t) \<and> f32_val (HMI_smoothedRpm t) \<le> real_of_int R + 2 / 10 \<and>
     0 \<le> f_man (HMI_smoothedSpeed t) \<and> f32_val (HMI_smoothedSpeed t) \<le> real_of_int X / 10 + 1 / 1000 + 2 / 10"

definition inRange :: "int \<Rightarrow> int \<Rightarrow> TelemetryData \<Rightarrow> bool" where
  "inRange R X d \<longleftrightarrow> 0 \<le> sint (TEL_motorRpm d) \<and> sint (TEL_motorRpm d) \<le> R \<and> uint (TEL_speedKmhX10 d) \<le> X"

abbreviation rpmTarget :: "TelemetryData \<Rightarrow> F32" where "rpmTarget d \<equiv> round32 (sint (TEL_motorRpm d)) 0"
abbreviation speedTarget :: "TelemetryData \<Rightarrow> F32" where "speedTarget d \<equiv> f32_div (f32_of_int (uint (TEL_speedKmhX10 d))) (F32 10 0)"

lemma needle_step:
  assumes "needlesBelow R X t" "inRange R X d" "R \<le> 65535" "X \<le> 65535"
  shows "\<exists>x t'. HMI_fromTelemetry d t = Some (x, t') \<and> needlesBelow R X t' \<and>
    t' = t\<lparr> HMI_smoothedRpm := HMI_ema (rpmTarget d) (HMI_smoothedRpm t),
            HMI_smoothedSpeed := HMI_ema (speedTarget d) (HMI_smoothedSpeed t) \<rparr> \<and>
    uint (HMI_motorRpm x) = \<lfloor>f32_val (HMI_smoothedRpm t')\<rfloor> \<and> uint (HMI_currentSpeed x) = \<lfloor>f32_val (HMI_smoothedSpeed t')\<rfloor>"
proof -
  define t' where "t' = t\<lparr> HMI_smoothedRpm := HMI_ema (rpmTarget d) (HMI_smoothedRpm t),
      HMI_smoothedSpeed := HMI_ema (speedTarget d) (HMI_smoothedSpeed t) \<rparr>"
  have r: "0 \<le> f_man (rpmTarget d)" "f32_val (rpmTarget d) \<le> real_of_int R"
    using rpm_target[of "TEL_motorRpm d"] assms(2) by (simp_all add: inRange_def del: of_int_sint)
  have "real_of_int (uint (TEL_speedKmhX10 d)) \<le> real_of_int X" using assms(2) by (simp add: inRange_def del: of_int_uint)
  then have v: "0 \<le> f_man (speedTarget d)" "f32_val (speedTarget d) \<le> real_of_int X / 10 + 1 / 1000"
    using speed_target(1) speed_target(2)[of "TEL_speedKmhX10 d", THEN abs_le_D1] by auto
  have b: "needlesBelow R X t'"
    using ema_bound[OF r(1) _ r(2)] ema_bound[OF v(1) _ v(2)] assms(1,3,4) by (simp add: needlesBelow_def t'_def)
  then have "f32_val (HMI_smoothedRpm t') < 65536" "f32_val (HMI_smoothedSpeed t') < 65536"
    using assms(3,4) by (simp_all add: needlesBelow_def)
  with to_u16[of "HMI_smoothedRpm t'"] to_u16[of "HMI_smoothedSpeed t'"] b have
    "f32_to_u16 (HMI_smoothedRpm t') = Some (of_int \<lfloor>f32_val (HMI_smoothedRpm t')\<rfloor>)"
    "uint (of_int \<lfloor>f32_val (HMI_smoothedRpm t')\<rfloor> :: u16) = \<lfloor>f32_val (HMI_smoothedRpm t')\<rfloor>"
    "f32_to_u16 (HMI_smoothedSpeed t') = Some (of_int \<lfloor>f32_val (HMI_smoothedSpeed t')\<rfloor>)"
    "uint (of_int \<lfloor>f32_val (HMI_smoothedSpeed t')\<rfloor> :: u16) = \<lfloor>f32_val (HMI_smoothedSpeed t')\<rfloor>"
    by (simp_all add: needlesBelow_def)
  then show ?thesis using b by (intro exI[of _ t'] exI) (auto simp: HMI_fromTelemetry_def t'_def Let_def)
qed

text \<open>The frames of the screen for a sequence of published snapshots.\<close>

fun HMI_frames :: "TelemetryData list \<Rightarrow> HmiTask \<Rightarrow> (HMI_DisplayData list \<times> HmiTask) option" where
  "HMI_frames [] t = Some ([], t)"
| "HMI_frames (d # ds) t =
    (case HMI_fromTelemetry d t of
       None \<Rightarrow> None
     | Some (x, t) \<Rightarrow> (case HMI_frames ds t of None \<Rightarrow> None | Some (xs, t) \<Rightarrow> Some (x # xs, t)))"

definition needlesShown :: "int \<Rightarrow> int \<Rightarrow> HMI_DisplayData \<Rightarrow> bool" where
  "needlesShown R X x \<longleftrightarrow> uint (HMI_motorRpm x) \<le> R \<and> 10 * uint (HMI_currentSpeed x) \<le> X + 2"

lemma needlesBelow_shown:
  assumes "needlesBelow R X t" "uint (HMI_motorRpm x) = \<lfloor>f32_val (HMI_smoothedRpm t)\<rfloor>"
    "uint (HMI_currentSpeed x) = \<lfloor>f32_val (HMI_smoothedSpeed t)\<rfloor>"
  shows "needlesShown R X x"
proof -
  have "real_of_int (uint (HMI_motorRpm x)) < real_of_int R + 1" "real_of_int (10 * uint (HMI_currentSpeed x)) < real_of_int (X + 3)"
    using assms(1) of_int_floor_le[of "f32_val (HMI_smoothedRpm t)"] of_int_floor_le[of "f32_val (HMI_smoothedSpeed t)"]
    unfolding assms(2,3) needlesBelow_def by linarith+
  then show ?thesis unfolding needlesShown_def by linarith
qed

lemma needle_frames:
  assumes "R \<le> 65535" "X \<le> 65535"
  shows "needlesBelow R X t \<Longrightarrow> \<forall>d \<in> set ds. inRange R X d \<Longrightarrow>
    \<exists>xs t'. HMI_frames ds t = Some (xs, t') \<and> needlesBelow R X t' \<and> length xs = length ds \<and> (\<forall>x \<in> set xs. needlesShown R X x)"
proof (induction ds arbitrary: t)
  case (Cons d ds)
  obtain x t1 where s: "HMI_fromTelemetry d t = Some (x, t1)" "needlesBelow R X t1"
      "uint (HMI_motorRpm x) = \<lfloor>f32_val (HMI_smoothedRpm t1)\<rfloor>" "uint (HMI_currentSpeed x) = \<lfloor>f32_val (HMI_smoothedSpeed t1)\<rfloor>"
    using needle_step[OF Cons.prems(1) _ assms, of d] Cons.prems(2) by auto
  obtain xs t' where r: "HMI_frames ds t1 = Some (xs, t')" "needlesBelow R X t'" "length xs = length ds" "\<forall>x \<in> set xs. needlesShown R X x"
    using Cons.IH[OF s(2)] Cons.prems(2) by auto
  show ?case using s r needlesBelow_shown[OF s(2-4)] by (intro exI[of _ "x # xs"] exI[of _ t']) simp
qed simp

lemma hmiFrames_append:
  "HMI_frames (ds @ es) t = (case HMI_frames ds t of None \<Rightarrow> None | Some (xs, t1) \<Rightarrow>
     (case HMI_frames es t1 of None \<Rightarrow> None | Some (ys, t2) \<Rightarrow> Some (xs @ ys, t2)))"
  by (induction ds arbitrary: t) (auto split: option.split)

text \<open>With a constant snapshot the needles run through the iterates of the average, and the last
  frame shows them.\<close>

lemma constant_frames:
  assumes "R \<le> 65535" "X \<le> 65535" "inRange R X d"
  shows "needlesBelow R X t \<Longrightarrow> \<exists>xs t'. HMI_frames (replicate (Suc n) d) t = Some (xs, t') \<and> xs \<noteq> [] \<and>
      HMI_smoothedRpm t' = (HMI_ema (rpmTarget d) ^^ Suc n) (HMI_smoothedRpm t) \<and>
      HMI_smoothedSpeed t' = (HMI_ema (speedTarget d) ^^ Suc n) (HMI_smoothedSpeed t) \<and>
      uint (HMI_motorRpm (last xs)) = \<lfloor>f32_val (HMI_smoothedRpm t')\<rfloor> \<and> uint (HMI_currentSpeed (last xs)) = \<lfloor>f32_val (HMI_smoothedSpeed t')\<rfloor>"
proof (induction n arbitrary: t)
  case 0
  show ?case using needle_step[OF 0 assms(3,1,2)] by auto
next
  case (Suc n)
  obtain x t1 where s: "HMI_fromTelemetry d t = Some (x, t1)" "needlesBelow R X t1"
      "HMI_smoothedRpm t1 = HMI_ema (rpmTarget d) (HMI_smoothedRpm t)" "HMI_smoothedSpeed t1 = HMI_ema (speedTarget d) (HMI_smoothedSpeed t)"
    using needle_step[OF Suc.prems assms(3,1,2)] by auto
  have ex: "HMI_frames (replicate (Suc (Suc n)) d) t = (case HMI_frames (replicate (Suc n) d) t1 of None \<Rightarrow> None | Some (xs, t) \<Rightarrow> Some (x # xs, t))"
    using s(1) by (simp add: replicate_Suc[of "Suc n"] del: replicate_Suc)
  from Suc.IH[OF s(2)] show ?case
    unfolding ex s(3,4) funpow_Suc_right[of "Suc n"] comp_def by (elim exE conjE) (auto simp del: replicate_Suc funpow.simps)
qed

lemma new_needles: "0 \<le> R \<Longrightarrow> 0 \<le> X \<Longrightarrow> needlesBelow R X (HmiTask_new uart)"
  by (simp add: needlesBelow_def HmiTask_new_def f32_val_def)

lemma ema_close_to:
  assumes "0 \<le> f_man t" "0 \<le> f_man s" "f32_val t \<le> 65535" "f32_val s \<le> 65536" "100 \<le> n"
  shows "\<bar>f32_val ((HMI_ema t ^^ n) s) - f32_val t\<bar> \<le> 4 / 10"
  using ema_settles[OF assms(1-4), of n] decay[OF assms(5)] by linarith

text \<open>C33. The needles are honest for a motor turning forwards: for every sequence of snapshots with a
  rotational speed between 0 and R and a speed of at most X tenths of km/h, the conversions of
  the smoothed values are defined in every frame, the screen never shows more than R, and never
  more than 0.2 km/h above X; and after a hundred frames, ten seconds, of a constant snapshot
  the screen shows the rotational speed up to one and the speed up to 1.4 km/h, in spite of
  single precision.  The reachable rotational speed of -32768 is outside this claim.\<close>

theorem needles_honest:
  assumes "\<forall>e \<in> set ds. inRange R X e" "inRange R X d" "R \<le> 65535" "X \<le> 65535" "100 \<le> n"
  shows "\<exists>xs t. HMI_frames (ds @ replicate n d) (HmiTask_new uart) = Some (xs, t) \<and>
    (\<forall>x \<in> set xs. uint (HMI_motorRpm x) \<le> R \<and> 10 * uint (HMI_currentSpeed x) \<le> X + 2) \<and>
    sint (TEL_motorRpm d) - 1 \<le> uint (HMI_motorRpm (last xs)) \<and> uint (HMI_motorRpm (last xs)) \<le> sint (TEL_motorRpm d) \<and>
    \<bar>10 * uint (HMI_currentSpeed (last xs)) - uint (TEL_speedKmhX10 d)\<bar> \<le> 14"
proof -
  have "0 \<le> R" "0 \<le> X" using assms(2) order_trans[OF uint_ge_0[of "TEL_speedKmhX10 d"]] by (auto simp: inRange_def)
  note new = new_needles[OF this, of uart]
  obtain xs t1 where f: "HMI_frames ds (HmiTask_new uart) = Some (xs, t1)" "needlesBelow R X t1" "\<forall>x \<in> set xs. needlesShown R X x"
    using needle_frames[OF assms(3,4) new assms(1)] by auto
  obtain m where n: "n = Suc m" using assms(5) by (cases n) auto
  obtain ys t2 where c: "HMI_frames (replicate n d) t1 = Some (ys, t2)" "ys \<noteq> []"
      "HMI_smoothedRpm t2 = (HMI_ema (rpmTarget d) ^^ n) (HMI_smoothedRpm t1)"
      "HMI_smoothedSpeed t2 = (HMI_ema (speedTarget d) ^^ n) (HMI_smoothedSpeed t1)"
      "uint (HMI_motorRpm (last ys)) = \<lfloor>f32_val (HMI_smoothedRpm t2)\<rfloor>" "uint (HMI_currentSpeed (last ys)) = \<lfloor>f32_val (HMI_smoothedSpeed t2)\<rfloor>"
    using constant_frames[OF assms(3,4,2) f(2), of m] n by blast
  have y: "\<forall>x \<in> set ys. needlesShown R X x"
    using needle_frames[OF assms(3,4) f(2), of "replicate n d"] assms(2) c(1) by auto
  have t1: "0 \<le> f_man (HMI_smoothedRpm t1)" "f32_val (HMI_smoothedRpm t1) \<le> 65536"
      "0 \<le> f_man (HMI_smoothedSpeed t1)" "f32_val (HMI_smoothedSpeed t1) \<le> 65536"
    using f(2) assms(3,4) by (simp_all add: needlesBelow_def)
  let ?r = "real_of_int (sint (TEL_motorRpm d))" and ?v = "real_of_int (uint (TEL_speedKmhX10 d))"
  have r: "0 \<le> f_man (rpmTarget d)" "f32_val (rpmTarget d) = ?r" using rpm_target[of "TEL_motorRpm d"] assms(2)
    by (simp_all add: inRange_def del: of_int_sint)
  have rb: "?r \<le> 65535" using assms(2,3) by (simp add: inRange_def del: of_int_sint)
  note v = speed_target[of "TEL_speedKmhX10 d"]
  have "uint (TEL_speedKmhX10 d) < 65536" using uint_lt2p[of "TEL_speedKmhX10 d"] by simp
  then have vb: "f32_val (speedTarget d) \<le> 65535" using v(2)[THEN abs_le_D1] by linarith
  have R: "\<bar>f32_val (HMI_smoothedRpm t2) - ?r\<bar> \<le> 4 / 10"
    using ema_close_to[OF r(1) t1(1) _ t1(2) assms(5)] r(2) rb by (simp add: c(3) del: of_int_sint)
  have V: "\<bar>f32_val (HMI_smoothedSpeed t2) - f32_val (speedTarget d)\<bar> \<le> 4 / 10"
    using ema_close_to[OF v(1) t1(3) vb t1(4) assms(5)] by (simp add: c(4))
  have rpm: "sint (TEL_motorRpm d) - 1 \<le> uint (HMI_motorRpm (last ys))" "uint (HMI_motorRpm (last ys)) \<le> sint (TEL_motorRpm d)"
    using R unfolding c(5) by linarith+
  have spd: "\<bar>10 * uint (HMI_currentSpeed (last ys)) - uint (TEL_speedKmhX10 d)\<bar> \<le> 14"
    using V v(2) unfolding c(6) by linarith
  have "HMI_frames (ds @ replicate n d) (HmiTask_new uart) = Some (xs @ ys, t2)" by (simp add: hmiFrames_append f(1) c(1))
  then show ?thesis using rpm spd f(3) y c(2) unfolding needlesShown_def by (intro exI[of _ "xs @ ys"] exI[of _ t2]) auto
qed

definition cruise :: TelemetryData where
  "cruise = TelemetryData_zero\<lparr> TEL_motorRpm := 3000, TEL_speedKmhX10 := 500 \<rparr>"

theorem needles_honest_witness:
  "\<exists>xs t. HMI_frames ([TelemetryData_zero] @ replicate 100 cruise) (HmiTask_new []) = Some (xs, t) \<and>
    2999 \<le> uint (HMI_motorRpm (last xs)) \<and> uint (HMI_motorRpm (last xs)) \<le> 3000"
proof -
  have "inRange 3000 500 TelemetryData_zero" "inRange 3000 500 cruise"
    by (simp_all add: inRange_def cruise_def TelemetryData_zero_def)
  then have "\<exists>xs t. HMI_frames ([TelemetryData_zero] @ replicate 100 cruise) (HmiTask_new []) = Some (xs, t) \<and>
      sint (TEL_motorRpm cruise) - 1 \<le> uint (HMI_motorRpm (last xs)) \<and> uint (HMI_motorRpm (last xs)) \<le> sint (TEL_motorRpm cruise)"
    using needles_honest[of "[TelemetryData_zero]" 3000 500 cruise 100 "[]"] by auto
  moreover have "sint (TEL_motorRpm cruise) = 3000" by (simp add: cruise_def)
  ultimately show ?thesis by simp
qed

text \<open>The published magnitude of a motor speed of \<open>- 32768\<close> is negative; its conversion is undefined
  in the first frame.\<close>

lemma reverse_extreme_undefined: "HMI_fromTelemetry (TelemetryData_zero\<lparr> TEL_motorRpm := 0x8000 \<rparr>) (HmiTask_new uart) = None"
proof -
  have "f32_to_u16 (HMI_ema (round32 (sint (0x8000 :: i16)) 0) (F32 0 0)) = None" by code_simp
  then show ?thesis by (simp add: HMI_fromTelemetry_def HmiTask_new_def TelemetryData_zero_def Let_def split: option.split)
qed

end
