(* ===== verification/Hmi_Display.thy ===== *)
theory Hmi_Display
  imports Hmi_Task
begin

text \<open>
  What the display shows over the life of the HMI task, while the other tasks change the
  state of the vehicle and the published data in any way between its cycles.
\<close>

inductive hmi_reach :: "'h System \<times> HmiTask \<Rightarrow> bool" where
  hmi_start: "sys_hmi s = DisplayHMI_new \<Longrightarrow> vTask_HMI_start answers s = Some st \<Longrightarrow> hmi_reach st"
| hmi_cycle: "hmi_reach st \<Longrightarrow> vTask_HMI_cycle timeUs rx st = Some st' \<Longrightarrow> hmi_reach st'"
| hmi_others: "hmi_reach (s, t) \<Longrightarrow> hmi_reach (s'\<lparr> sys_hmi := sys_hmi s \<rparr>, t)"

definition displayInv :: "DisplayHMI \<Rightarrow> HmiTask \<Rightarrow> bool" where
  "displayInv h t \<longleftrightarrow> HMI_isInitialized h \<and> (HMI_hasCachedScreen h \<longrightarrow> mirrors (HMI_lastScreenData h) (hmi_uart t)) \<and>
     cache_wf (BMS_hmiCache t) \<and> sent (BMS_hmiCache t) (hmi_uart t) \<and> (BMS_firstRun t \<longrightarrow> \<not> bc_isWarm (BMS_hmiCache t))"

subsection \<open>The two kinds of components\<close>

definition screenNames :: "string set" where
  "screenNames = {''speed'', ''bat'', ''rpm'', ''torque'', ''temp'', ''packv'', ''packa'', ''state'', ''motorErr'', ''valid'', ''contactor''}"

lemma screenNames_commands: "fst ` set (screenCommands d) = screenNames"
  by (simp add: screenCommands_def screenNames_def)

lemma names_disjoint: "x \<in> screenNames \<Longrightarrow> \<not> pageName x"
  using letters_not_number by (auto simp: screenNames_def pageName_def isdigit_def)

lemma updateScreen_only:
  assumes "HMI_isInitialized h"
  shows "onlyFor (\<lambda>x. x \<in> screenNames) uart (snd (updateScreen d (h, uart)))"
  using assms by (simp add: onlyFor_def updateScreen_fold shown_other screenCommands_ok screenNames_commands)

lemma sent_other:
  assumes "onlyFor (\<lambda>x. x \<in> screenNames) uart uart'" "sent cache uart"
  shows "sent cache uart'"
proof -
  have "\<And>i. ''cell'' @ show_nat i \<notin> screenNames" "\<And>i. ''j'' @ show_nat i \<notin> screenNames" "\<And>i. ''bal'' @ show_nat i \<notin> screenNames"
      "''cellmax'' \<notin> screenNames" "''cellmin'' \<notin> screenNames" "''warn'' \<notin> screenNames"
    using names_disjoint by (auto simp: pageName_def)
  then show ?thesis
    using assms(2) sentArray_other[OF assms(1)] sentValue_other[OF assms(1)] page_names unfolding sent_def by metis
qed

lemma mirrors_other:
  assumes "onlyFor pageName uart uart'" "mirrors d uart"
  shows "mirrors d uart'"
  unfolding mirrors_def
proof (intro allI impI)
  fix i :: nat
  assume i: "i < 11"
  then have "screenCommands d ! i \<in> set (screenCommands d)" using screenCommands_ok(3)[of d] by simp
  then have "fst (screenCommands d ! i) \<in> screenNames" "plainName (fst (screenCommands d ! i))"
    using screenNames_commands[of d] screenCommands_ok(1)[of d] by (auto simp: list_all_iff commandOf_def)
  then show "shown (fst (screenCommands d ! i)) uart' = Some (snd (screenCommands d ! i))"
    using assms i names_disjoint by (auto simp: onlyFor_def mirrors_def)
qed

subsection \<open>A cycle\<close>

lemma fromTelemetry_keeps:
  "HMI_fromTelemetry d t = Some (x, t') \<Longrightarrow> BMS_hmiCache t' = BMS_hmiCache t \<and> BMS_lastCellUpdateMs t' = BMS_lastCellUpdateMs t \<and>
     BMS_firstRun t' = BMS_firstRun t \<and> hmi_uart t' = hmi_uart t"
  by (auto simp: HMI_fromTelemetry_def Let_def split: option.splits)

lemma screen_step:
  assumes "displayInv (sys_hmi s) t" "vTask_HMI_screen (s, t) = Some (s1, t1)"
  shows "displayInv (sys_hmi s1) t1 \<and> HMI_hasCachedScreen (sys_hmi s1) \<and> sys_vcu s1 = sys_vcu s \<and>
    TEL_sensorDataQueue s1 = TEL_sensorDataQueue s \<and> BMS_hmiCache t1 = BMS_hmiCache t \<and>
    BMS_lastCellUpdateMs t1 = BMS_lastCellUpdateMs t \<and> BMS_firstRun t1 = BMS_firstRun t \<and>
    HMI_vcuState (HMI_lastScreenData (sys_hmi s1)) = HMI_mapVcuState (s_state (sys_vcu s)) \<and>
    HMI_contactorClosed (HMI_lastScreenData (sys_hmi s1)) = HMI_areAllContactorsClosed (relayObj (sys_vcu s))"
proof -
  obtain d t0 where d: "(case TEL_sensorDataQueue s of Some (Some TEL_data) \<Rightarrow> HMI_fromTelemetry TEL_data t | _ \<Rightarrow> Some (HMI_noData, t)) = Some (d, t0)"
    using assms(2) by (auto simp: vTask_HMI_screen_def Let_def split: option.splits)
  define d' where "d' = d\<lparr> HMI_vcuState := HMI_mapVcuState (s_state (sys_vcu s)),
      HMI_contactorClosed := HMI_areAllContactorsClosed (relayObj (sys_vcu s)) \<rparr>"
  obtain h uart where u: "updateScreen d' (sys_hmi s, hmi_uart t0) = (h, uart)" by fastforce
  have r: "s1 = s\<lparr> sys_hmi := h \<rparr>" "t1 = t0\<lparr> hmi_uart := uart \<rparr>"
    using assms(2) d u by (auto simp: vTask_HMI_screen_def Let_def d'_def)
  have k: "BMS_hmiCache t0 = BMS_hmiCache t" "BMS_lastCellUpdateMs t0 = BMS_lastCellUpdateMs t" "BMS_firstRun t0 = BMS_firstRun t"
      "hmi_uart t0 = hmi_uart t"
    using d fromTelemetry_keeps by (auto split: option.splits)
  have i: "HMI_isInitialized (sys_hmi s)" "HMI_hasCachedScreen (sys_hmi s) \<Longrightarrow> mirrors (HMI_lastScreenData (sys_hmi s)) (hmi_uart t)"
      "sent (BMS_hmiCache t) (hmi_uart t)"
    using assms(1) by (simp_all add: displayInv_def)
  have m: "mirrors d' uart" "HMI_isInitialized h" "HMI_hasCachedScreen h" "HMI_lastScreenData h = d'"
    using updateScreen_mirrors[OF i(1,2), of d'] updateScreen_fields[OF i(1), of d' "hmi_uart t"] u by (simp_all add: k)
  have "sent (BMS_hmiCache t) uart" using sent_other[OF updateScreen_only[OF i(1), of "hmi_uart t" d'] i(3)] u by (simp add: k)
  then show ?thesis using assms(1) m by (simp add: r k displayInv_def d'_def)
qed

lemma page_step:
  assumes "displayInv h t"
  shows "displayInv h (vTask_HMI_page timeUs s t) \<and> onlyFor pageName (hmi_uart t) (hmi_uart (vTask_HMI_page timeUs s t))"
proof (cases "TEL_sensorDataQueue s")
  case None
  then show ?thesis using assms by (simp add: vTask_HMI_page_def onlyFor_def)
next
  case (Some peeked)
  obtain bc raw where d: "BMS_pageData peeked = (bc, raw)" by fastforce
  obtain f u t0 where sc: "BMS_schedule (ucast (timeUs div 1000)) t = (f, u, t0)" by (metis prod_cases3)
  have k: "BMS_hmiCache t0 = BMS_hmiCache t" "hmi_uart t0 = hmi_uart t" "\<not> BMS_firstRun t0"
    using sc by (auto simp: BMS_schedule_def split: if_splits)
  obtain c uart where b: "buildBmsNextionCommands (Some BMS_emitNextionCommand) bc raw f u BMS_NEXTION_MAX_BYTES (BMS_hmiCache t, hmi_uart t) = (c, uart)"
    by fastforce
  have r: "vTask_HMI_page timeUs s t = t0\<lparr> BMS_hmiCache := c, hmi_uart := uart \<rparr>"
    using b by (simp add: vTask_HMI_page_def Some d sc k)
  have i: "cache_wf (BMS_hmiCache t)" "sent (BMS_hmiCache t) (hmi_uart t)" using assms by (simp_all add: displayInv_def)
  note o = build_only[OF i b] and se = build_sent[OF i b]
  show ?thesis using assms o se mirrors_other k(3) by (auto simp: r displayInv_def)
qed

lemma touchLoop_keeps:
  "HMI_isInitialized (snd (snd (touchLoop rx h))) = HMI_isInitialized h \<and>
   HMI_hasCachedScreen (snd (snd (touchLoop rx h))) = HMI_hasCachedScreen h \<and>
   HMI_lastScreenData (snd (snd (touchLoop rx h))) = HMI_lastScreenData h"
  by (induction rx arbitrary: h) simp_all

lemma touch_keeps:
  "HMI_isInitialized (sys_hmi (vTask_HMI_touch rx s)) = HMI_isInitialized (sys_hmi s)"
  "HMI_hasCachedScreen (sys_hmi (vTask_HMI_touch rx s)) = HMI_hasCachedScreen (sys_hmi s)"
  "HMI_lastScreenData (sys_hmi (vTask_HMI_touch rx s)) = HMI_lastScreenData (sys_hmi s)"
  by (simp_all add: vTask_HMI_touch_def readTouchCommand_def case_prod_beta touchLoop_keeps Let_def)

lemma cycle_eq:
  "vTask_HMI_cycle timeUs rx st = Some (s', t') \<longleftrightarrow>
     (\<exists>s t. vTask_HMI_screen st = Some (s, t) \<and> t' = vTask_HMI_page timeUs s t \<and> s' = vTask_HMI_touch rx s)"
  by (auto simp: vTask_HMI_cycle_def Let_def split: option.splits)

lemma cycle_step:
  assumes "displayInv (sys_hmi s) t" "vTask_HMI_cycle timeUs rx (s, t) = Some (s', t')"
  shows "displayInv (sys_hmi s') t' \<and> HMI_hasCachedScreen (sys_hmi s') \<and>
    HMI_vcuState (HMI_lastScreenData (sys_hmi s')) = HMI_mapVcuState (s_state (sys_vcu s)) \<and>
    HMI_contactorClosed (HMI_lastScreenData (sys_hmi s')) = HMI_areAllContactorsClosed (relayObj (sys_vcu s))"
proof -
  obtain s1 t1 where c: "vTask_HMI_screen (s, t) = Some (s1, t1)" "t' = vTask_HMI_page timeUs s1 t1" "s' = vTask_HMI_touch rx s1"
    using assms(2) by (auto simp: cycle_eq)
  note S = screen_step[OF assms(1) c(1)]
  then have "displayInv (sys_hmi s1) t'" using page_step[of "sys_hmi s1" t1 timeUs s1] by (simp add: c(2))
  then show ?thesis using S by (simp add: c(3) displayInv_def touch_keeps)
qed

lemma beginLoop_fresh:
  "HMI_beginLoop n answers (h, uart) = (True, h', uart') \<Longrightarrow>
     HMI_isInitialized h' \<and> HMI_hasCachedScreen h' = HMI_hasCachedScreen h"
  by (induction n answers "(h, uart)" arbitrary: h uart rule: HMI_beginLoop.induct)
     (auto simp: DisplayHMI_begin_def split: if_splits prod.splits)

lemma reach_inv: "hmi_reach st \<Longrightarrow> displayInv (sys_hmi (fst st)) (snd st)"
proof (induction rule: hmi_reach.induct)
  case (hmi_start s answers st)
  then obtain h uart where b: "HMI_beginLoop 5 answers (DisplayHMI_new, []) = (True, h, uart)" "st = (s\<lparr> sys_hmi := h \<rparr>, HmiTask_new uart)"
    by (auto simp: vTask_HMI_start_def Let_def split: prod.splits if_splits)
  then show ?case using beginLoop_fresh[OF b(1)] new_cache by (simp add: displayInv_def HmiTask_new_def DisplayHMI_new_def)
next
  case (hmi_cycle st timeUs rx st')
  then show ?case using cycle_step[of "fst st" "snd st" timeUs rx "fst st'" "snd st'"] by simp
qed simp

text \<open>C34. The driver sees the state of the vehicle: after every cycle of the HMI task in which it is
  reached, from the start of the display on and whatever the other tasks do, the last commands
  sent for the two components name the VCU state and the contactors as they were in that cycle,
  although only changes are sent and the cell page shares the line.\<close>

theorem display_shows_vcu_state:
  assumes "hmi_reach (s, t)" "vTask_HMI_cycle timeUs rx (s, t) = Some (s', t')"
  shows "shown ''state'' (hmi_uart t') = Some (txtText ''state'' (HMI_getStateText (HMI_mapVcuState (s_state (sys_vcu s))))) \<and>
    shown ''contactor'' (hmi_uart t') =
      Some (txtText ''contactor'' (if HMI_areAllContactorsClosed (relayObj (sys_vcu s)) then ''CLOSED'' else ''OPEN''))"
proof -
  have "displayInv (sys_hmi s) t" using reach_inv[OF assms(1)] by simp
  note C = cycle_step[OF this assms(2)]
  then have m: "mirrors (HMI_lastScreenData (sys_hmi s')) (hmi_uart t')" by (simp add: displayInv_def)
  from m[unfolded mirrors_def, rule_format, of 7] m[unfolded mirrors_def, rule_format, of 10] C
  show ?thesis by (auto simp: screenCommands_def HMI_getContactorText_def)
qed

subsection \<open>Stale battery data\<close>

text \<open>Cycles of the task in states of the vehicle that other tasks left, with the time and the
  received bytes of each; and how many of them update the cells.\<close>

type_synonym 'h HmiInput = "'h System \<times> 64 word \<times> u8 list"

fun HMI_cycles :: "'h HmiInput list \<Rightarrow> DisplayHMI \<times> HmiTask \<Rightarrow> (DisplayHMI \<times> HmiTask) option" where
  "HMI_cycles [] ht = Some ht"
| "HMI_cycles ((s, timeUs, rx) # cs) (h, t) =
    (case vTask_HMI_cycle timeUs rx (s\<lparr> sys_hmi := h \<rparr>, t) of
       None \<Rightarrow> None
     | Some (s', t') \<Rightarrow> HMI_cycles cs (sys_hmi s', t'))"

fun cellUpdates :: "u32 \<Rightarrow> 'h HmiInput list \<Rightarrow> nat" where
  "cellUpdates lastMs [] = 0"
| "cellUpdates lastMs ((s, timeUs, rx) # cs) =
    (let nowMs = ucast (timeUs div 1000)
     in if nowMs - lastMs \<ge> 1000 then Suc (cellUpdates nowMs cs) else cellUpdates lastMs cs)"

definition noBattery :: "'h System \<Rightarrow> bool" where
  "noBattery s \<longleftrightarrow> (case TEL_sensorDataQueue s of None \<Rightarrow> False | Some None \<Rightarrow> True | Some (Some d) \<Rightarrow> \<not> TEL_bmsDataValid d)"

abbreviation noPending :: "HmiTask \<Rightarrow> nat" where
  "noPending t \<equiv> pending (fst BMS_noPack) (snd BMS_noPack) (BMS_hmiCache t)"

lemma noBattery_page: "noBattery s \<Longrightarrow> \<exists>p. TEL_sensorDataQueue s = Some p \<and> BMS_pageData p = BMS_noPack"
  by (auto simp: noBattery_def BMS_pageData_def split: option.splits)

lemma stale_page_step:
  assumes "displayInv h t" "\<not> BMS_firstRun t" "noBattery s"
    and "t' = vTask_HMI_page timeUs s t" "nowMs = ucast (timeUs div 1000)" "u \<longleftrightarrow> nowMs - BMS_lastCellUpdateMs t \<ge> 1000"
  shows "\<not> BMS_firstRun t' \<and> BMS_lastCellUpdateMs t' = (if u then nowMs else BMS_lastCellUpdateMs t) \<and>
    (noPending t' = 0 \<and> bc_isWarm (BMS_hmiCache t') \<or>
     noPending t' \<le> noPending t \<and> bc_isWarm (BMS_hmiCache t') = bc_isWarm (BMS_hmiCache t) \<and> (u \<longrightarrow> 0 < noPending t' \<and> noPending t' + 4 \<le> noPending t))"
proof -
  obtain p where p: "TEL_sensorDataQueue s = Some p" "BMS_pageData p = BMS_noPack" using noBattery_page[OF assms(3)] by blast
  obtain bc raw where n: "BMS_noPack = (bc, raw)" by fastforce
  define t0 where "t0 = (if u then t\<lparr> BMS_lastCellUpdateMs := nowMs \<rparr> else t)"
  have sc: "BMS_schedule nowMs t = (False, u, t0)" using assms(2,6) by (simp add: BMS_schedule_def t0_def)
  obtain c uart where b: "buildBmsNextionCommands (Some BMS_emitNextionCommand) bc raw False u 90 (BMS_hmiCache t, hmi_uart t) = (c, uart)"
    by fastforce
  have k: "BMS_hmiCache t0 = BMS_hmiCache t" "hmi_uart t0 = hmi_uart t" by (simp_all add: t0_def)
  have r: "t' = t0\<lparr> BMS_hmiCache := c, hmi_uart := uart \<rparr>"
    using b unfolding assms(4) vTask_HMI_page_def assms(5)[symmetric] by (simp add: p n sc k BMS_NEXTION_MAX_BYTES_def)
  have "cache_wf (BMS_hmiCache t)" using assms(1) by (simp add: displayInv_def)
  from build_step[OF this b] show ?thesis using assms(2) by (auto simp: r n t0_def)
qed

lemma stale_cycles:
  "displayInv h t \<Longrightarrow> \<not> BMS_firstRun t \<Longrightarrow> list_all (\<lambda>c. noBattery (fst c)) cs \<Longrightarrow>
   noPending t \<le> 4 * cellUpdates (BMS_lastCellUpdateMs t) cs \<and> 0 < cellUpdates (BMS_lastCellUpdateMs t) cs \<or>
     noPending t = 0 \<and> bc_isWarm (BMS_hmiCache t) \<Longrightarrow>
   HMI_cycles cs (h, t) = Some (h', t') \<Longrightarrow> displayInv h' t' \<and> noPending t' = 0"
proof (induction cs arbitrary: h t)
  case (Cons c cs)
  obtain s timeUs rx where c: "c = (s, timeUs, rx)" by (metis prod_cases3)
  obtain s2 t2 where cy: "vTask_HMI_cycle timeUs rx (s\<lparr> sys_hmi := h \<rparr>, t) = Some (s2, t2)" "HMI_cycles cs (sys_hmi s2, t2) = Some (h', t')"
    using Cons.prems(5) by (auto simp: c split: option.splits)
  obtain s1 t1 where sc: "vTask_HMI_screen (s\<lparr> sys_hmi := h \<rparr>, t) = Some (s1, t1)" "t2 = vTask_HMI_page timeUs s1 t1"
    using cy(1) by (auto simp: cycle_eq)
  have i: "displayInv (sys_hmi (s\<lparr> sys_hmi := h \<rparr>)) t" using Cons.prems(1) by simp
  note S = screen_step[OF i sc(1)]
  have nb: "noBattery s1" "list_all (\<lambda>c. noBattery (fst c)) cs" using S Cons.prems(3) by (simp_all add: noBattery_def c)
  define nowMs :: u32 where "nowMs = ucast (timeUs div 1000)"
  define u where "u \<longleftrightarrow> nowMs - BMS_lastCellUpdateMs t \<ge> 1000"
  have P: "\<not> BMS_firstRun t2 \<and> BMS_lastCellUpdateMs t2 = (if u then nowMs else BMS_lastCellUpdateMs t) \<and>
    (noPending t2 = 0 \<and> bc_isWarm (BMS_hmiCache t2) \<or>
     noPending t2 \<le> noPending t \<and> bc_isWarm (BMS_hmiCache t2) = bc_isWarm (BMS_hmiCache t) \<and> (u \<longrightarrow> 0 < noPending t2 \<and> noPending t2 + 4 \<le> noPending t))"
    using stale_page_step[of "sys_hmi s1" t1 s1 t2 timeUs nowMs u] S Cons.prems(2) nb(1) sc(2) by (simp add: u_def nowMs_def)
  have up: "cellUpdates (BMS_lastCellUpdateMs t) (c # cs) = (if u then Suc else id) (cellUpdates (BMS_lastCellUpdateMs t2) cs)"
    using P by (simp add: c u_def nowMs_def[symmetric] Let_def)
  show ?case
  proof (rule Cons.IH[OF _ _ nb(2) _ cy(2)])
    show "displayInv (sys_hmi s2) t2" using cycle_step[OF i cy(1)] by simp
    show "\<not> BMS_firstRun t2" using P by simp
    show "noPending t2 \<le> 4 * cellUpdates (BMS_lastCellUpdateMs t2) cs \<and> 0 < cellUpdates (BMS_lastCellUpdateMs t2) cs \<or>
        noPending t2 = 0 \<and> bc_isWarm (BMS_hmiCache t2)"
      using P Cons.prems(4) unfolding up by (cases u; cases "cellUpdates (BMS_lastCellUpdateMs t2) cs") auto
  qed
qed auto

text \<open>C35. Stale battery data do not stay on the display: in any reached state of the HMI task after
  its first cycle, when every following cycle finds the battery data missing or invalid,
  nineteen of the 1 Hz updates leave the cell page without a single old value: every cell and
  both extremes show the no-data value, every bar is empty, no cell is shown balancing and the
  warning is critical.\<close>

theorem stale_battery_page_cleared:
  assumes "hmi_reach (s, t)" "\<not> BMS_firstRun t" "list_all (\<lambda>c. noBattery (fst c)) cs"
    and "19 \<le> cellUpdates (BMS_lastCellUpdateMs t) cs" "HMI_cycles cs (sys_hmi s, t) = Some (h', t')"
  shows "(\<forall>i < BMS_CELL_COUNT.
       shown (''cell'' @ show_nat i) (hmi_uart t') = Some (numText (''cell'' @ show_nat i) 65535) \<and>
       shown (''j'' @ show_nat i) (hmi_uart t') = Some (numText (''j'' @ show_nat i) 0) \<and>
       shown (''bal'' @ show_nat i) (hmi_uart t') = Some (numText (''bal'' @ show_nat i) 0)) \<and>
     shown ''cellmax'' (hmi_uart t') = Some (numText ''cellmax'' 65535) \<and>
     shown ''cellmin'' (hmi_uart t') = Some (numText ''cellmin'' 65535) \<and>
     shown ''warn'' (hmi_uart t') = Some (numText ''warn'' (uint BMS_WARN_CRITICAL))"
proof -
  have i: "displayInv (sys_hmi s) t" using reach_inv[OF assms(1)] by simp
  have "noPending t \<le> 4 * cellUpdates (BMS_lastCellUpdateMs t) cs" "0 < cellUpdates (BMS_lastCellUpdateMs t) cs"
    using pending_bound[of "fst BMS_noPack" "snd BMS_noPack" "BMS_hmiCache t"] assms(4) by linarith+
  then have e: "displayInv h' t'" "noPending t' = 0" using stale_cycles[OF i assms(2,3) _ assms(5)] by simp_all
  have d: "cellVoltageMv (snd BMS_noPack) = replicate 24 65535" "balanceFlag (fst BMS_noPack) = replicate 24 False"
      "cellMaxMv (fst BMS_noPack) = 65535" "cellMinMv (fst BMS_noPack) = 65535" "warningLevel (fst BMS_noPack) = BMS_WARN_CRITICAL"
    by (simp_all add: BMS_noPack_def HMI_CELL_VOLTAGE_NO_DATA_def)
  note P = pending_0[OF e(2), unfolded barData_def balData_def d]
  have "sent (BMS_hmiCache t') (hmi_uart t')" using e(1) by (simp add: displayInv_def)
  moreover have "cellBarFill 65535 = 0" "BMS_WARN_CRITICAL \<noteq> 255" by (simp_all add: cellBarFill_def BMS_WARN_CRITICAL_def)
  ultimately show ?thesis using P by (auto simp: sent_def sentArray_def sentValue_def)
qed

subsection \<open>Instances\<close>

text \<open>A task whose display started at the first attempt, and its first cycle before any telemetry.\<close>

lemma started_reach: "hmi_reach (dataFree\<lparr> sys_hmi := readyHmi \<rparr>, HmiTask_new [''bkcmd=0'', [CHR 0xFF, CHR 0xFF, CHR 0xFF]])"
  if "sys_hmi dataFree = DisplayHMI_new" for dataFree :: "'h System"
  using that
  by (intro hmi_start[of dataFree "\<lambda>_. (True, True, True)"])
     (simp_all add: vTask_HMI_start_def DisplayHMI_begin_def HMI_sendEndBytes_def readyHmi_def DisplayHMI_new_def numeral_eq_Suc)

lemma cycle_without_data:
  "TEL_sensorDataQueue s = Some None \<Longrightarrow> \<exists>s' t'. vTask_HMI_cycle timeUs rx (s, t) = Some (s', t') \<and> \<not> BMS_firstRun t' \<and>
     (BMS_firstRun t \<longrightarrow> BMS_lastCellUpdateMs t' = ucast (timeUs div 1000))"
  by (auto simp: vTask_HMI_cycle_def vTask_HMI_screen_def vTask_HMI_page_def BMS_schedule_def case_prod_beta Let_def)

lemma cycles_without_data:
  "list_all (\<lambda>c. TEL_sensorDataQueue (fst c) = Some None) cs \<Longrightarrow> \<exists>h' t'. HMI_cycles cs (h, t) = Some (h', t')"
proof (induction cs arbitrary: h t)
  case (Cons c cs)
  obtain s timeUs rx where c: "c = (s, timeUs, rx)" by (metis prod_cases3)
  obtain s' t' where "vTask_HMI_cycle timeUs rx (s\<lparr> sys_hmi := h \<rparr>, t) = Some (s', t')"
    using cycle_without_data[of "s\<lparr> sys_hmi := h \<rparr>" timeUs rx t] Cons.prems by (auto simp: c)
  then show ?case using Cons by (simp add: c)
qed simp

definition firstTask :: HmiTask where
  "firstTask = HmiTask_new [''bkcmd=0'', [CHR 0xFF, CHR 0xFF, CHR 0xFF]]"

definition startedSystem :: "FakeSpi System" where
  "startedSystem = bootSystem\<lparr> sys_hmi := readyHmi \<rparr>"

lemma startedSystem_reach: "hmi_reach (startedSystem, firstTask)"
  unfolding startedSystem_def firstTask_def by (rule started_reach) (simp add: bootSystem_def)

lemma startedSystem_fields:
  "TEL_sensorDataQueue startedSystem = Some None" "sys_vcu startedSystem = bootVcu" "BMS_firstRun firstTask" "noBattery bootSystem"
  by (simp_all add: startedSystem_def bootSystem_def firstTask_def HmiTask_new_def noBattery_def)

theorem display_shows_vcu_state_witness:
  "\<exists>s' t'. vTask_HMI_cycle 0 [] (startedSystem, firstTask) = Some (s', t') \<and>
     shown ''state'' (hmi_uart t') = Some (txtText ''state'' (HMI_getStateText (HMI_mapVcuState (s_state bootVcu))))"
proof -
  obtain s' t' where c: "vTask_HMI_cycle 0 [] (startedSystem, firstTask) = Some (s', t')"
    using cycle_without_data[OF startedSystem_fields(1)] by blast
  show ?thesis using c display_shows_vcu_state[OF startedSystem_reach c] by (auto simp: startedSystem_fields)
qed

theorem stale_battery_page_cleared_witness:
  "\<exists>s t h' t'. vTask_HMI_cycle 0 [] (startedSystem, firstTask) = Some (s, t) \<and>
     HMI_cycles (map (\<lambda>n. (bootSystem, of_nat n * 1000000, [])) [1..<20]) (sys_hmi s, t) = Some (h', t') \<and>
     shown ''warn'' (hmi_uart t') = Some ''warn.val=2''"
proof -
  let ?cs = "map (\<lambda>n. (bootSystem, of_nat n * 1000000, [])) [1..<20] :: FakeSpi HmiInput list"
  obtain s t where c: "vTask_HMI_cycle 0 [] (startedSystem, firstTask) = Some (s, t)" "\<not> BMS_firstRun t" "BMS_lastCellUpdateMs t = 0"
    using cycle_without_data[OF startedSystem_fields(1), of 0 "[]" firstTask] startedSystem_fields(3) by auto
  have q: "list_all (\<lambda>c. TEL_sensorDataQueue (fst c) = Some None) ?cs" "list_all (\<lambda>c. noBattery (fst c)) ?cs"
    by (simp_all add: list_all_iff bootSystem_def noBattery_def del: upt_rec_numeral)
  obtain h' t' where r: "HMI_cycles ?cs (sys_hmi s, t) = Some (h', t')" using cycles_without_data[OF q(1)] by blast
  have n: "19 \<le> cellUpdates (BMS_lastCellUpdateMs t) ?cs" by (simp add: c(3) upt_conv_Cons)
  have "shown ''warn'' (hmi_uart t') = Some (numText ''warn'' (uint BMS_WARN_CRITICAL))"
    using stale_battery_page_cleared[OF hmi_cycle[OF startedSystem_reach c(1)] c(2) q(2) n r] by simp
  moreover have "numText ''warn'' (uint BMS_WARN_CRITICAL) = ''warn.val=2''" by code_simp
  ultimately show ?thesis using c(1) r by auto
qed

end
