(* ===== verification/Can_Replay.thy ===== *)
theory Can_Replay
  imports Can_Parse C_Scan "HOL-Library.AList" "HOL-Library.List_Lexorder" "HOL-Library.Char_ord"
begin

text \<open>
  The replay tool tools/can_replay/can_replay.cpp: it reads the log of a CAN sniffer line by
  line, runs each frame through the decoders of the firmware and reports violations of the
  values expected of a recorded session.  A file that cannot be opened is \<open>None\<close>; the
  result is the exit code and the printed report.
\<close>

record Frame =
  fr_isExt :: bool
  fr_id :: u32
  fr_msg :: twai_message
  fr_lineNo :: nat

record Stats =
  st_total :: nat
  countsById :: "(string \<times> nat) list"
  unknownIds :: "string set"
  violations :: "string list"
  violationCount :: nat

definition Stats_new :: Stats where
  "Stats_new = \<lparr> st_total = 0, countsById = [], unknownIds = {}, violations = [], violationCount = 0 \<rparr>"

definition addViolation :: "string \<Rightarrow> Stats \<Rightarrow> Stats" where
  "addViolation v st =
    (let st = st\<lparr> violationCount := violationCount st + 1 \<rparr>
     in if length (violations st) < 20 then st\<lparr> violations := violations st @ [v] \<rparr> else st)"

definition kExpectedPackVDeciV :: u16 where "kExpectedPackVDeciV = 790"
definition kExpectedChargerVsetDeciV :: u16 where "kExpectedChargerVsetDeciV = 880"
definition kExpectedChargerIsetDeciA :: u16 where "kExpectedChargerIsetDeciA = 1000"
definition kKnownStdIds :: "u32 set" where "kKnownStdIds = {0}"
definition TWAI_FRAME_MAX_DLC :: nat where [simp]: "TWAI_FRAME_MAX_DLC = 8"

definition trimmable :: "char \<Rightarrow> bool" where
  "trimmable c \<longleftrightarrow> c \<in> {CHR '' '', CHR 0x09, CHR 0x0D, CHR 0x0A}"

definition trim :: "string \<Rightarrow> string" where
  "trim s = rev (dropWhile trimmable (rev (dropWhile trimmable s)))"

definition idKey :: "bool \<Rightarrow> u32 \<Rightarrow> string" where
  "idKey isExt i = fst (snprintf 24 ((if isExt then ''EXT'' else ''STD'') @ '' 0x'' @ show_hexw 8 (unat i)))"

text \<open>The loop over the data bytes: how many there were and the data array.\<close>

fun fillData :: "string list \<Rightarrow> nat \<times> u8 list \<Rightarrow> string + nat \<times> u8 list" where
  "fillData [] nd = Inr nd"
| "fillData (byteStr # rest) (n, d) =
    (if n \<ge> TWAI_FRAME_MAX_DLC then Inl ''8'den fazla veri byte'i''
     else fillData rest (n + 1, d[n := ucast (strtoul 16 byteStr)]))"

definition parseLine :: "string \<Rightarrow> nat \<Rightarrow> string + Frame" where
  "parseLine line lineNo =
    (let parts = map trim (getlines (CHR ''|'') line)
     in if length parts \<noteq> 4
        then Inl (''beklenen 4 alan (FMT|ID|DLC|HEX), bulunan '' @ show_nat (length parts))
        else if parts ! 0 \<noteq> ''EXT'' \<and> parts ! 0 \<noteq> ''STD''
        then Inl (''bilinmeyen frame formati: '' @ [CHR 0x27] @ parts ! 0 @ [CHR 0x27])
        else
          let isExt = (parts ! 0 = ''EXT'');
              i = ucast (strtoul 16 (parts ! 1)) :: u32;
              dlc = strtol 10 (parts ! 2)
          in if dlc < 0 \<or> dlc > int TWAI_FRAME_MAX_DLC then Inl (''gecersiz DLC: '' @ parts ! 2)
             else case fillData (tokens (parts ! 3)) (0, replicate TWAI_FRAME_MAX_DLC 0) of
                    Inl err \<Rightarrow> Inl err
                  | Inr (n, d) \<Rightarrow>
                      if int n \<noteq> dlc
                      then Inl (''DLC='' @ show_int dlc @ '' ama '' @ show_nat n @ '' hex byte var'')
                      else Inr \<lparr> fr_isExt = isExt, fr_id = i,
                                 fr_msg = \<lparr> rtr = False, extd = False, can_identifier = i,
                                            data_length_code = of_int dlc, payload = d \<rparr>,
                                 fr_lineNo = lineNo \<rparr>)"

definition checkE000 :: "Frame \<Rightarrow> string \<Rightarrow> bool \<Rightarrow> Stats \<Rightarrow> Stats" where
  "checkE000 f wher sessionAsserts st =
    (case parseLbBmsE000 (fr_msg f) TelemetryData_zero of
       None \<Rightarrow> addViolation (wher @ '': parseLbBmsE000 false dondu (DLC<8)'') st
     | Some out \<Rightarrow>
         if \<not> sessionAsserts then st
         else
           let st = (if TEL_bmsPackVoltageDeciV out \<noteq> kExpectedPackVDeciV
                     then addViolation (wher @ '': E000 packV='' @ show_int (uint (TEL_bmsPackVoltageDeciV out)) @
                            '' deciV, beklenen 790 (79.0 V)'') st else st);
               st = (if payload (fr_msg f) ! 2 \<noteq> 0x03 \<or> payload (fr_msg f) ! 3 \<noteq> 0x16
                     then addViolation (wher @ '': E000 byte[2:3] != 0x0316'') st else st);
               cur = sint (TEL_bmsCurrentCentiA out)
           in if cur \<noteq> - 10 \<and> cur \<noteq> - 20
              then addViolation (wher @ '': E000 akim '' @ show_int cur @ '', beklenen {-10,-20} centi-A (idle)'') st else st)"

definition checkCharger :: "Frame \<Rightarrow> string \<Rightarrow> bool \<Rightarrow> Stats \<Rightarrow> Stats" where
  "checkCharger f wher sessionAsserts st =
    (case parseCharger1806E5F4 (fr_msg f) \<lparr> chargeVoltageSetpointDeciV = 0, chargeCurrentSetpointDeciA = 0 \<rparr> of
       None \<Rightarrow> addViolation (wher @ '': parseCharger1806E5F4 false dondu (DLC<4)'') st
     | Some cmd \<Rightarrow>
         if \<not> sessionAsserts then st
         else if chargeVoltageSetpointDeciV cmd \<noteq> kExpectedChargerVsetDeciV \<or>
                 chargeCurrentSetpointDeciA cmd \<noteq> kExpectedChargerIsetDeciA
         then addViolation (wher @ '': charger setpoint Vset='' @ show_int (uint (chargeVoltageSetpointDeciV cmd)) @
                '' Iset='' @ show_int (uint (chargeCurrentSetpointDeciA cmd)) @ '', beklenen 880/1000 (88.0 V / 100.0 A)'') st
         else st)"

text \<open>The other known identifiers are decoded and the result is dropped.\<close>

definition processExtFrame :: "Frame \<Rightarrow> bool \<Rightarrow> Stats \<Rightarrow> Stats" where
  "processExtFrame f sessionAsserts st =
    (let wher = fst (snprintf 32 (''satir '' @ show_nat (fr_lineNo f)))
     in if fr_id f = 0x0000E000 then checkE000 f wher sessionAsserts st
        else if fr_id f = 0x1806E5F4 then checkCharger f wher sessionAsserts st
        else if fr_id f \<in> {0x0000E001, 0x0000E002, 0x0000E003, 0x0000E004, 0x0000E005, 0x0000E032, 0x0000E033} then st
        else st\<lparr> unknownIds := insert (idKey True (fr_id f)) (unknownIds st) \<rparr>)"

text \<open>The increment of a map entry, which an absent key has as zero.\<close>

definition mapIncr :: "string \<Rightarrow> (string \<times> nat) list \<Rightarrow> (string \<times> nat) list" where
  "mapIncr k m = AList.update k (case map_of m k of None \<Rightarrow> 1 | Some n \<Rightarrow> n + 1) m"

definition countFrame :: "Frame \<Rightarrow> Stats \<Rightarrow> Stats" where
  "countFrame f st = st\<lparr> st_total := st_total st + 1, countsById := mapIncr (idKey (fr_isExt f) (fr_id f)) (countsById st) \<rparr>"

text \<open>One round of the main loop: the statistics, the number of the last line and the number of
  broken lines.\<close>

definition replayLine :: "bool \<Rightarrow> string \<Rightarrow> Stats \<times> nat \<times> nat \<Rightarrow> Stats \<times> nat \<times> nat" where
  "replayLine sessionAsserts line s =
    (let (st, lineNo, badLines) = s;
         lineNo = lineNo + 1;
         t = trim line
     in if t = [] \<or> hd t = CHR ''#'' then (st, lineNo, badLines)
        else case parseLine t lineNo of
               Inl err \<Rightarrow>
                 (addViolation (''satir '' @ show_nat lineNo @ '': log satiri bozuk '' @ [CHR 0xE2, CHR 0x80, CHR 0x94] @ '' '' @ err) st,
                  lineNo, badLines + 1)
             | Inr f \<Rightarrow>
                 (let st = countFrame f st;
                      st = (if fr_isExt f then processExtFrame f sessionAsserts st
                            else if fr_id f \<notin> kKnownStdIds
                            then st\<lparr> unknownIds := insert (idKey False (fr_id f)) (unknownIds st) \<rparr> else st)
                  in (st, lineNo, badLines)))"

definition replayArgs :: "string list \<Rightarrow> bool \<times> string" where
  "replayArgs args =
    fold (\<lambda>arg (sessionAsserts, path). if arg = ''--generic'' then (False, path) else (sessionAsserts, arg)) args (True, [])"

text \<open>The report, with the maps in the order of their keys.\<close>

definition padLeft :: "nat \<Rightarrow> string \<Rightarrow> string" where
  "padLeft w s = replicate (w - length s) (CHR '' '') @ s"

definition padRight :: "nat \<Rightarrow> string \<Rightarrow> string" where
  "padRight w s = s @ replicate (w - length s) (CHR '' '')"

definition replayReport :: "bool \<Rightarrow> string \<Rightarrow> Stats \<Rightarrow> nat \<Rightarrow> string list" where
  "replayReport sessionAsserts path st badLines =
    [''=== can_replay ozet raporu ==='',
     ''Log: '' @ path @ (if sessionAsserts then '' (oturum assert'leri: ACIK)'' else '' (--generic)''),
     ''Toplam frame: '' @ show_nat (st_total st) @ ''  (bozuk satir: '' @ show_nat badLines @ '')'', [], ''ID dagilimi:''] @
    map (\<lambda>(k, n). ''  '' @ padRight 16 k @ '' '' @ padLeft 8 (show_nat n)) (sort_key fst (countsById st)) @
    (if unknownIds st \<noteq> {}
     then [[], ''BILINEN 10 ID DISINDA ID'LER ('' @ show_nat (card (unknownIds st)) @ ''):''] @
          map ((@) ''  '') (sorted_list_of_set (unknownIds st))
     else [[], ''Bilinen 10 ID disinda ID yok. '' @ [CHR 0xE2, CHR 0x9C, CHR 0x93]]) @
    (if violationCount st > 0
     then [[], ''IHLALLER ('' @ show_nat (violationCount st) @ '' toplam, ilk '' @ show_nat (length (violations st)) @ '' gosteriliyor):''] @
          map ((@) ''  '') (violations st) @ [[], ''SONUC: FAIL'']
     else [[], ''Tum invariant'lar gecti. SONUC: PASS''])"

text \<open>The program, over the files it can open: exit code, report and final statistics.  A call without
  a path or with a file that does not open ends with code 2 before there is a report.\<close>

definition can_replay :: "(string \<Rightarrow> string option) \<Rightarrow> string list \<Rightarrow> nat \<times> string list \<times> Stats \<times> nat" where
  "can_replay openFile args =
    (let (sessionAsserts, path) = replayArgs args
     in if path = [] then (2, [], Stats_new, 0)
        else case openFile path of
               None \<Rightarrow> (2, [], Stats_new, 0)
             | Some content \<Rightarrow>
                 (let (st, lineNo, badLines) = fold (replayLine sessionAsserts) (getlines (CHR 0x0A) content) (Stats_new, 0, 0)
                  in (if violationCount st > 0 then 1 else 0, replayReport sessionAsserts path st badLines, st, badLines)))"

subsection \<open>Lines\<close>

lemma trim_pad:
  assumes "\<forall>c \<in> set l. trimmable c" "\<forall>c \<in> set r. trimmable c" "w \<noteq> []" "\<not> trimmable (hd w)" "\<not> trimmable (last w)"
  shows "trim (l @ w @ r) = w"
proof -
  have "dropWhile trimmable (l @ w @ r) = w @ r" using assms(1,3,4) by (cases w) (auto simp: dropWhile_append2)
  moreover have "dropWhile trimmable (rev r @ rev w) = dropWhile trimmable (rev w)"
    using assms(2) by (intro dropWhile_append2) simp
  moreover have "dropWhile trimmable (rev w) = rev w" using assms(3,5) by (cases w rule: rev_cases) auto
  ultimately show ?thesis by (simp add: trim_def)
qed

lemma trim_last: "trim s \<noteq> [] \<Longrightarrow> \<not> trimmable (last (trim s))"
  unfolding trim_def by (metis hd_dropWhile last_rev rev_is_Nil_conv)

lemma trimmable_isspace: "trimmable c \<Longrightarrow> isspace c"
  by (auto simp: trimmable_def isspace_def)

lemma trim_Nil_iff: "trim s = [] \<longleftrightarrow> (\<forall>c \<in> set s. trimmable c)"
proof
  assume "trim s = []"
  then have d: "\<forall>c \<in> set (dropWhile trimmable s). trimmable c" by (simp add: trim_def)
  then have "dropWhile trimmable s = []" using hd_dropWhile[of trimmable s] hd_in_set[of "dropWhile trimmable s"] by blast
  then show "\<forall>c \<in> set s. trimmable c" by simp
qed (auto simp: trim_def dest: set_dropWhileD)

text \<open>The documented line of a frame: \<open>EXT | 0x0000E000 | 8 | FF FF 03 16 0F 5E 09 71\<close>.\<close>

definition byteText :: "u8 list \<Rightarrow> string" where
  "byteText bs = show_hex2 (hd bs) @ concat (map ((#) (CHR '' '')) (map show_hex2 (tl bs)))"

definition logLine :: "bool \<Rightarrow> u32 \<Rightarrow> u8 list \<Rightarrow> string" where
  "logLine isExt i bs =
    (if isExt then ''EXT'' else ''STD'') @ '' | 0x'' @ show_hexw 8 (unat i) @ '' | '' @ show_nat (length bs) @ '' | '' @ byteText bs"

definition logFrame :: "bool \<Rightarrow> u32 \<Rightarrow> u8 list \<Rightarrow> nat \<Rightarrow> Frame" where
  "logFrame isExt i bs lineNo = \<lparr> fr_isExt = isExt, fr_id = i,
     fr_msg = \<lparr> rtr = False, extd = False, can_identifier = i, data_length_code = of_nat (length bs),
                payload = bs @ replicate (8 - length bs) 0 \<rparr>, fr_lineNo = lineNo \<rparr>"

lemma digit_clean: "isdigit c \<Longrightarrow> \<not> isspace c \<and> c \<noteq> CHR ''|''"
  by (auto simp: isdigit_def isspace_def)

lemma hex2_clean:
  "show_hex2 b \<noteq> []" "c \<in> set (show_hex2 b) \<Longrightarrow> \<not> isspace c \<and> c \<noteq> CHR ''|''"
  using hexw_clean[of c 2 "unat b"] by (auto simp: show_hex2_w simp flip: length_0_conv)

lemma tokens_byteText: "bs \<noteq> [] \<Longrightarrow> tokens (byteText bs) = map show_hex2 bs"
  unfolding byteText_def using hex2_clean by (subst tokens_concat) (auto simp: isspace_def simp flip: list.map(2))

lemma strtoul_byte: "ucast (strtoul 16 (show_hex2 b)) = b"
proof -
  have "unat b < 16 ^ 2" using u8_unat_less[of b] by simp
  then show ?thesis using strtoul_hexw(1)[of 2 "unat b"] by (simp add: show_hex2_w ucast_up_ucast_id is_up)
qed

lemma fillData_bytes:
  "n + length bs \<le> 8 \<Longrightarrow> length d = 8 \<Longrightarrow>
   fillData (map show_hex2 bs) (n, d) = Inr (n + length bs, take n d @ bs @ drop (n + length bs) d)"
proof (induction bs arbitrary: n d)
  case (Cons b bs)
  have "take (Suc n) (d[n := b]) = take n d @ [b]" using Cons.prems by (simp add: take_Suc_conv_app_nth)
  then show ?case using Cons.IH[of "Suc n" "d[n := b]"] Cons.prems by (simp add: strtoul_byte)
qed simp

lemma strtol_length: "n \<le> 8 \<Longrightarrow> strtol 10 (show_nat n) = int n"
proof -
  have "list_all (\<lambda>n. strtol 10 (show_nat n) = int n) [0..<9]" by code_simp
  then show "n \<le> 8 \<Longrightarrow> ?thesis" by (simp add: list_all_iff del: upt_rec_numeral)
qed

lemma trim_text:
  assumes "w \<noteq> []" "\<forall>c \<in> set w. \<not> isspace c"
  shows "trim (w @ '' '') = w" "trim ('' '' @ w @ '' '') = w"
proof -
  have "\<not> trimmable (hd w)" "\<not> trimmable (last w)" using assms trimmable_isspace hd_in_set last_in_set by blast+
  moreover have "trimmable (CHR '' '')" by (simp add: trimmable_def)
  ultimately show "trim (w @ '' '') = w" "trim ('' '' @ w @ '' '') = w"
    using trim_pad[of "[]" "'' ''" w] trim_pad[of "'' ''" "'' ''" w] assms(1) by simp_all
qed

lemma byteText_ends:
  assumes "bs \<noteq> []"
  shows "byteText bs \<noteq> []" "\<not> trimmable (hd (byteText bs))" "\<not> trimmable (last (byteText bs))" "CHR ''|'' \<notin> set (byteText bs)"
proof -
  have h: "hd (show_hex2 b) \<in> set (show_hex2 b)" "last (show_hex2 b) \<in> set (show_hex2 b)" for b using hex2_clean(1) by simp_all
  have c: "concat (map ((#) x) (vs @ [v])) = (concat (map ((#) x) vs) @ [x]) @ v" for x :: char and vs v by simp
  show "byteText bs \<noteq> []" using hex2_clean(1) by (simp add: byteText_def)
  show "\<not> trimmable (hd (byteText bs))"
    using hex2_clean(1) hex2_clean(2)[OF h(1)] trimmable_isspace by (simp add: byteText_def hd_append) blast
  show "CHR ''|'' \<notin> set (byteText bs)" using hex2_clean(2) by (auto simp: byteText_def)
  have "last (byteText bs) = last (show_hex2 (last bs))"
    using assms hex2_clean(1) unfolding byteText_def
    by (cases bs rule: rev_cases) (auto simp: last_append hd_append tl_append split: list.split)
  then show "\<not> trimmable (last (byteText bs))" using hex2_clean(2)[OF h(2)] trimmable_isspace by auto
qed

lemma logLine_parts:
  assumes "bs \<noteq> []"
  shows "map trim (getlines (CHR ''|'') (trim (logLine e i bs))) =
    [if e then ''EXT'' else ''STD'', ''0x'' @ show_hexw 8 (unat i), show_nat (length bs), byteText bs]"
proof -
  let ?k = "if e then ''EXT'' else ''STD''"
  let ?ws = "['' 0x'' @ show_hexw 8 (unat i) @ '' '', '' '' @ show_nat (length bs) @ '' '', '' '' @ byteText bs]"
  note b = byteText_ends[OF assms]
  have l: "logLine e i bs = (?k @ '' '') @ concat (map ((#) (CHR ''|'')) ?ws)" by (simp add: logLine_def)
  have t: "trim (logLine e i bs) = logLine e i bs"
    using trim_pad[of "[]" "[]" "logLine e i bs"] b(1,3) by (simp add: logLine_def trimmable_def)
  have hx: "\<forall>c \<in> set (''0x'' @ show_hexw 8 (unat i)). \<not> isspace c" using hexw_clean(2) by (auto simp: isspace_def)
  have dg: "\<forall>c \<in> set (show_nat n). \<not> isspace c \<and> c \<noteq> CHR ''|''" for n using show_nat_digits[of n] digit_clean by (auto simp: list_all_iff)
  have "CHR ''|'' \<notin> set (show_hexw 8 (unat i))" "CHR ''|'' \<notin> set (show_nat (length bs))" using hexw_clean(3) dg by blast+
  then have "CHR ''|'' \<notin> set x" if "x \<in> set ?ws" for x using that b(4) by (auto simp del: show_hexw.simps)
  then have "split_on (CHR ''|'') (logLine e i bs) = (?k @ '' '') # ?ws"
    unfolding l by (intro split_on_concat) auto
  then have "getlines (CHR ''|'') (logLine e i bs) = (?k @ '' '') # ?ws" using b(1) by (simp add: getlines_def)
  moreover have "trim (?k @ '' '') = ?k" using trim_text(1)[of ?k] by (simp add: isspace_def)
  moreover have "trim ('' 0x'' @ show_hexw 8 (unat i) @ '' '') = ''0x'' @ show_hexw 8 (unat i)" using trim_text(2)[OF _ hx] by simp
  moreover have "trim ('' '' @ show_nat (length bs) @ '' '') = show_nat (length bs)"
    using trim_text(2)[of "show_nat (length bs)"] dg show_nat_digits by simp
  moreover have "trim ('' '' @ byteText bs) = byteText bs" using trim_pad[of "'' ''" "[]" "byteText bs"] b(1-3) by (simp add: trimmable_def)
  ultimately show ?thesis unfolding t by simp
qed

text \<open>The replay tool reads what the sniffer writes: the documented line of any frame with one
  to eight data bytes is decoded to exactly that frame, its unused bytes zero.\<close>

lemma replay_line_roundtrip:
  assumes "1 \<le> length bs" "length bs \<le> 8"
  shows "parseLine (trim (logLine isExt i bs)) lineNo = Inr (logFrame isExt i bs lineNo)"
proof -
  have ne: "bs \<noteq> []" using assms(1) by auto
  have "unat i < 16 ^ 8" "unat i < 2 ^ 64" using unsigned_less[of i, where 'a = nat] by simp_all
  then have i: "ucast (strtoul 16 (''0x'' @ show_hexw 8 (unat i))) = i"
    using strtoul_hexw(2)[of 8 "unat i"] by (simp add: ucast_up_ucast_id is_up)
  have f: "fillData (tokens (byteText bs)) (0, replicate TWAI_FRAME_MAX_DLC 0) = Inr (length bs, bs @ replicate (8 - length bs) 0)"
    using fillData_bytes[of 0 bs "replicate 8 0"] assms(2) tokens_byteText[OF ne] by simp
  show ?thesis
    using strtol_length[OF assms(2)] assms(2) i f
    by (simp add: parseLine_def logLine_parts[OF ne] Let_def logFrame_def)
qed

lemma show_nat_8: "show_nat (Suc (Suc (Suc (Suc (Suc (Suc (Suc (Suc 0)))))))) = ''8''"
  by code_simp

subsection \<open>What the reader accepts\<close>

text \<open>Text that is no number is read as zero, since the conversions are not checked for where they stop.\<close>

lemma replay_accepts_non_numbers:
  "strtoul 16 ''zz'' = 0" "strtoul 16 ''xyz'' = 0" "strtol 10 ''eight'' = 0"
  by (simp_all add: strtoul_def strtol_def strto_def isspace_def strip_prefix16_def digits_of_def is_digit_of_def digit_value_def)

text \<open>The line of a frame without data bytes has three fields and counts as broken.\<close>

lemma replay_rejects_empty_frame:
  "parseLine (trim ''EXT | 0x0000E000 | 0 | '') lineNo = Inl ''beklenen 4 alan (FMT|ID|DLC|HEX), bulunan 3''"
proof -
  have "map trim (getlines (CHR ''|'') (trim ''EXT | 0x0000E000 | 0 | '')) = [''EXT'', ''0x0000E000'', ''0'']" by code_simp
  moreover have "show_nat (Suc (Suc (Suc 0))) = ''3''" by code_simp
  ultimately show ?thesis by (simp add: parseLine_def Let_def)
qed

text \<open>The counts add up to the number of frames, and the report keeps the first twenty violations.\<close>

lemma update_sum: "sum_list (map snd (mapIncr k m)) = Suc (sum_list (map snd m))"
proof -
  have "sum_list (map snd (AList.update k v m)) + (case map_of m k of None \<Rightarrow> 0 | Some n \<Rightarrow> n) = sum_list (map snd m) + v" for v
    by (induction m) auto
  from this[of "case map_of m k of None \<Rightarrow> 1 | Some n \<Rightarrow> n + 1"] show ?thesis
    by (simp add: mapIncr_def split: option.splits)
qed

definition stats_wf :: "Stats \<Rightarrow> bool" where
  "stats_wf st \<longleftrightarrow> st_total st = sum_list (map snd (countsById st)) \<and> length (violations st) = min 20 (violationCount st)"

lemma addViolation_wf: "stats_wf st \<Longrightarrow> stats_wf (addViolation v st)"
  by (auto simp: stats_wf_def addViolation_def Let_def)

lemma processExtFrame_wf: "stats_wf st \<Longrightarrow> stats_wf (processExtFrame f a st)"
  by (auto simp: processExtFrame_def checkE000_def checkCharger_def Let_def intro!: addViolation_wf split: option.split)
     (auto simp: stats_wf_def)

lemma countFrame_wf: "stats_wf st \<Longrightarrow> stats_wf (countFrame f st)"
  by (simp add: stats_wf_def countFrame_def update_sum)

lemma replayLine_wf: "stats_wf (fst s) \<Longrightarrow> stats_wf (fst (replayLine a line s))"
  unfolding replayLine_def Let_def case_prod_beta
  by (auto intro!: addViolation_wf processExtFrame_wf countFrame_wf split: sum.split)
     (use countFrame_wf in \<open>force simp: stats_wf_def\<close>)+

lemma replay_stats:
  assumes "can_replay openFile args = (code, report, st, bad)"
  shows "stats_wf st"
proof -
  have "stats_wf (fst (fold (replayLine a) ls s))" if "stats_wf (fst s)" for a ls s
    using that by (induction ls arbitrary: s) (simp_all add: replayLine_wf)
  moreover have "stats_wf Stats_new" by (simp add: stats_wf_def Stats_new_def)
  ultimately show ?thesis
    using assms by (fastforce simp: can_replay_def case_prod_beta Let_def split: if_splits option.splits)
qed

subsection \<open>The verdict\<close>

text \<open>What a recorded session has to satisfy, on the raw words of the frames.\<close>

definition frameOk :: "bool \<Rightarrow> Frame \<Rightarrow> bool" where
  "frameOk sessionAsserts f \<longleftrightarrow>
    (fr_isExt f \<and> fr_id f = 0xE000 \<longrightarrow>
       data_length_code (fr_msg f) \<ge> 8 \<and>
       (sessionAsserts \<longrightarrow> word_at (fr_msg f) 2 = 790 \<and> word_at (fr_msg f) 0 \<in> {0xFFFF, 0xFFFE})) \<and>
    (fr_isExt f \<and> fr_id f = 0x1806E5F4 \<longrightarrow>
       data_length_code (fr_msg f) \<ge> 4 \<and>
       (sessionAsserts \<longrightarrow> word_at (fr_msg f) 0 = 880 \<and> word_at (fr_msg f) 2 = 1000))"

definition lineOk :: "bool \<Rightarrow> string \<Rightarrow> bool" where
  "lineOk sessionAsserts line \<longleftrightarrow>
    trim line = [] \<or> hd (trim line) = CHR ''#'' \<or>
    (case parseLine (trim line) 0 of Inl _ \<Rightarrow> False | Inr f \<Rightarrow> frameOk sessionAsserts f)"

lemma addViolation_count [simp]: "violationCount (addViolation v st) = Suc (violationCount st)"
  by (simp add: addViolation_def Let_def)

lemma idle_current_word: "sint (scast (w :: u16) * 10 :: 32 word) \<in> {- 10, - 20} \<longleftrightarrow> w \<in> {0xFFFF, 0xFFFE}"
proof -
  have "sint (scast w * 10 :: 32 word) = sint w * 10" by (rule sint_scast_mult10)
  moreover have "sint w = - 1 \<longleftrightarrow> w = - 1" "sint w = - 2 \<longleftrightarrow> w = - 2"
    using word_eq_iff_signed[of w "- 1", where 'a = int] word_eq_iff_signed[of w "- 2", where 'a = int] by simp_all
  moreover have "sint w * 10 = - 10 \<longleftrightarrow> sint w = - 1" "sint w * 10 = - 20 \<longleftrightarrow> sint w = - 2" by auto
  moreover have "(- 1 :: u16) = 0xFFFF" "(- 2 :: u16) = 0xFFFE" by simp_all
  ultimately show ?thesis by (simp only: insert_iff empty_iff)
qed

lemma pack_word_bytes: "word_at msg 2 = 790 \<longleftrightarrow> payload msg ! 2 = 0x03 \<and> payload msg ! 3 = 0x16"
proof -
  have "word_at msg 2 = 790 \<longleftrightarrow> unat (payload msg ! 2) * 256 + unat (payload msg ! 3) = 790"
    by (simp add: word_at_def word_unat_eq_iff be16_unat)
  also have "\<dots> \<longleftrightarrow> unat (payload msg ! 2) = 3 \<and> unat (payload msg ! 3) = 22"
    using u8_unat_less[of "payload msg ! 3"] by presburger
  finally show ?thesis by (simp add: word_unat_eq_iff)
qed

lemma parseLine_lineNo:
  "parseLine t n = (case parseLine t 0 of Inl e \<Rightarrow> Inl e | Inr f \<Rightarrow> Inr (f\<lparr> fr_lineNo := n \<rparr>))"
  by (simp add: parseLine_def Let_def split: sum.split prod.split)

lemma frameOk_lineNo [simp]: "frameOk a (f\<lparr> fr_lineNo := n \<rparr>) = frameOk a f"
  by (simp add: frameOk_def)

lemma processExtFrame_count:
  assumes "fr_isExt f"
  shows "violationCount (processExtFrame f a st) = violationCount st \<longleftrightarrow> frameOk a f"
    "violationCount st \<le> violationCount (processExtFrame f a st)"
proof -
  have "cur \<noteq> - 10 \<and> cur \<noteq> - 20 \<longleftrightarrow> cur \<notin> {- 10, - 20}" for cur :: int by simp
  note c = this idle_current_word
  have p: "payload (fr_msg f) ! 2 \<noteq> 0x03 \<or> payload (fr_msg f) ! 3 \<noteq> 0x16 \<longleftrightarrow> word_at (fr_msg f) 2 \<noteq> 790"
    by (simp add: pack_word_bytes)
  show "violationCount (processExtFrame f a st) = violationCount st \<longleftrightarrow> frameOk a f"
    using assms unfolding processExtFrame_def checkE000_def checkCharger_def frameOk_def Let_def c p
    by (simp add: parseLbBmsE000_def parseCharger1806E5F4_def kExpectedPackVDeciV_def
        kExpectedChargerVsetDeciV_def kExpectedChargerIsetDeciA_def idle_current_word linorder_not_less del: insert_iff) auto
  show "violationCount st \<le> violationCount (processExtFrame f a st)"
    by (simp add: processExtFrame_def checkE000_def checkCharger_def Let_def split: option.split)
qed

lemma replayLine_step:
  assumes "replayLine a line (st, n, b) = (st', n', b')"
  shows "violationCount st' = violationCount st \<longleftrightarrow> lineOk a line" "violationCount st \<le> violationCount st'"
proof -
  let ?t = "trim line"
  have "(violationCount st' = violationCount st \<longleftrightarrow> lineOk a line) \<and> violationCount st \<le> violationCount st'"
  proof (cases "?t = [] \<or> hd ?t = CHR ''#''")
    case True
    then show ?thesis using assms by (auto simp: replayLine_def lineOk_def)
  next
    case nt: False
    show ?thesis
    proof (cases "parseLine ?t 0")
      case (Inl e)
      then show ?thesis using assms nt by (auto simp: replayLine_def lineOk_def parseLine_lineNo[of _ "Suc n"])
    next
      case (Inr f)
      have "st' = (let st = countFrame (f\<lparr> fr_lineNo := Suc n \<rparr>) st in
          if fr_isExt f then processExtFrame (f\<lparr> fr_lineNo := Suc n \<rparr>) a st
          else if fr_id f \<notin> kKnownStdIds then st\<lparr> unknownIds := insert (idKey False (fr_id f)) (unknownIds st) \<rparr> else st)"
        using assms nt Inr by (auto simp: replayLine_def Let_def parseLine_lineNo[of _ "Suc n"])
      moreover have "violationCount (countFrame g st) = violationCount st" for g by (simp add: countFrame_def)
      moreover have "\<not> fr_isExt f \<Longrightarrow> frameOk a f" by (simp add: frameOk_def)
      ultimately show ?thesis
        using nt Inr processExtFrame_count[where f = "f\<lparr> fr_lineNo := Suc n \<rparr>" and st = "countFrame (f\<lparr> fr_lineNo := Suc n \<rparr>) st" and a = a]
        by (auto simp: lineOk_def Let_def)
    qed
  qed
  then show "violationCount st' = violationCount st \<longleftrightarrow> lineOk a line" "violationCount st \<le> violationCount st'" by blast+
qed

lemma replay_fold:
  "fold (replayLine a) ls (st, n, b) = (st', n', b') \<Longrightarrow>
   (violationCount st' = violationCount st \<longleftrightarrow> list_all (lineOk a) ls) \<and> violationCount st \<le> violationCount st'"
proof (induction ls arbitrary: st n b)
  case (Cons l ls)
  obtain st1 n1 b1 where r: "replayLine a l (st, n, b) = (st1, n1, b1)" by (metis prod_cases3)
  have "fold (replayLine a) ls (st1, n1, b1) = (st', n', b')" using Cons.prems r by simp
  then show ?case using Cons.IH[of st1 n1 b1] replayLine_step[OF r] by force
qed simp

definition pathArg :: "string list \<Rightarrow> string" where
  "pathArg args = (let ps = filter (\<lambda>a. a \<noteq> ''--generic'') args in if ps = [] then [] else last ps)"

lemma replayArgs_eq: "replayArgs args = (''--generic'' \<notin> set args, pathArg args)"
  unfolding replayArgs_def pathArg_def by (induction args rule: rev_induct) (auto simp: Let_def)

text \<open>C29. The verdict of the replay tool: it exits with 2 without a path (the last argument that is
  not the flag) or when the file does not open, with 0 when every line is blank, a comment or a
  well-formed frame that meets the expectations on its raw words (a pack frame has eight bytes, a
  charger frame four; without the flag also a pack voltage of 79.0 V at an idle current of -0.1 or
  -0.2 A and the setpoints 88.0 V and 100.0 A), and with 1 otherwise.\<close>

theorem replay_verdict:
  "fst (can_replay openFile args) =
    (if pathArg args = [] then 2
     else case openFile (pathArg args) of
            None \<Rightarrow> 2
          | Some content \<Rightarrow>
              if list_all (lineOk (''--generic'' \<notin> set args)) (getlines (CHR 0x0A) content) then 0 else 1)"
proof -
  define ok where "ok = (''--generic'' \<notin> set args)"
  have "(0 < violationCount (fst (fold (replayLine ok) ls (Stats_new, 0, 0)))) = (\<not> list_all (lineOk ok) ls)" for ls
    using replay_fold[of ok ls Stats_new 0 0] by (cases "fold (replayLine ok) ls (Stats_new, 0, 0)") (auto simp: Stats_new_def)
  then show ?thesis by (simp add: can_replay_def replayArgs_eq case_prod_beta Let_def ok_def[symmetric] split: option.split)
qed

end
