(* ===== verification/E22_Diag.thy ===== *)
theory E22_Diag
  imports Lora_Uplink C_Scan
begin

text \<open>
  The diagnostic firmware src/e22_diagnostic.cpp: it reads the register block of the radio,
  prints it and compares it with the agreed one, goes back to normal mode and sends a test line.
  The console is the list of what is printed; the calls of the ESP-IDF are the record of the
  LoRa task with \<open>gpio_config\<close> as a further argument.  The polling loops are partial functions as in
  lib/LoraLink, here on the 32-bit tick count.
\<close>

datatype DiagOut = LOGI string | LOGW string | LOGE string | PRINTF string

definition DIAG_AUX_WAIT_MS :: u32 where [cfg]: "DIAG_AUX_WAIT_MS = 500"
definition DIAG_RX_WAIT_MS :: u32 where [cfg]: "DIAG_RX_WAIT_MS = 500"

subsection \<open>Register texts\<close>

definition DIAG_uartBaudStr :: "u8 \<Rightarrow> string" where
  "DIAG_uartBaudStr b =
    (if b = 0 then ''1200'' else if b = 1 then ''2400'' else if b = 2 then ''4800'' else if b = 3 then ''9600''
     else if b = 4 then ''19200'' else if b = 5 then ''38400'' else if b = 6 then ''57600''
     else if b = 7 then ''115200'' else ''?'')"

definition DIAG_parityStr :: "u8 \<Rightarrow> string" where
  "DIAG_parityStr p =
    (let q = p AND 0x03
     in if q = 0 then ''8N1'' else if q = 1 then ''8O1'' else if q = 2 then ''8E1'' else if q = 3 then ''8N1'' else ''8N1'')"

definition DIAG_airRateStr :: "u8 \<Rightarrow> string" where
  "DIAG_airRateStr r =
    (if r = 0 then ''0.3 kbps'' else if r = 1 then ''1.2 kbps'' else if r = 2 then ''2.4 kbps'' else if r = 3 then ''4.8 kbps''
     else if r = 4 then ''9.6 kbps'' else if r = 5 then ''19.2 kbps'' else if r = 6 then ''38.4 kbps'' else ''62.5 kbps'')"

definition DIAG_decodeReg0 :: "u8 \<Rightarrow> DiagOut list" where
  "DIAG_decodeReg0 r0 =
    (let baud = drop_bit 5 r0 AND 0x07;
         parity = drop_bit 3 r0 AND 0x03;
         air = r0 AND 0x07
     in [LOGI (''  REG0  = 0x'' @ show_hex2 r0 @ ''  ->  UART: '' @ DIAG_uartBaudStr baud @ '' bps | parity: '' @
               DIAG_parityStr parity @ '' | air rate: '' @ DIAG_airRateStr air)])"

definition DIAG_subPacketStr :: "u8 \<Rightarrow> string" where
  "DIAG_subPacketStr s =
    (let q = s AND 0x03 in if q = 0 then ''240 B'' else if q = 1 then ''128 B'' else if q = 2 then ''64 B'' else ''32 B'')"

definition DIAG_txPowerStr :: "u8 \<Rightarrow> string" where
  "DIAG_txPowerStr p =
    (let q = p AND 0x03
     in if q = 0 then ''en yuksek (T30D: 30 dBm)'' else if q = 1 then ''orta-yuksek''
        else if q = 2 then ''orta-dusuk'' else ''en dusuk (~10 dBm)'')"

definition DIAG_decodeReg1 :: "u8 \<Rightarrow> DiagOut list" where
  "DIAG_decodeReg1 r1 =
    [LOGI (''  REG1  = 0x'' @ show_hex2 r1 @ ''  ->  alt-paket: '' @ DIAG_subPacketStr (drop_bit 6 r1 AND 0x03) @
           '' | RSSI ortam gurultusu: '' @ (if drop_bit 5 r1 AND 1 \<noteq> 0 then ''acik'' else ''kapali'') @
           '' | TX gucu: '' @ DIAG_txPowerStr (r1 AND 0x03))]"

text \<open>The frequency is a multiple of 1/8 below 1024, so the float sum and its three printed
  decimals are exact: a number of kilohertz.\<close>

definition DIAG_decodeReg2 :: "u8 \<Rightarrow> DiagOut list" where
  "DIAG_decodeReg2 r2 =
    (let kHz = 410125 + 1000 * unat r2
     in [LOGI (''  REG2  = 0x'' @ show_hex2 r2 @ ''  ->  kanal '' @ show_nat (unat r2) @ ''  ('' @
               show_nat (kHz div 1000) @ ''.'' @ show_nat (kHz mod 1000) @ '' MHz)'')])"

definition DIAG_decodeReg3 :: "u8 \<Rightarrow> DiagOut list" where
  "DIAG_decodeReg3 r3 =
    [LOGI (''  REG3  = 0x'' @ show_hex2 r3 @
           ''  ->  RSSI byte: '' @ (if drop_bit 7 r3 AND 1 \<noteq> 0 then ''ekleniyor'' else ''eklenmiyor'') @
           '' | mod: '' @ (if drop_bit 6 r3 AND 1 \<noteq> 0 then ''fixed'' else ''transparan'') @
           '' | role: '' @ (if drop_bit 5 r3 AND 1 \<noteq> 0 then ''acik'' else ''kapali'') @
           '' | LBT: '' @ (if drop_bit 4 r3 AND 1 \<noteq> 0 then ''acik'' else ''kapali''))]"

subsection \<open>The report on the answer\<close>

definition dash :: string where "dash = [CHR '' '', CHR 0xE2, CHR 0x80, CHR 0x94, CHR '' '']"

definition diagMatches :: DiagOut where
  "diagMatches = LOGI ''Sozlesme karsilastirmasi: UYUMLU (E22_CONTRACT_REGS ile birebir)''"

definition diagDiffers :: DiagOut where
  "diagDiffers = LOGW (''Sozlesme karsilastirmasi: FARKLI'' @ dash @ ''normal firmware boot'ta yazacak'')"

definition diagRegs :: "E22RegValues \<Rightarrow> DiagOut list" where
  "diagRegs regs =
    [LOGI ''-------- E22 Mevcut Parametreler --------'',
     LOGI (''  ADDH  = 0x'' @ show_hex2 (addh regs)),
     LOGI (''  ADDL  = 0x'' @ show_hex2 (addl regs) @ ''  ->  modul adresi: 0x'' @ show_hexw 4 (unat (be16 (addh regs) (addl regs)))),
     LOGI (''  NETID = 0x'' @ show_hex2 (netid regs))] @
    DIAG_decodeReg0 (reg0 regs) @ DIAG_decodeReg1 (reg1 regs) @ DIAG_decodeReg2 (reg2 regs) @ DIAG_decodeReg3 (reg3 regs) @
    [LOGI (''  (CRYPT geri okunamaz'' @ dash @ ''bu dump'ta yok)''), LOGI ''-----------------------------------------'',
     if e22_regsEqual regs E22_CONTRACT_REGS then diagMatches else diagDiffers]"

definition diagReport :: "int \<Rightarrow> u8 list \<Rightarrow> DiagOut list" where
  "diagReport rxLen resp =
    LOGI (''--- Ham yanit ('' @ show_int rxLen @ '' byte) ---'') #
    (if rxLen \<ge> int (3 + unat E22_REG_BLOCK_LEN)
     then map (\<lambda>i. PRINTF (e22RegLine (E22_REG_BLOCK_START + of_nat i) (resp ! (3 + i)))) [0..<unat E22_REG_BLOCK_LEN]
     else []) @
    (if rxLen > 0 \<and> e22_isErrorResponse (Some resp) (of_int rxLen)
     then [LOGE (''E22 FF FF FF hata yaniti'' @ dash @ ''komut reddedildi / modul hazir degil'')]
     else case e22_parseRegResponse (Some resp) (of_int rxLen) of
            None \<Rightarrow>
              [LOGE (''Eksik/hatali yanit: '' @ show_int rxLen @ ''/'' @ show_nat (3 + unat E22_REG_BLOCK_LEN) @ '' byte alindi''),
               LOGE ''Olasiliklar: modul beslenmemis | yanlis kablo | AUX bagli degil'']
          | Some regs \<Rightarrow> diagRegs regs)"

subsection \<open>The program\<close>

definition DIAG_modeCfg :: gpio_config_t where
  "DIAG_modeCfg = \<lparr> pin_bit_mask = push_bit LORA_M0_PIN 1 OR push_bit LORA_M1_PIN 1, gpio_mode = GPIO_MODE_OUTPUT,
     pull_up_en = False, pull_down_en = False, intr_enabled = False \<rparr>"

definition DIAG_auxCfg :: gpio_config_t where
  "DIAG_auxCfg = \<lparr> pin_bit_mask = push_bit LORA_AUX_PIN 1, gpio_mode = GPIO_MODE_INPUT,
     pull_up_en = False, pull_down_en = False, intr_enabled = False \<rparr>"

partial_function (option) diagAuxLoop :: "'e EspLora \<Rightarrow> u32 \<Rightarrow> 'e \<Rightarrow> (bool \<times> 'e) option" where
  "diagAuxLoop esp t0 e =
    (case xTaskGetTickCount esp e of (now, e) \<Rightarrow>
       if now - t0 < pdMS_TO_TICKS DIAG_AUX_WAIT_MS
       then (case gpio_get_level esp LORA_AUX_PIN e of (level, e) \<Rightarrow>
               if level = LORA_AUX_READY_LEVEL then Some (True, e)
               else diagAuxLoop esp t0 (vTaskDelay esp (pdMS_TO_TICKS 10) e))
       else Some (False, e))"

definition diagWaitAux :: "'e EspLora \<Rightarrow> 'e \<Rightarrow> (bool \<times> 'e) option" where
  "diagWaitAux esp e = (case xTaskGetTickCount esp e of (t0, e) \<Rightarrow> diagAuxLoop esp t0 e)"

definition DIAG_pingMsg :: "u8 list" where
  "DIAG_pingMsg = map of_char (''E22_DIAG_PING'' @ [CHR 0x0D, CHR 0x0A])"

text \<open>Steps 1 to 4: pins, configuration mode, UART.  A failing \<open>gpio_config\<close> aborts.\<close>

definition diagSetup :: "(gpio_config_t \<Rightarrow> 'e \<Rightarrow> bool \<times> 'e) \<Rightarrow> 'e EspLora \<Rightarrow> 'e \<Rightarrow> bool \<times> DiagOut list \<times> 'e" where
  "diagSetup gpio_config esp e =
    (let out = [LOGI ''================================================'',
                LOGI (''  E22-400T30D-V2 DIAGNOSTIC'' @ dash @ ''READ ONLY + TX SMOKE''),
                LOGI ''  Hicbir kalici yazma komutu gonderilmeyecek.'',
                LOGI ''================================================''];
         (ok, e) = gpio_config DIAG_modeCfg e
     in if \<not> ok then (False, out, e)
        else let (ok, e) = gpio_config DIAG_auxCfg e
             in if \<not> ok then (False, out, e)
                else let e = gpio_set_level esp LORA_M0_PIN LORA_MODE_CONFIG_M0_LEVEL e;
                         e = gpio_set_level esp LORA_M1_PIN LORA_MODE_CONFIG_M1_LEVEL e;
                         e = snd (uart_param_config esp e);
                         e = snd (uart_set_pin esp e);
                         e = snd (uart_driver_install esp e)
                     in (True, out @ [LOGI (''M0='' @ show_int LORA_MODE_CONFIG_M0_LEVEL @ '' M1='' @
                                            show_int LORA_MODE_CONFIG_M1_LEVEL @ ''  ->  config mode'')], e))"

text \<open>Steps 5 to 7: the query of the registers and the report on its answer.\<close>

definition diagQuery :: "'e EspLora \<Rightarrow> 'e \<Rightarrow> (DiagOut list \<times> 'e) option" where
  "diagQuery esp e =
    (case diagWaitAux esp e of
       None \<Rightarrow> None
     | Some (DIAG_auxReady, e) \<Rightarrow>
         (let e = vTaskDelay esp (pdMS_TO_TICKS 50) e;
              e = uart_flush esp e;
              e = snd (uart_write_bytes esp (e22_buildReadAllCommand (Some 3)) e);
              ((DIAG_rxLen, bytes), e) = uart_read_bytes esp (3 + unat E22_REG_BLOCK_LEN) (pdMS_TO_TICKS DIAG_RX_WAIT_MS) e
          in Some ([LOGI (''AUX HIGH bekleniyor (max '' @ show_int (uint DIAG_AUX_WAIT_MS) @ '' ms)...''),
                    if DIAG_auxReady then LOGI ''AUX HIGH  ->  modul hazir''
                    else LOGW (''AUX '' @ show_int (uint DIAG_AUX_WAIT_MS) @ '' ms icinde HIGH olmadi, devam ediliyor''),
                    LOGI (''Gonderildi: 0xC1 0x'' @ show_hex2 E22_REG_BLOCK_START @ '' 0x'' @ show_hex2 E22_REG_BLOCK_LEN @
                          ''  (mevcut parametreleri oku)'')] @
                   diagReport DIAG_rxLen (rxArray (3 + unat E22_REG_BLOCK_LEN) DIAG_rxLen bytes), e)))"

text \<open>Steps 8 and 9: normal mode and the transmission test.\<close>

definition diagSmoke :: "'e EspLora \<Rightarrow> 'e \<Rightarrow> (DiagOut list \<times> 'e) option" where
  "diagSmoke esp e =
    (let e = vTaskDelay esp (pdMS_TO_TICKS 50) e;
         e = gpio_set_level esp LORA_M0_PIN LORA_MODE_NORMAL_M0_LEVEL e;
         e = gpio_set_level esp LORA_M1_PIN LORA_MODE_NORMAL_M1_LEVEL e
     in case diagWaitAux esp e of
          None \<Rightarrow> None
        | Some (DIAG_normAuxReady, e) \<Rightarrow>
            (let e = uart_flush esp e;
                 (DIAG_txBytes, e) = uart_write_bytes esp DIAG_pingMsg e;
                 ((DIAG_echoLen, bytes), e) = uart_read_bytes esp 31 (pdMS_TO_TICKS DIAG_RX_WAIT_MS) e;
                 echoBuf = (rxArray 31 DIAG_echoLen bytes @ [0])[nat DIAG_echoLen := 0];
                 e = uart_driver_delete esp e
             in Some ([LOGI (''M0='' @ show_int LORA_MODE_NORMAL_M0_LEVEL @ '' M1='' @ show_int LORA_MODE_NORMAL_M1_LEVEL @
                             ''  ->  normal transparent mod geri yuklendi''),
                       LOGI (''Normal mod AUX durumu: '' @ (if DIAG_normAuxReady then ''HIGH (hazir)'' else ''HIGH olmadi (timeout)'')),
                       LOGI (''TX smoke: '' @ show_int DIAG_txBytes @ '' byte gonderildi''),
                       if DIAG_echoLen > 0
                       then LOGI (''RX smoke: '' @ show_int DIAG_echoLen @ '' byte alindi: '' @
                                  map (\<lambda>b. char_of (unat b)) (takeWhile (\<lambda>b. b \<noteq> 0) echoBuf))
                       else LOGI (''RX smoke: yanit yok (karsi uc dinlemiyor olabilir'' @ dash @ ''beklenen)''),
                       LOGI ''================================================'',
                       LOGI ''  Tani tamamlandi. Normal firmware flash'leyin.'',
                       LOGI ''================================================''], e)))"

text \<open>The program up to its idle loop; the first component says that it got there.\<close>

definition diag_app_main ::
  "(gpio_config_t \<Rightarrow> 'e \<Rightarrow> bool \<times> 'e) \<Rightarrow> 'e EspLora \<Rightarrow> 'e \<Rightarrow> (bool \<times> DiagOut list \<times> 'e) option" where
  "diag_app_main gpio_config esp e =
    (let (ok, out, e) = diagSetup gpio_config esp e
     in if \<not> ok then Some (False, out, e)
        else case diagQuery esp e of
               None \<Rightarrow> None
             | Some (out1, e) \<Rightarrow>
                 (case diagSmoke esp e of
                    None \<Rightarrow> None
                  | Some (out2, e) \<Rightarrow> Some (True, out @ out1 @ out2, e)))"

text \<open>One round of the idle loop.\<close>

definition diagIdle :: "'e EspLora \<Rightarrow> 'e \<Rightarrow> DiagOut list \<times> 'e" where
  "diagIdle esp e =
    (let e = vTaskDelay esp (pdMS_TO_TICKS 10000) e
     in ([LOGI ''[E22_DIAG] Normal firmware flash'leyin: pio run -e esp32dev --target upload''], e))"

subsection \<open>What is written\<close>

text \<open>What the loops rely on: the tick count is read modulo \<open>2 ^ 32\<close>, a delay of at least one tick
  advances it, and no call of a loop takes so long that the count could wrap unseen.\<close>

locale diag_clock =
  fixes esp :: "'e EspLora" and ticks :: "'e \<Rightarrow> nat" and slack :: nat
  assumes tick_value: "fst (xTaskGetTickCount esp e) = of_nat (ticks (snd (xTaskGetTickCount esp e)))"
    and delay: "0 < n \<Longrightarrow> ticks e < ticks (vTaskDelay esp n e)"
    and delay_10ms: "takes ticks slack e (vTaskDelay esp 1 e)"
    and call_ticks: "takes ticks slack e (snd (xTaskGetTickCount esp e))" "takes ticks slack e (snd (gpio_get_level esp pin e))"
    and slack: "50 + 3 * slack < 2 ^ 32"
begin

lemma elapsed_ticks:
  assumes "s \<le> m" "m < s + 2 ^ 32"
  shows "(of_nat m - of_nat s < pdMS_TO_TICKS DIAG_AUX_WAIT_MS) \<longleftrightarrow> m < s + 50"
proof -
  have "(of_nat m - of_nat s :: u32) = of_nat (m - s)" using assms(1) by (simp add: of_nat_diff)
  moreover have "unat (of_nat (m - s) :: u32) = m - s" using assms by (simp add: unat_of_nat take_bit_eq_mod del: of_nat_diff)
  moreover have "pdMS_TO_TICKS DIAG_AUX_WAIT_MS = 50" by (simp add: pdMS_TO_TICKS_def cfg)
  ultimately show ?thesis using assms(1) by (auto simp: word_less_nat_alt)
qed

lemma diagAuxLoop_returns:
  assumes "s \<le> ticks e" "ticks e \<le> s + 49 + 2 * slack"
  shows "\<exists>r e'. diagAuxLoop esp (of_nat s) e = Some (r, e')"
  using assms
proof (induction "s + 50 + 2 * slack - ticks e" arbitrary: e rule: less_induct)
  case less
  define e1 where "e1 = snd (xTaskGetTickCount esp e)"
  define e2 where "e2 = snd (gpio_get_level esp LORA_AUX_PIN e1)"
  define e3 where "e3 = vTaskDelay esp 1 e2"
  have t1: "ticks e \<le> ticks e1" "ticks e1 \<le> ticks e + slack" using call_ticks(1)[of e] by (simp_all add: e1_def takes_def)
  have t2: "ticks e1 \<le> ticks e2" "ticks e2 \<le> ticks e1 + slack"
    using call_ticks(2)[of e1 LORA_AUX_PIN] by (simp_all add: e2_def takes_def)
  have t3: "ticks e2 < ticks e3" "ticks e3 \<le> ticks e2 + slack"
    using delay[of 1 e2] delay_10ms[of e2] by (simp_all add: e3_def takes_def)
  have ten: "pdMS_TO_TICKS 10 = 1" by (simp add: pdMS_TO_TICKS_def cfg)
  have now: "fst (xTaskGetTickCount esp e) - of_nat s < pdMS_TO_TICKS DIAG_AUX_WAIT_MS \<longleftrightarrow> ticks e1 < s + 50"
    unfolding tick_value e1_def[symmetric] by (rule elapsed_ticks) (use t1 less.prems slack in linarith)+
  show ?case
  proof (cases "ticks e1 < s + 50 \<and> fst (gpio_get_level esp LORA_AUX_PIN e1) \<noteq> LORA_AUX_READY_LEVEL")
    case True
    have "\<exists>r e'. diagAuxLoop esp (of_nat s) e3 = Some (r, e')"
      by (rule less.hyps) (use t1 t2 t3 less.prems True in linarith)+
    then show ?thesis using True now
      by (subst diagAuxLoop.simps) (simp add: case_prod_beta e1_def[symmetric] e2_def[symmetric] e3_def[symmetric] ten)
  next
    case False
    then show ?thesis using now by (subst diagAuxLoop.simps) (auto simp: case_prod_beta e1_def[symmetric])
  qed
qed

lemma diagWaitAux_returns: "\<exists>r e'. diagWaitAux esp e = Some (r, e')"
  using diagAuxLoop_returns[of "ticks (snd (xTaskGetTickCount esp e))" "snd (xTaskGetTickCount esp e)"]
  by (simp add: diagWaitAux_def case_prod_beta tick_value)

lemma diag_returns: "\<exists>r. diag_app_main gpio esp e = Some r"
proof -
  have q: "\<exists>out e'. diagQuery esp e = Some (out, e')" for e
    using diagWaitAux_returns[of e] by (auto simp: diagQuery_def Let_def case_prod_beta)
  have s: "\<exists>out e'. diagSmoke esp e = Some (out, e')" for e
    using diagWaitAux_returns[of "gpio_set_level esp LORA_M1_PIN LORA_MODE_NORMAL_M1_LEVEL
      (gpio_set_level esp LORA_M0_PIN LORA_MODE_NORMAL_M0_LEVEL (vTaskDelay esp (pdMS_TO_TICKS 50) e))"]
    by (auto simp: diagSmoke_def Let_def case_prod_beta)
  show ?thesis
  proof (cases "fst (diagSetup gpio esp e)")
    case True
    obtain o1 e1 where "diagQuery esp (snd (snd (diagSetup gpio esp e))) = Some (o1, e1)" using q by blast
    moreover obtain o2 e2 where "diagSmoke esp e1 = Some (o2, e2)" using s by blast
    ultimately show ?thesis using True by (auto simp: diag_app_main_def Let_def case_prod_beta)
  qed (auto simp: diag_app_main_def Let_def case_prod_beta)
qed

lemma wired_diag_clock: "diag_clock (wired esp) (\<lambda>x. ticks (fst x)) slack"
  by unfold_locales
     (use tick_value delay delay_10ms call_ticks slack in \<open>auto simp: wired_def lifted_def keepLog_def askLog_def takes_def\<close>)

end

lemma diagAuxLoop_wire:
  assumes ret: "diagAuxLoop (wired esp) t0 (e, w) = Some (r, e', w')"
  shows "w' = w"
proof -
  let ?P = "\<lambda>esp' t0 x y. esp' = wired esp \<longrightarrow> snd (snd y) = snd x"
  have "?P (wired esp) t0 (e, w) (r, e', w')"
  proof (rule diagAuxLoop.raw_induct[where P = ?P, OF _ ret])
    fix f esp' t0 and x :: "'a \<times> wire" and y :: "bool \<times> 'a \<times> wire"
    assume IH: "\<And>esp' t0 x y. f esp' t0 x = Some y \<Longrightarrow> ?P esp' t0 x y"
      and eq: "(case xTaskGetTickCount esp' x of (now, e) \<Rightarrow>
        if now - t0 < pdMS_TO_TICKS DIAG_AUX_WAIT_MS
        then (case gpio_get_level esp' LORA_AUX_PIN e of (level, e) \<Rightarrow>
               if level = LORA_AUX_READY_LEVEL then Some (True, e)
               else f esp' t0 (vTaskDelay esp' (pdMS_TO_TICKS 10) e))
        else Some (False, e)) = Some y"
    show "?P esp' t0 x y"
      using eq by (auto simp: case_prod_beta wired_def lifted_def askLog_def keepLog_def split: if_splits dest!: IH)
  qed
  then show ?thesis by simp
qed

lemma diagWaitAux_wire: "diagWaitAux (wired esp) x = Some (r, x') \<Longrightarrow> snd x' = snd x"
  using diagAuxLoop_wire[of esp] by (cases x') (auto simp: diagWaitAux_def case_prod_beta wired_def lifted_def askLog_def)

lemma diagSetup_wire: "snd (snd (snd (diagSetup (\<lambda>cfg. askLog (gpio cfg)) (wired esp) x))) = snd x"
  by (simp add: diagSetup_def Let_def case_prod_beta wired_def lifted_def askLog_def keepLog_def)

lemma diagQuery_wire:
  "diagQuery (wired esp) x = Some (out, x') \<Longrightarrow> map fst (snd x') = map fst (snd x) @ [e22_buildReadAllCommand (Some 3)]"
  by (auto simp: diagQuery_def Let_def case_prod_beta split: option.splits dest!: diagWaitAux_wire)

lemma diagSmoke_wire:
  "diagSmoke (wired esp) x = Some (out, x') \<Longrightarrow> map fst (snd x') = map fst (snd x) @ [DIAG_pingMsg]"
  by (auto simp: diagSmoke_def Let_def case_prod_beta split: option.splits dest!: diagWaitAux_wire)

lemma diagSetup_ok:
  "fst (diagSetup (\<lambda>cfg. askLog (gpio cfg)) esp (e, w)) \<longleftrightarrow>
     fst (gpio DIAG_modeCfg e) \<and> fst (gpio DIAG_auxCfg (snd (gpio DIAG_modeCfg e)))"
  by (simp add: diagSetup_def Let_def case_prod_beta askLog_def)

text \<open>C25. The diagnostic firmware only reads, and gets to its end: if both pin configurations succeed
  it runs to its idle loop, whatever the module does and whether or not AUX rises, and has put on
  the wire exactly the register query and then the test line, so no write command reaches the
  module.  If a pin cannot be configured it aborts and has sent nothing.  The tick count is
  assumed to advance with a delay and not to wrap unseen during one round of a waiting loop.\<close>

theorem diag_read_only:
  assumes "diag_clock esp ticks slack"
    and "pinsOk = (fst (gpio DIAG_modeCfg e) \<and> fst (gpio DIAG_auxCfg (snd (gpio DIAG_modeCfg e))))"
  shows "\<exists>out e' w. diag_app_main (\<lambda>cfg. askLog (gpio cfg)) (wired esp) (e, []) = Some (pinsOk, out, e', w) \<and>
    map fst w = (if pinsOk then [[E22_CMD_READ, 0, 9], DIAG_pingMsg] else [])"
proof -
  obtain ok out e' w where r: "diag_app_main (\<lambda>cfg. askLog (gpio cfg)) (wired esp) (e, []) = Some (ok, out, e', w)"
    using diag_clock.diag_returns[OF diag_clock.wired_diag_clock[OF assms(1)], of _ "(e, [])"] by fast
  then have "ok = pinsOk"
    unfolding assms(2) diagSetup_ok[where esp = "wired esp" and w = "[]", symmetric]
    by (auto simp: diag_app_main_def Let_def case_prod_beta split: if_splits option.splits)
  moreover have "map fst w = (if ok then [[E22_CMD_READ, 0, 9], DIAG_pingMsg] else [])"
    using r diagSetup_wire[of gpio esp "(e, [])"]
    by (auto simp: diag_app_main_def Let_def case_prod_beta readCommand cfg split: if_splits option.splits
        dest!: diagQuery_wire diagSmoke_wire)
  ultimately show ?thesis using r by blast
qed

interpretation bench_diag: diag_clock benchEsp "\<lambda>s. be_us s div 10000" 1
  by unfold_locales (auto simp: benchEsp_def takes_def word_less_nat_alt)

theorem diag_read_only_witness:
  "\<exists>out e' w. diag_app_main (\<lambda>cfg. askLog (Pair True)) (wired benchEsp) (benchFresh, []) = Some (True, out, e', w) \<and>
    map fst w = [[E22_CMD_READ, 0, 9], DIAG_pingMsg]"
  using diag_read_only[OF bench_diag.diag_clock_axioms, of True "\<lambda>_. Pair True" benchFresh] by simp

subsection \<open>The verdict on the registers\<close>

lemma other_lines:
  "diagMatches \<noteq> LOGW s" "diagMatches \<noteq> LOGE s" "diagMatches \<noteq> PRINTF s" "c \<noteq> CHR ''S'' \<Longrightarrow> diagMatches \<noteq> LOGI (c # s)"
  by (simp_all add: diagMatches_def)

text \<open>The diagnostic predicts the boot of the normal firmware: it reports the registers as
  agreed exactly for the answers on which the LoRa task will leave the flash alone.  A report that they
  differ and a report of an error or an incomplete answer mean that the task will write.\<close>

lemma diag_predicts_boot:
  "diagMatches \<in> set (diagReport rxLen resp) \<longleftrightarrow> configMatches rxLen resp"
proof -
  have r: "diagMatches \<in> set (diagRegs regs) \<longleftrightarrow> regs = E22_CONTRACT_REGS" for regs
    by (simp add: diagRegs_def DIAG_decodeReg0_def DIAG_decodeReg1_def DIAG_decodeReg2_def DIAG_decodeReg3_def Let_def
        diagMatches_def diagDiffers_def)
  show ?thesis
    by (auto simp: diagReport_def configMatches_def r other_lines split: option.split)
qed

text \<open>The agreed registers as the diagnostic prints them: 9600 8N1, 9.6 kbps on the air, full power,
  channel 23 at 433.125 MHz, transparent mode.\<close>

lemma contract_texts:
  "DIAG_uartBaudStr (drop_bit 5 (reg0 E22_CONTRACT_REGS) AND 0x07) = ''9600''"
  "DIAG_parityStr (drop_bit 3 (reg0 E22_CONTRACT_REGS) AND 0x03) = ''8N1''"
  "DIAG_airRateStr (reg0 E22_CONTRACT_REGS AND 0x07) = ''9.6 kbps''"
  "DIAG_txPowerStr (reg1 E22_CONTRACT_REGS AND 0x03) = ''en yuksek (T30D: 30 dBm)''"
  "410125 + 1000 * unat (reg2 E22_CONTRACT_REGS) = 433125"
  "drop_bit 6 (reg3 E22_CONTRACT_REGS) AND 1 = 0"
  by (simp_all add: E22_CONTRACT_REGS_def DIAG_uartBaudStr_def DIAG_parityStr_def DIAG_airRateStr_def DIAG_txPowerStr_def)

text \<open>Both programs use the pins of the module in the same way.\<close>

lemma same_pins: "DIAG_modeCfg = modePinsConfig" "DIAG_auxCfg = auxPinConfig"
  by (simp_all add: DIAG_modeCfg_def modePinsConfig_def DIAG_auxCfg_def auxPinConfig_def)

end
