(* ===== verification/Spec2Isabelle.thy ===== *)
theory Spec2Isabelle
  imports Vcu_Hazards Vehicle_Start Aks_Types Aks_Telemetry Aks_Config Lora_Budget Lora_Radio Hmi_Display Can_Replay
    E22_Diag
begin

text \<open>
  \<^bold>\<open>TUFAN-AKS: the vehicle control system firmware, modelled and verified.\<close>

  The program (src/ESP_AKS) is the firmware of an electric vehicle's control
  unit on an ESP32.  A CAN task decodes battery and motor frames, a VCU task
  runs the vehicle state machine and commands ten contactors through an SPI
  port expander, an HMI task drives the display and its touch commands, and a
  LoRa task sends telemetry and buffers it while the link is down.  The tasks
  share a queue of one telemetry snapshot and call each other's modules
  through callbacks.  Beside the firmware there are a diagnostic program for
  the radio and a host tool that replays recorded CAN sessions.

  \<^bold>\<open>Foundations.\<close>
  \<^item> \<open>Aks_Prelude\<close>: names for the machine words, byte composition, shared lemmas.
  \<^item> \<open>C_Printf\<close>, \<open>C_Scan\<close>: decimal and hexadecimal output into bounded buffers, and
    splitting, tokens, \<open>strtoul\<close> and \<open>strtol\<close>; what is printed is read back.
  \<^item> \<open>Vehicle_Data\<close>: the telemetry record (lib/VehicleData) and the constants of
    include/SystemConfig.h and lib/BmsAlgo/BmsAlgo.h that the models use.

  \<^bold>\<open>Vehicle control.\<close>
  \<^item> \<open>Vcu_Safety\<close>: the pure predicates of lib/VcuLogic/VcuLogic.h.
  \<^item> \<open>Relay_Manager\<close>: lib/RelayManager over an arbitrary SPI driver.  The
    expander enters through the laws of the locale \<open>mcp23s17\<close>, met by the
    register model of the native tests (test/test_native_relay/fake_spi.cpp).
  \<^item> \<open>Relay_Actuator\<close>: the interface IRelayActuator as a record of methods, its
    contract as the locale \<open>relay_actuator\<close>, and its interpretation on the
    adapter of src/main.cpp.
  \<^item> \<open>Vcu_Logic\<close>: lib/VcuLogic/VcuLogic.cpp, the state machine, over any actuator;
    \<open>run\<close> is one tick of 20 ms, \<open>postEvent\<close> the request of another task, \<open>vcu_reach\<close>
    the states reached by any interleaving of them.  Shown: the invariant, the
    transitions, the exact conditions of entering READY and of leaving READY or DRIVE
    for a stop, the opening of the contactors and the order of shutdown.
  \<^item> \<open>Vcu_Hazards\<close>: sequences of requests for which the code does not do what its
    comments say.

  \<^bold>\<open>CAN.\<close>
  \<^item> \<open>Can_Parse\<close>, \<open>Can_Manager\<close>: the frame decoders, the freshness and debounce
    helpers, and the reception cycle of lib/CanParse and lib/CanManager.
  \<^item> \<open>Can_Sniffer\<close>: what is logged of frames with unknown fields, in both builds.
  \<^item> \<open>Can_Replay\<close>: tools/can_replay, from the command line and the text of the log
    to the report and the exit code.  Shown: which logs pass, and that the
    documented lines are read back.

  \<^bold>\<open>Display.\<close>
  \<^item> \<open>Display_Hmi\<close>: lib/HMIHelpers and lib/DisplayHMI, texts, change-only updates and
    the touch command decoder.
  \<^item> \<open>Bms_Algo\<close>: lib/BmsAlgo/BmsAlgo.cpp, the statistics of the cells.
  \<^item> \<open>Bms_Nextion\<close>, \<open>Bms_Page\<close>: lib/BmsAlgo/BmsNextionPacket.cpp, the cell page with
    its cache and byte budget, when it converges and when it starves.
  \<^item> \<open>Hmi_Ema\<close>, \<open>Hmi_Task\<close>, \<open>Hmi_Display\<close>: the HMI task of src/main.cpp with the
    smoothing in single precision, and what a display shows that stores the
    values it was sent.

  \<^bold>\<open>Uplink.\<close>
  \<^item> \<open>Telemetry_Frame\<close>, \<open>Vehicle_Speed\<close>: lib/Telemetry, the sanitized line, its
    receiver (tools/e2e/contract.py) and the speed in single precision.
  \<^item> \<open>Offline_Buffer\<close>, \<open>Uplink_Scheduler\<close>: the ring buffer as a refinement of a
    bounded queue (locale \<open>bounded_fifo\<close>), link supervision, sampling and replay.
  \<^item> \<open>E22_Config\<close>, \<open>Lora_Link\<close>: the register commands and the boot configuration
    of the radio (lib/E22Config, lib/LoraLink) over the interface ILoraHal; the
    locale \<open>lora_clock\<close> says what the waits need of time, \<open>e22_radio\<close> how the
    module obeys commands.
  \<^item> \<open>Lora_Task\<close>, \<open>Lora_Boot\<close>, \<open>Lora_Uplink\<close>, \<open>Lora_Budget\<close>: the LoRa task of
    src/main.cpp over the calls of the ESP-IDF.  The locale \<open>esp_clock\<close> gives
    \<open>lora_clock\<close> for the hardware layer of the task (a sublocale); a bench model of
    the module meets both.  Shown: the traffic of the configuration, which frames a
    transmit tick puts on the wire, delivery of a backlog, and that the load stays within the budget that is
    asserted at compile time.
  \<^item> \<open>Lora_Watchdog\<close>: the time between two resets of the task watchdog.  The locale
    \<open>lora_timing\<close> bounds the time of each call of the hardware layer, \<open>esp_timing\<close> that of
    the calls of the ESP-IDF and gives \<open>lora_timing\<close> (a sublocale); the bench model meets it.
  \<^item> \<open>Lora_Radio\<close>: the configuration succeeds on a working module.  The locales \<open>lora_aux\<close> and
    \<open>esp_aux\<close> extend the two timing locales by the level of AUX: high once the busy time after
    a change of mode or a write has passed; the bench model meets them.
  \<^item> \<open>E22_Diag\<close>: src/e22_diagnostic.cpp, which only reads; its loops need the locale
    \<open>diag_clock\<close>.

  \<^bold>\<open>Composition.\<close>
  \<^item> \<open>Aks_System\<close>: start-up and task cycles of src/main.cpp in any interleaving
    (\<open>sys_reach\<close>), with the end-to-end safety properties.
  \<^item> \<open>Aks_Types\<close>: shape and range of the telemetry in every reachable state.
  \<^item> \<open>Vehicle_Spec\<close>: a specification of the vehicle with five modes, the contactors and
    the snapshot decided on (\<open>veh_step\<close>), and the proof that every run of the tasks is a
    run of it; the general argument is the locale \<open>refinement\<close>, interpreted on the system.
  \<^item> \<open>Vehicle_Start\<close>: a healthy vehicle starts and drives, from the touch commands to the
    pins of the port expander.
  \<^item> \<open>Aks_Telemetry\<close>: a battery reading from the CAN bus through the shared queue and
    the LoRa task to the fields the ground station decodes.
  \<^item> \<open>Aks_Config\<close>: pins, peripherals, channels and thresholds of include/SystemConfig.h
    and their consistency; the tasks \<open>app_main\<close> creates, what their priorities and
    cores imply, and their stack report.

  \<^bold>\<open>Bounds.\<close>  Timers and ticks are 32-bit words and wrap.  A stop opens the
  contactors within nine ticks: the event queue holds eight events and each
  tick takes one; from a lost battery to open contactors it takes eleven VCU
  cycles.  The reception loop takes at most \<open>CAN_RX_DRAIN_MAX\<close> frames, so the
  list of frames the driver delivers is the only recursion argument.  The UART
  and the display are set up in at most five attempts.  The waits for the radio
  are partial functions on options, and the theorems state that they return: the
  configuration takes at most 3.003 s plus the time of its calls.  It never resets the
  watchdog; with everything it waits for and delays it stays below 4.083 s plus 24 times
  the overhead of a call of the hardware layer, so the five seconds of the watchdog hold
  for overheads of the driver up to 3.5 ms.  The same overhead leaves room for a module that
  is busy for 0.29 s after a change of mode and 1.5 s after a write.  A full
  backlog of 75 packets is gone after 75 transmit ticks.  The cell page has settled on a
  steady pack after its first call and 19 more, and a stale page is cleared in
  19 cell updates.  The needles settle within 100 frames.

  \<^bold>\<open>Concurrency.\<close>  A tick exchanges the two request flags at its top, so a request
  posted while a tick runs has the effect of one posted before or after it;
  only the VCU task writes the telemetry snapshot.  Interleavings are therefore
  sequences of whole operations.

  \<^bold>\<open>Not modelled.\<close>  Log lines of the firmware other than those of \<open>Can_Sniffer\<close> and
  \<open>E22_Diag\<close>; the scheduler of FreeRTOS beyond what priorities and cores imply, and
  the watchdog of the other tasks, which have no waits but their delays; the
  TWAI, SPI, UART and FreeRTOS implementations, whose results are inputs of the
  definitions or functions with laws; the contraction of float operations to
  fused ones that a compiler may choose (each operation of the model rounds).
  The definitions of text conversion model the C library on a host with
  64-bit \<open>long\<close>.
\<close>

end
